(* ===== verification/Prelude.thy ===== *)
theory Prelude
  imports Main "HOL-Library.Word"
begin

unbundle bit_operations_syntax

text \<open>
  Shared vocabulary of the development: the machine integer types of the C sources, the
  theorem collections the component proofs draw on, and generic facts about shifts and masks
  of C \<^verbatim>\<open>int\<close> values, bytes, list updates and flag words.

  A C \<^verbatim>\<open>int\<close> expression whose value provably stays far inside 32 bits (all the constant-time
  code is of this kind) is a HOL \<open>int\<close>: \<open>drop_bit\<close> on it is the arithmetic right shift and
  \<open>AND\<close>, \<open>OR\<close>, \<open>XOR\<close> are the two's complement operations. Unsigned objects that the code
  stores or wraps are words of their width.
\<close>

type_synonym u8 = "8 word"
type_synonym u16 = "16 word"
type_synonym u32 = "32 word"
type_synonym u64 = "64 word"
type_synonym u128 = "128 word"

named_theorems flag_simps \<open>tests of single bits of flag words after updates\<close>
named_theorems byte_simps \<open>ranges and masks of byte values\<close>
named_theorems cstr_simps \<open>C string functions on printed text\<close>
named_theorems line_simps \<open>what the configuration readers do with one printed line\<close>


section \<open>Characters as C sees them\<close>

text \<open>The value of a \<^verbatim>\<open>char\<close> after promotion to \<^verbatim>\<open>int\<close>; \<^verbatim>\<open>char\<close> is unsigned in the ARM ABIs
  of Android and signed on x86.\<close>

definition char_int :: "bool \<Rightarrow> char \<Rightarrow> int" where
  "char_int sg c = (if sg \<and> 128 \<le> (of_char c :: int) then of_char c - 256 else of_char c)"

abbreviation code :: "char \<Rightarrow> nat" where
  "code c \<equiv> of_char c"

lemma of_char_int_bounds: "0 \<le> (of_char c :: int)" "(of_char c :: int) < 256"
proof -
  have "(of_char c :: int) = int (code c)" by (simp add: of_nat_of_char)
  moreover have "code c < 256" by simp
  ultimately show "0 \<le> (of_char c :: int)" "(of_char c :: int) < 256" by linarith+
qed

lemma char_int_bounds: "-128 \<le> char_int sg c" "char_int sg c < 256"
  using of_char_int_bounds[of c] unfolding char_int_def by (cases sg; simp; linarith)+

lemma char_int_eq_iff: "0 \<le> k \<Longrightarrow> k < 128 \<Longrightarrow> char_int sg c = k \<longleftrightarrow> (of_char c :: int) = k"
  using of_char_int_bounds[of c] unfolding char_int_def by (cases sg; simp; linarith)

lemma char_int_between:
  "0 \<le> lo \<Longrightarrow> hi < 128 \<Longrightarrow>
     (lo \<le> char_int sg c \<and> char_int sg c \<le> hi) \<longleftrightarrow> (lo \<le> (of_char c :: int) \<and> (of_char c :: int) \<le> hi)"
  using of_char_int_bounds[of c] unfolding char_int_def by (cases sg; simp; linarith)

lemma char_eq_of_char_int: "c = d \<longleftrightarrow> (of_char c :: int) = of_char d"
  by (metis char_of_char)


section \<open>Shifts and masks\<close>

lemma shr8_sign: "-256 \<le> a \<Longrightarrow> a < 256 \<Longrightarrow> drop_bit 8 (a::int) = (if a < 0 then -1 else 0)"
  by (auto simp: drop_bit_eq_div)

lemma push_or_add:
  fixes a b :: int
  assumes "0 \<le> b" "b < 2 ^ k"
  shows "push_bit k a OR b = a * 2 ^ k + b"
proof -
  have b: "take_bit k b = b" using assms by (simp add: take_bit_int_eq_self)
  have "push_bit k a OR b = push_bit k a + b"
  proof (rule disjunctive_add[symmetric])
    fix n show "\<not> bit (push_bit k a) n \<or> \<not> bit b n"
      by (subst (1) b[symmetric]) (auto simp: bit_simps)
  qed
  then show ?thesis by (simp add: push_bit_eq_mult)
qed

lemma and_63 [byte_simps]: "(x::int) AND 63 = x mod 64"
  using take_bit_eq_mask[of 6 x] by (simp add: mask_eq_exp_minus_1 take_bit_eq_mod)

lemma and_255 [byte_simps]: "(x::int) AND 255 = x mod 256"
  using take_bit_eq_mask[of 8 x] by (simp add: mask_eq_exp_minus_1 take_bit_eq_mod)

lemma uint_u8_bounds: "0 \<le> uint (a::u8)" "uint (a::u8) < 256"
  using uint_lt2p[of a] by simp_all

lemma u8_of_uint: "0 \<le> x \<Longrightarrow> x < 256 \<Longrightarrow> uint (word_of_int x :: u8) = x"
  by (simp add: uint_word_of_int take_bit_eq_mod)

lemma bit_push1: "bit (push_bit n 1 :: 'a::len word) m \<longleftrightarrow> m = n \<and> m < LENGTH('a)"
  by (auto simp: bit_simps)


lemma split4: "\<exists>k m. (x::int) = 4 * k + m \<and> 0 \<le> m \<and> m < 4 \<and> x div 4 = k \<and> x mod 4 = m"
  by (intro exI[of _ "x div 4"] exI[of _ "x mod 4"]) simp
lemma split16: "\<exists>k m. (x::int) = 16 * k + m \<and> 0 \<le> m \<and> m < 16 \<and> x div 16 = k \<and> x mod 16 = m"
  by (intro exI[of _ "x div 16"] exI[of _ "x mod 16"]) simp
lemma split64: "\<exists>k m. (x::int) = 64 * k + m \<and> 0 \<le> m \<and> m < 64 \<and> x div 64 = k \<and> x mod 64 = m"
  by (intro exI[of _ "x div 64"] exI[of _ "x mod 64"]) simp


lemma or_range:
  fixes a b :: int
  assumes "-(2^n) \<le> a" "a < 2^n" "-(2^n) \<le> b" "b < 2^n"
  shows "-(2^n) \<le> a OR b \<and> a OR b < 2^n"
proof -
  have "signed_take_bit n (a OR b) = a OR b"
    (is "?l = _")
  proof -
    have "?l = signed_take_bit n a OR signed_take_bit n b"
      by (rule bit_eqI) (auto simp: bit_simps)
    then show ?thesis using assms by (simp add: signed_take_bit_int_eq_self)
  qed
  then show ?thesis by (metis signed_take_bit_int_greater_eq_minus_exp signed_take_bit_int_less_exp)
qed

lemma and_range:
  fixes a b :: int
  assumes "-(2^n) \<le> a" "a < 2^n" "-(2^n) \<le> b" "b < 2^n"
  shows "-(2^n) \<le> a AND b \<and> a AND b < 2^n"
proof -
  have "signed_take_bit n (a AND b) = signed_take_bit n a AND signed_take_bit n b"
    by (rule bit_eqI) (auto simp: bit_simps)
  then have "signed_take_bit n (a AND b) = a AND b" using assms by (simp add: signed_take_bit_int_eq_self)
  then show ?thesis by (metis signed_take_bit_int_greater_eq_minus_exp signed_take_bit_int_less_exp)
qed

lemma sign_bit: "-(2^31) \<le> (v::int) \<Longrightarrow> v < 2^31 \<Longrightarrow> drop_bit 31 (take_bit 32 v) = (if v < 0 then 1 else 0)"
proof (cases "v < 0")
  case True
  assume "-(2^31) \<le> v" "v < 2^31"
  then have "take_bit 32 v = v + 2^32" using True by (simp add: take_bit_eq_mod) (rule int_mod_pos_eq[where q = "-1"], simp_all)
  then show ?thesis using True \<open>-(2^31) \<le> v\<close> by (simp add: drop_bit_eq_div)
next
  case False
  assume "-(2^31) \<le> v" "v < 2^31"
  then have "take_bit 32 v = v" using False by (simp add: take_bit_eq_mod)
  then show ?thesis using False \<open>v < 2^31\<close> by (simp add: drop_bit_eq_div)
qed


lemma borrow32:
  assumes m: "uint (m::u32) \<le> 256"
  shows "drop_bit 8 ((ucast (x::u8) :: u32) - m) = (if uint x < uint m then 0xFFFFFF else 0)"
proof -
  have u: "uint (ucast x :: u32) = uint x" by (simp add: uint_up_ucast is_up)
  note bx = uint_u8_bounds[of x]
  have "uint (drop_bit 8 ((ucast x :: u32) - m)) = uint ((ucast x :: u32) - m) div 2^8"
    unfolding unsigned_drop_bit_eq using uint_lt2p[of "(ucast x :: u32) - m"] by (simp add: take_bit_eq_mod drop_bit_eq_div)
  also have "\<dots> = (if uint x < uint m then uint x - uint m + 2^32 else uint x - uint m) div 2^8"
    unfolding uint_sub_if' u by auto
  also have "\<dots> = (if uint x < uint m then 2^24 - 1 else 0)"
  proof (cases "uint x < uint m")
    case True
    have "(a - b + 2^32) div 2^8 = 2^24 - 1" if "0 \<le> a" "a < b" "b \<le> 256" for a b :: int
      by (rule int_div_pos_eq[where r = "a - b + 256"]) (use that in simp_all)
    then show ?thesis using True bx m by simp
  next
    case False
    have "(uint x - uint m) div 2^8 = 0"
      by (rule div_pos_pos_trivial) (use False bx uint_ge_0[of m] in \<open>simp, linarith?\<close>)+
    then show ?thesis using False by simp
  qed
  finally show ?thesis by (auto simp: word_uint_eq_iff)
qed

lemma borrow32_10: "drop_bit 8 ((ucast (x::u8) :: u32) - 10) = (if uint x < 10 then 0xFFFFFF else 0)"
proof -
  have m: "uint (10::u32) = 10" by simp
  show ?thesis by (rule borrow32[of 10 x, unfolded m]) simp
qed

lemma borrow_10: "(ucast (drop_bit 8 ((ucast (x::u8) :: u32) - 10)) :: u8) = (if uint x < 10 then 255 else 0)"
  unfolding borrow32_10 by simp

lemma borrow_16: "(ucast (drop_bit 8 ((ucast (x::u8) :: u32) - 16)) :: u8) = (if uint x < 16 then 255 else 0)"
proof -
  have m: "uint (16::u32) = 16" by simp
  have "drop_bit 8 ((ucast x :: u32) - 16) = (if uint x < 16 then 0xFFFFFF else 0)"
    by (rule borrow32[of 16 x, unfolded m]) simp
  then show ?thesis by (simp only:) simp
qed

lemma ucast_and_not_32: "((ucast (x::u8) :: u32) AND NOT 32) = ucast (x AND NOT 32)"
  by (rule bit_word_eqI) (auto simp: bit_simps dest: bit_imp_le_length)
lemma uint_of_char: "uint (of_char ch :: u8) = int (code ch)"
proof -
  have "(of_char ch :: u8) = of_nat (code ch)" by (simp only: of_nat_of_char)
  moreover have "code ch < 256" by simp
  ultimately show ?thesis by (simp only: uint_nat unat_of_nat) simp
qed
lemma u8_10: "uint (x::u8) < 10 \<Longrightarrow> x \<in> set [0,1,2,3,4,5,6,7,8,9]"
proof -
  assume "uint x < 10"
  then have "uint x = 0 \<or> uint x = 1 \<or> uint x = 2 \<or> uint x = 3 \<or> uint x = 4 \<or> uint x = 5 \<or> uint x = 6 \<or> uint x = 7 \<or> uint x = 8 \<or> uint x = 9"
    using uint_ge_0[of x] by presburger
  then show ?thesis by (simp add: word_uint_eq_iff)
qed

lemma u8_6: "uint (x::u8) < 6 \<Longrightarrow> x \<in> set [0,1,2,3,4,5]"
proof -
  assume "uint x < 6"
  then have "uint x = 0 \<or> uint x = 1 \<or> uint x = 2 \<or> uint x = 3 \<or> uint x = 4 \<or> uint x = 5"
    using uint_ge_0[of x] by presburger
  then show ?thesis by (simp add: word_uint_eq_iff)
qed

lemma bit_32: "bit (32::int) n \<longleftrightarrow> n = 5"
proof -
  have "(32::int) = 2 ^ 5" by simp
  then show ?thesis by (simp only: bit_exp_iff) simp
qed

lemma and_32: "(c::u8) AND 32 = (if bit c 5 then 32 else 0)"
  by (rule bit_word_eqI) (auto simp: bit_and_iff bit_32)

lemma and_32_or: "(c::u8) = (c AND NOT 32) OR (c AND 32)"
  by (rule bit_word_eqI) (auto simp: bit_simps)

lemma or_eq_0_u8: "(x::u8) OR y = 0 \<longleftrightarrow> x = 0 \<and> y = 0"
  by (rule or_eq_0_iff)

lemma all_ones: "(255::u8) AND x = x" "(255::u8) OR x = 255" "x OR (255::u8) = 255"
proof -
  have m: "(255::u8) = -1" by simp
  show "(255::u8) AND x = x" "(255::u8) OR x = 255" "x OR (255::u8) = 255" unfolding m by simp_all
qed

lemma uint_u8_of_nat: "n < 256 \<Longrightarrow> uint (of_nat n :: u8) = int n"
  by (simp add: uint_nat unat_of_nat)


section \<open>Flag words\<close>

text \<open>\<^verbatim>\<open>flags & m\<close> as a condition, \<^verbatim>\<open>flags |= m\<close> and \<^verbatim>\<open>flags &= ~m\<close>.\<close>

definition flag_test :: "u32 \<Rightarrow> u32 \<Rightarrow> bool" where
  "flag_test f m \<longleftrightarrow> f AND m \<noteq> 0"

definition flag_bit :: "nat \<Rightarrow> u32" where
  "flag_bit n = push_bit n 1"

lemma flag_test_bit: "n < 32 \<Longrightarrow> flag_test f (flag_bit n) \<longleftrightarrow> bit f n"
  by (simp only: flag_test_def flag_bit_def bit_iff_and_push_bit_not_eq_0)

lemma flag_test_or [flag_simps]:
  "flag_test (f OR g) m \<longleftrightarrow> flag_test f m \<or> flag_test g m"
  by (auto simp: flag_test_def bit_eq_iff bit_simps)

lemma flag_test_0 [flag_simps, simp]: "\<not> flag_test 0 m"
  by (simp add: flag_test_def)

lemma flag_test_flag_bit [flag_simps]:
  "n < 32 \<Longrightarrow> m < 32 \<Longrightarrow> flag_test (flag_bit n) (flag_bit m) \<longleftrightarrow> n = m"
  by (auto simp: flag_test_bit) (auto simp: flag_bit_def bit_exp_iff)

lemma flag_test_clear [flag_simps]:
  "n < 32 \<Longrightarrow> m < 32 \<Longrightarrow> flag_test (f AND NOT (flag_bit n)) (flag_bit m) \<longleftrightarrow> n \<noteq> m \<and> flag_test f (flag_bit m)"
  by (auto simp: flag_test_bit bit_simps) (auto simp: flag_bit_def bit_exp_iff)


section \<open>Lists\<close>

lemma length_concat_chunks:
  "(\<And>i. i < n \<Longrightarrow> length (f i) = k) \<Longrightarrow> length (concat (map f [0..<n])) = n * k"
  by (induction n) auto

lemma concat_chunks_split:
  assumes "i < n"
  shows "concat (map f [0..<n]) = concat (map f [0..<i]) @ f i @ concat (map f [Suc i..<n])"
proof -
  have "[0..<n] = [0..<i] @ i # [Suc i..<n]"
    using assms upt_add_eq_append[of 0 i "n - i"] by (simp add: upt_conv_Cons)
  then show ?thesis by simp
qed

lemma nth_concat_chunks:
  assumes "\<And>i. i < n \<Longrightarrow> length (f i) = k" "j < k" "i < n"
  shows "concat (map f [0..<n]) ! (i * k + j) = f i ! j"
proof -
  have "length (concat (map f [0..<i])) = i * k"
    by (rule length_concat_chunks) (use assms in auto)
  then show ?thesis using concat_chunks_split[OF assms(3), of f] assms by (simp add: nth_append)
qed

lemma take_drop_concat_chunks:
  assumes "\<And>i. i < n \<Longrightarrow> length (f i) = k" "i < n"
  shows "take k (drop (i * k) (concat (map f [0..<n]) @ t)) = f i"
proof -
  have "length (concat (map f [0..<i])) = i * k"
    by (rule length_concat_chunks) (use assms in auto)
  then show ?thesis using concat_chunks_split[OF assms(2), of f] assms by simp
qed

lemma concat_take_drop_chunks:
  "n * k \<le> length xs \<Longrightarrow> concat (map (\<lambda>i. take k (drop (i * k) xs)) [0..<n]) = take (n * k) xs"
proof (induction n)
  case (Suc n)
  then show ?case using take_add[of "n * k" k xs] by (simp add: add.commute)
qed simp

lemma take4: "i + 3 < length s \<Longrightarrow> take 4 (drop i s) = [s ! i, s ! (i + 1), s ! (i + 2), s ! (i + 3)]"
  by (rule nth_equalityI) (auto simp: less_Suc_eq numeral_eq_Suc)

lemma take3: "i + 2 < length s \<Longrightarrow> take 3 (drop i s) = [s ! i, s ! (i + 1), s ! (i + 2)]"
  by (rule nth_equalityI) (auto simp: less_Suc_eq numeral_eq_Suc)

lemma update3:
  assumes "3 \<le> length xs"
  shows "(ys @ xs)[length ys := a, length ys + 1 := b, length ys + 2 := c] = ys @ [a, b, c] @ drop 3 xs"
proof -
  obtain x y z zs where "xs = x # y # z # zs"
    using assms by (auto simp: numeral_3_eq_3 Suc_le_length_iff)
  then show ?thesis by (simp add: list_update_append)
qed

end
