(* ===== verification/Encoding_Base64.thy ===== *)
theory Encoding_Base64
  imports Prelude
begin

unbundle bit_operations_syntax

text \<open>
  Base64 half of \<^verbatim>\<open>wireguard-tools/src/encoding.c\<close>: the constant-time codec of 32-byte keys. The
  arithmetic is the source's, operation by operation: \<^verbatim>\<open>int\<close> expressions are HOL integers and
  \<^verbatim>\<open>uint8_t\<close> objects are 8-bit words or integers truncated to eight bits. The specification side
  is the code of a sextet and the value of a character; the lemmas show that the branch-free
  arithmetic computes them, that decoding inverts encoding and that the decoder accepts
  canonical encodings only.
\<close>

section \<open>Base64\<close>

abbreviation WG_KEY_LEN :: nat where "WG_KEY_LEN \<equiv> 32"
abbreviation WG_KEY_LEN_BASE64 :: nat where "WG_KEY_LEN_BASE64 \<equiv> ((WG_KEY_LEN + 2) div 3) * 4 + 1"
abbreviation WG_KEY_LEN_HEX :: nat where "WG_KEY_LEN_HEX \<equiv> WG_KEY_LEN * 2 + 1"

type_synonym wgkey = "u8 list"

definition zero_key :: wgkey where
  "zero_key = replicate WG_KEY_LEN 0"

definition encode_base64_char :: "int \<Rightarrow> char" where
  "encode_base64_char x = char_of (x + 65
      + (drop_bit 8 (25 - x) AND 6)
      - (drop_bit 8 (51 - x) AND 75)
      - (drop_bit 8 (61 - x) AND 15)
      + (drop_bit 8 (62 - x) AND 3))"

definition base64_input :: "u8 \<Rightarrow> u8 \<Rightarrow> u8 \<Rightarrow> int list" where
  "base64_input a b c =
     [drop_bit 2 (uint a) AND 63,
      (push_bit 4 (uint a) OR drop_bit 4 (uint b)) AND 63,
      (push_bit 2 (uint b) OR drop_bit 6 (uint c)) AND 63,
      uint c AND 63]"

definition encode_base64 :: "u8 \<Rightarrow> u8 \<Rightarrow> u8 \<Rightarrow> string" where
  "encode_base64 a b c = map encode_base64_char (base64_input a b c)"

definition key_to_base64 :: "wgkey \<Rightarrow> string" where
  "key_to_base64 key =
     (concat (map (\<lambda>i. encode_base64 (key ! (i * 3)) (key ! (i * 3 + 1)) (key ! (i * 3 + 2)))
                  [0..<WG_KEY_LEN div 3])
      @ encode_base64 (key ! (WG_KEY_LEN div 3 * 3)) (key ! (WG_KEY_LEN div 3 * 3 + 1)) 0)
     [WG_KEY_LEN_BASE64 - 2 := CHR ''='']"

definition decode_base64_char :: "int \<Rightarrow> int" where
  "decode_base64_char s = -1
      + (drop_bit 8 ((65 - 1 - s) AND (s - (90 + 1))) AND (s - 64))
      + (drop_bit 8 ((97 - 1 - s) AND (s - (122 + 1))) AND (s - 70))
      + (drop_bit 8 ((48 - 1 - s) AND (s - (57 + 1))) AND (s + 5))
      + (drop_bit 8 ((43 - 1 - s) AND (s - (43 + 1))) AND 63)
      + (drop_bit 8 ((47 - 1 - s) AND (s - (47 + 1))) AND 64)"

definition decode_base64 :: "bool \<Rightarrow> string \<Rightarrow> int" where
  "decode_base64 sg src =
     fold (\<lambda>i val. val OR push_bit (18 - 6 * i) (decode_base64_char (char_int sg (src ! i)))) [0..<4] 0"

text \<open>One pass of the loop of \<^verbatim>\<open>key_from_base64\<close>: \<open>ret\<close>, an 8-bit object, collects the sign bits and
  three key bytes are stored.\<close>

definition key_from_base64_step :: "bool \<Rightarrow> string \<Rightarrow> nat \<Rightarrow> int \<times> wgkey \<Rightarrow> int \<times> wgkey" where
  "key_from_base64_step sg base64 i st =
     (let val = decode_base64 sg (take 4 (drop (i * 4) base64)) in
      (take_bit 8 (fst st OR drop_bit 31 (take_bit 32 val)),
       (snd st)[i * 3 := word_of_int (drop_bit 16 val AND 255),
                i * 3 + 1 := word_of_int (drop_bit 8 val AND 255),
                i * 3 + 2 := word_of_int (val AND 255)]))"

text \<open>The result is the returned flag and the contents of \<open>key\<close> afterwards; as in the source the
  buffer is written even when the flag says the text was invalid.\<close>

definition key_from_base64 :: "bool \<Rightarrow> wgkey \<Rightarrow> string \<Rightarrow> bool \<times> wgkey" where
  "key_from_base64 sg key base64 =
     (if length base64 \<noteq> WG_KEY_LEN_BASE64 - 1 \<or> base64 ! (WG_KEY_LEN_BASE64 - 2) \<noteq> CHR ''=''
      then (False, key)
      else
        (let (ret, key) = fold (key_from_base64_step sg base64) [0..<WG_KEY_LEN div 3] (0, key);
             i = WG_KEY_LEN div 3;
             val = decode_base64 sg [base64 ! (i * 4), base64 ! (i * 4 + 1), base64 ! (i * 4 + 2), CHR ''A''];
             ret = take_bit 8 (ret OR (drop_bit 31 (take_bit 32 val) OR (val AND 255)));
             key = key[i * 3 := word_of_int (drop_bit 16 val AND 255),
                       i * 3 + 1 := word_of_int (drop_bit 8 val AND 255)]
         in (1 AND drop_bit 8 (ret - 1) \<noteq> 0, key)))"

subsection \<open>The alphabet\<close>

definition b64_code :: "int \<Rightarrow> int" where
  "b64_code x = (if x < 26 then x + 65 else if x < 52 then x + 71 else if x < 62 then x - 4
                 else if x = 62 then 43 else 47)"

definition b64_val :: "int \<Rightarrow> int" where
  "b64_val s = (if 65 \<le> s \<and> s \<le> 90 then s - 65 else if 97 \<le> s \<and> s \<le> 122 then s - 71
                else if 48 \<le> s \<and> s \<le> 57 then s + 4 else if s = 43 then 62 else if s = 47 then 63 else -1)"

lemma encode_base64_char_code:
  "0 \<le> x \<Longrightarrow> x < 64 \<Longrightarrow> encode_base64_char x = char_of (b64_code x)"
  unfolding encode_base64_char_def b64_code_def by (auto simp: shr8_sign)

lemma decode_base64_char_val:
  "-128 \<le> s \<Longrightarrow> s < 256 \<Longrightarrow> decode_base64_char s = b64_val s"
  unfolding decode_base64_char_def b64_val_def by (simp add: shr8_sign)

lemma b64_code_range: "0 \<le> x \<Longrightarrow> x < 64 \<Longrightarrow> 43 \<le> b64_code x \<and> b64_code x \<le> 122"
  by (auto simp: b64_code_def)

lemma b64_val_code: "0 \<le> x \<Longrightarrow> x < 64 \<Longrightarrow> b64_val (b64_code x) = x"
  by (auto simp: b64_code_def b64_val_def)

lemma b64_code_val: "0 \<le> b64_val s \<Longrightarrow> b64_code (b64_val s) = s"
  by (auto simp: b64_code_def b64_val_def split: if_splits)

lemma b64_val_range: "-1 \<le> b64_val s" "b64_val s < 64"
  by (auto simp: b64_val_def)

lemma b64_val_char_int: "b64_val (char_int sg c) = b64_val (of_char c)"
  using char_int_between[of 65 90 sg c] char_int_between[of 97 122 sg c] char_int_between[of 48 57 sg c]
    char_int_eq_iff[of 43 sg c] char_int_eq_iff[of 47 sg c]
  unfolding b64_val_def char_int_def by auto

definition char_val :: "char \<Rightarrow> int" where
  "char_val c = b64_val (of_char c)"

lemma decode_char [simp]: "decode_base64_char (char_int sg c) = char_val c"
  by (simp add: decode_base64_char_val char_int_bounds b64_val_char_int char_val_def)

lemma encode_char_val: "0 \<le> char_val c \<Longrightarrow> encode_base64_char (char_val c) = c"
  using b64_val_range[of "of_char c"]
  by (simp add: char_val_def encode_base64_char_code b64_code_val)

lemma char_val_encode: "0 \<le> x \<Longrightarrow> x < 64 \<Longrightarrow> char_val (encode_base64_char x) = x"
  using b64_code_range[of x]
  by (simp add: char_val_def encode_base64_char_code b64_val_code)

lemma char_val_range: "-1 \<le> char_val c" "char_val c < 64"
  by (simp_all add: char_val_def b64_val_range)


subsection \<open>Groups of three bytes and four characters\<close>

definition join3 :: "int \<Rightarrow> int \<Rightarrow> int \<Rightarrow> int" where
  "join3 a b c = a * 2^16 + b * 2^8 + c"

definition join4 :: "int \<Rightarrow> int \<Rightarrow> int \<Rightarrow> int \<Rightarrow> int" where
  "join4 p q r s = p * 2^18 + q * 2^12 + r * 2^6 + s"

lemma sextets_of_bytes:
  fixes x y z :: int
  assumes "0 \<le> x" "x < 256" "0 \<le> y" "y < 256" "0 \<le> z" "z < 256"
  shows "drop_bit 2 x AND 63 = x div 4"
    and "(push_bit 4 x OR drop_bit 4 y) AND 63 = (x mod 4) * 16 + y div 16"
    and "(push_bit 2 y OR drop_bit 6 z) AND 63 = (y mod 16) * 4 + z div 64"
proof -
  obtain x1 x0 where x: "x = 4 * x1 + x0" "0 \<le> x0" "x0 < 4" "x div 4 = x1" "x mod 4 = x0" using split4 by blast
  obtain y1 y0 where y: "y = 16 * y1 + y0" "0 \<le> y0" "y0 < 16" "y div 16 = y1" "y mod 16 = y0" using split16 by blast
  obtain z1 z0 where z: "z = 64 * z1 + z0" "0 \<le> z0" "z0 < 64" "z div 64 = z1" "z mod 64 = z0" using split64 by blast
  show "drop_bit 2 x AND 63 = x div 4"
    using assms x by (simp add: and_63 drop_bit_eq_div)
  have "(x * 2^4 + y1) mod 64 = x0 * 16 + y1"
    by (rule int_mod_pos_eq[where q = x1]) (use assms x(1-3) y(1-3) in simp_all)
  then show "(push_bit 4 x OR drop_bit 4 y) AND 63 = (x mod 4) * 16 + y div 16"
    using assms x y by (simp add: and_63 drop_bit_eq_div push_or_add)
  have "(y * 2^2 + z1) mod 64 = y0 * 4 + z1"
    by (rule int_mod_pos_eq[where q = y1]) (use assms y(1-3) z(1-3) in simp_all)
  then show "(push_bit 2 y OR drop_bit 6 z) AND 63 = (y mod 16) * 4 + z div 64"
    using assms y z by (simp add: and_63 drop_bit_eq_div push_or_add)
qed

lemma join_bytes_sextets:
  "join4 (x div 4) ((x mod 4) * 16 + y div 16) ((y mod 16) * 4 + z div 64) (z mod 64) = join3 x y z"
proof -
  obtain x1 x0 where x: "x = 4 * x1 + x0" "x div 4 = x1" "x mod 4 = x0" using split4 by blast
  obtain y1 y0 where y: "y = 16 * y1 + y0" "y div 16 = y1" "y mod 16 = y0" using split16 by blast
  obtain z1 z0 where z: "z = 64 * z1 + z0" "z div 64 = z1" "z mod 64 = z0" using split64 by blast
  show ?thesis unfolding x(2,3) y(2,3) z(2,3) join4_def join3_def by (simp add: x(1) y(1) z(1))
qed

lemma join3_div:
  assumes "0 \<le> b" "b < 256" "0 \<le> c" "c < 256"
  shows "join3 a b c div 2^16 = a" "join3 a b c div 2^8 = a * 256 + b" "join3 a b c mod 256 = c"
proof -
  show "join3 a b c div 2^16 = a" 
    by (rule int_div_pos_eq[where r = "b * 256 + c"]) (use assms in \<open>simp_all add: join3_def\<close>)
  show "join3 a b c div 2^8 = a * 256 + b" 
    by (rule int_div_pos_eq[where r = "c"]) (use assms in \<open>simp_all add: join3_def\<close>)
  show "join3 a b c mod 256 = c"
    by (rule int_mod_pos_eq[where q = "a * 256 + b"]) (use assms in \<open>simp_all add: join3_def\<close>)
qed

lemma join4_div:
  assumes "0 \<le> q" "q < 64" "0 \<le> r" "r < 64" "0 \<le> s" "s < 64"
  shows "join4 p q r s div 2^18 = p" "join4 p q r s div 2^12 = p * 64 + q" 
    "join4 p q r s div 2^6 = p * 4096 + q * 64 + r" "join4 p q r s mod 64 = s"
proof -
  show "join4 p q r s div 2^18 = p"
    by (rule int_div_pos_eq[where r = "q * 2^12 + r * 2^6 + s"]) (use assms in \<open>simp_all add: join4_def\<close>)
  show "join4 p q r s div 2^12 = p * 64 + q"
    by (rule int_div_pos_eq[where r = "r * 2^6 + s"]) (use assms in \<open>simp_all add: join4_def\<close>)
  show "join4 p q r s div 2^6 = p * 4096 + q * 64 + r"
    by (rule int_div_pos_eq[where r = "s"]) (use assms in \<open>simp_all add: join4_def\<close>)
  show "join4 p q r s mod 64 = s"
    by (rule int_mod_pos_eq[where q = "p * 4096 + q * 64 + r"]) (use assms in \<open>simp_all add: join4_def\<close>)
qed

lemma join4_inj:
  assumes "join4 p q r s = join4 p' q' r' s'" 
   "0 \<le> q" "q < 64" "0 \<le> r" "r < 64" "0 \<le> s" "s < 64"
   "0 \<le> q'" "q' < 64" "0 \<le> r'" "r' < 64" "0 \<le> s'" "s' < 64"
  shows "p = p' \<and> q = q' \<and> r = r' \<and> s = s'"
  using assms join4_div[of q r s p] join4_div[of q' r' s' p'] by simp

lemma join4_or:
  assumes 
   "0 \<le> q" "q < 64" "0 \<le> r" "r < 64" "0 \<le> s" "s < 64"
  shows "push_bit 18 p OR push_bit 12 q OR push_bit 6 r OR s = join4 p q r s"
proof -
  have "push_bit 6 r OR s = r * 2^6 + s" using assms by (simp add: push_or_add)
  moreover have "push_bit 12 q OR (r * 2^6 + s) = q * 2^12 + (r * 2^6 + s)" by (rule push_or_add) (use assms in auto)
  moreover have "push_bit 18 p OR (q * 2^12 + (r * 2^6 + s)) = p * 2^18 + (q * 2^12 + (r * 2^6 + s))" by (rule push_or_add) (use assms in auto)
  ultimately show ?thesis by (simp add: join4_def or.assoc)
qed

lemma decode_base64_or:
  "decode_base64 sg [c0, c1, c2, c3] =
     push_bit 18 (char_val c0) OR push_bit 12 (char_val c1) OR push_bit 6 (char_val c2) OR char_val c3"
  by (simp add: decode_base64_def upt_rec or.assoc)

lemma decode_base64_range: "-(2^31) \<le> decode_base64 sg [c0, c1, c2, c3] \<and> decode_base64 sg [c0, c1, c2, c3] < 2^31"
proof -
  have b: "- 2147483648 \<le> push_bit k (char_val c) \<and> push_bit k (char_val c) < 2147483648" if "k \<le> 18" for k c
  proof -
    have "(2::int)^k \<le> 262144" using that power_increasing[of k 18 "2::int"] by simp
    moreover have "(0::int) < 2^k" by simp
    moreover have "-1 * 2^k \<le> char_val c * 2^k" "char_val c * 2^k \<le> 64 * 2^k"
      by (rule mult_right_mono; use char_val_range[of c] in simp)+
    ultimately show ?thesis unfolding push_bit_eq_mult by (intro conjI) linarith+
  qed
  have b0: "- 2147483648 \<le> char_val c3 \<and> char_val c3 < 2147483648" using b[of 0 c3] by simp
  show ?thesis unfolding decode_base64_or using b[of 18 c0] b[of 12 c1] b[of 6 c2] b0 or_range[of 31] by auto
qed

lemma decode_base64_neg:
  "decode_base64 sg [c0, c1, c2, c3] < 0 \<longleftrightarrow> char_val c0 < 0 \<or> char_val c1 < 0 \<or> char_val c2 < 0 \<or> char_val c3 < 0"
  by (simp add: decode_base64_or)

lemma decode_base64_join:
  "0 \<le> decode_base64 sg [c0, c1, c2, c3] \<Longrightarrow>
    decode_base64 sg [c0, c1, c2, c3] = join4 (char_val c0) (char_val c1) (char_val c2) (char_val c3)"
  using decode_base64_neg[of sg c0 c1 c2 c3] char_val_range unfolding decode_base64_or
  by (subst join4_or) auto

definition bytes3 :: "int \<Rightarrow> wgkey" where
  "bytes3 val = [word_of_int (drop_bit 16 val AND 255), word_of_int (drop_bit 8 val AND 255), word_of_int (val AND 255)]"

definition quad :: "bool \<Rightarrow> string \<Rightarrow> nat \<Rightarrow> int" where
  "quad sg b i = decode_base64 sg (take 4 (drop (i * 4) b))"

lemma quad_range:
  assumes "i * 4 + 3 < length b"
  shows "-(2^31) \<le> quad sg b i" "quad sg b i < 2^31"
  using decode_base64_range assms by (simp_all add: quad_def take4)

lemma key_from_base64_loop:
  assumes key: "length key = WG_KEY_LEN" and b: "length b = WG_KEY_LEN_BASE64 - 1" and n: "n \<le> 10"
  shows "\<exists>r. fold (key_from_base64_step sg b) [0..<n] (0, key)
               = (r, concat (map (\<lambda>i. bytes3 (quad sg b i)) [0..<n]) @ drop (n * 3) key)
             \<and> r \<in> {0, 1} \<and> (r = 0 \<longleftrightarrow> (\<forall>i<n. 0 \<le> quad sg b i))"
  using n
proof (induction n)
  case 0
  show ?case by simp
next
  case (Suc n)
  then obtain r where r: "fold (key_from_base64_step sg b) [0..<n] (0, key)
               = (r, concat (map (\<lambda>i. bytes3 (quad sg b i)) [0..<n]) @ drop (n * 3) key)"
    and r01: "r \<in> {0, 1}" "r = 0 \<longleftrightarrow> (\<forall>i<n. 0 \<le> quad sg b i)" by auto
  have len: "length (concat (map (\<lambda>i. bytes3 (quad sg b i)) [0..<n])) = n * 3"
    by (rule length_concat_chunks) (simp add: bytes3_def)
  have sb: "drop_bit 31 (take_bit 32 (quad sg b n)) = (if quad sg b n < 0 then 1 else 0)"
    by (rule sign_bit) (use quad_range[of n b sg] Suc.prems b in auto)
  have three: "3 \<le> length (drop (n * 3) key)" using Suc.prems key by simp
  have "fold (key_from_base64_step sg b) [0..<Suc n] (0, key)
          = (take_bit 8 (r OR (if quad sg b n < 0 then 1 else 0)),
             concat (map (\<lambda>i. bytes3 (quad sg b i)) [0..<Suc n]) @ drop (Suc n * 3) key)"
    using r update3[OF three, of "concat (map (\<lambda>i. bytes3 (quad sg b i)) [0..<n])"] three len sb
    by (simp add: key_from_base64_step_def Let_def quad_def[symmetric] bytes3_def add.commute)
  moreover have "take_bit 8 (r OR (if quad sg b n < 0 then 1 else 0)) \<in> {0, 1}"
    "take_bit 8 (r OR (if quad sg b n < 0 then 1 else 0)) = 0 \<longleftrightarrow> (\<forall>i<Suc n. 0 \<le> quad sg b i)"
    using r01 by (auto simp: less_Suc_eq)
  ultimately show ?case by blast
qed

definition last_quad :: "bool \<Rightarrow> string \<Rightarrow> int" where
  "last_quad sg b = decode_base64 sg [b ! 40, b ! 41, b ! 42, CHR ''A'']"

lemma key_from_base64_eq:
  assumes key: "length key = WG_KEY_LEN" and b: "length b = WG_KEY_LEN_BASE64 - 1"
  shows "key_from_base64 sg key b =
     (if b ! (WG_KEY_LEN_BASE64 - 2) \<noteq> CHR ''='' then (False, key)
      else ((\<forall>i<10. 0 \<le> quad sg b i) \<and> 0 \<le> last_quad sg b \<and> last_quad sg b AND 255 = 0,
            concat (map (\<lambda>i. bytes3 (quad sg b i)) [0..<10]) @ take 2 (bytes3 (last_quad sg b))))"
proof (cases "b ! 43 = CHR ''=''")
  case False
  then show ?thesis by (simp add: key_from_base64_def)
next
  case True
  obtain r where r: "fold (key_from_base64_step sg b) [0..<10] (0, key)
               = (r, concat (map (\<lambda>i. bytes3 (quad sg b i)) [0..<10]) @ drop 30 key)"
    and r01: "r \<in> {0, 1}" "r = 0 \<longleftrightarrow> (\<forall>i<10. 0 \<le> quad sg b i)"
    using key_from_base64_loop[OF key b, of 10 sg] by auto
  let ?v = "last_quad sg b" let ?k = "concat (map (\<lambda>i. bytes3 (quad sg b i)) [0..<10])"
  have len: "length ?k = 30"
    using length_concat_chunks[of 10 "\<lambda>i. bytes3 (quad sg b i)" 3] by (simp add: bytes3_def)
  have sb: "drop_bit 31 (take_bit 32 ?v) = (if ?v < 0 then 1 else 0)"
    unfolding last_quad_def using decode_base64_range by (intro sign_bit) auto
  have "length (drop 30 key) = Suc (Suc 0)" using key by simp
  then obtain x y where xy: "drop 30 key = [x, y]" by (auto simp: length_Suc_conv simp del: length_drop)
  define ret where "ret = r OR ((if ?v < 0 then 1 else 0) OR (?v AND 255))"
  have "0 \<le> ?v AND 255" and v255: "-(2^8) \<le> ?v AND 255" "?v AND 255 < 2^8"
    by (simp_all add: and_255 order_trans[of _ "0::int"])
  then have "-(2^8) \<le> (if ?v < 0 then 1 else 0) OR (?v AND 255) \<and> (if ?v < 0 then 1 else 0) OR (?v AND 255) < 2^8"
    by (intro or_range) auto
  then have ret8: "-(2^8) \<le> ret \<and> ret < 2^8"
    unfolding ret_def using r01(1) by (intro or_range) auto
  moreover have nonneg: "0 \<le> ret" unfolding ret_def using r01(1) \<open>0 \<le> ?v AND 255\<close> by auto
  ultimately have trunc: "take_bit 8 ret = ret" by (simp add: take_bit_int_eq_self)
  have acc: "1 AND drop_bit 8 (ret - 1) \<noteq> 0 \<longleftrightarrow> ret < 1"
    using ret8 nonneg by (simp add: shr8_sign)
  have zero: "ret < 1 \<longleftrightarrow> (\<forall>i<10. 0 \<le> quad sg b i) \<and> 0 \<le> ?v \<and> ?v AND 255 = 0"
  proof -
    have "ret < 1 \<longleftrightarrow> ret = 0" using nonneg by linarith
    then show ?thesis unfolding ret_def using r01(2) by (auto simp: or_eq_0_iff)
  qed
  have "key_from_base64 sg key b =
      (1 AND drop_bit 8 (ret - 1) \<noteq> 0,
       (?k @ [x, y])[30 := word_of_int (drop_bit 16 ?v AND 255), 31 := word_of_int (drop_bit 8 ?v AND 255)])"
    using True b r xy sb trunc by (simp add: key_from_base64_def Let_def last_quad_def[symmetric] ret_def)
  then show ?thesis using True acc zero len by (simp add: list_update_append bytes3_def)
qed

lemma encode_base64_chars: "base64_input a b c = [p, q, r, s] \<Longrightarrow>
   encode_base64 a b c = [encode_base64_char p, encode_base64_char q, encode_base64_char r, encode_base64_char s]"
  by (simp add: encode_base64_def)

lemma base64_input_join:
  obtains p q r s where "base64_input a b c = [p, q, r, s]" "0 \<le> p" "p < 64" "0 \<le> q" "q < 64" "0 \<le> r" "r < 64" "0 \<le> s" "s < 64"
    "join4 p q r s = join3 (uint a) (uint b) (uint c)"
proof -
  note B = uint_u8_bounds[of a] uint_u8_bounds[of b] uint_u8_bounds[of c]
  note S = sextets_of_bytes[OF B]
  show ?thesis
  proof (rule that)
    show "base64_input a b c = [drop_bit 2 (uint a) AND 63, (push_bit 4 (uint a) OR drop_bit 4 (uint b)) AND 63,
      (push_bit 2 (uint b) OR drop_bit 6 (uint c)) AND 63, uint c AND 63]" by (simp add: base64_input_def)
    show "join4 (drop_bit 2 (uint a) AND 63) ((push_bit 4 (uint a) OR drop_bit 4 (uint b)) AND 63)
      ((push_bit 2 (uint b) OR drop_bit 6 (uint c)) AND 63) (uint c AND 63) = join3 (uint a) (uint b) (uint c)"
      unfolding S and_63[of "uint c"] by (rule join_bytes_sextets)
  qed (simp_all add: and_63)
qed

lemma decode_encode_base64: "decode_base64 sg (encode_base64 a b c) = join3 (uint a) (uint b) (uint c)"
proof -
  obtain p q r s where P: "base64_input a b c = [p, q, r, s]" "0 \<le> p" "p < 64" "0 \<le> q" "q < 64" "0 \<le> r" "r < 64" "0 \<le> s" "s < 64"
    "join4 p q r s = join3 (uint a) (uint b) (uint c)" by (rule base64_input_join)
  then show ?thesis unfolding encode_base64_chars[OF P(1)] decode_base64_or
    using join4_or[of q r s p] by (simp add: char_val_encode)
qed

lemma bytes3_join3: "bytes3 (join3 (uint a) (uint b) (uint c)) = [a, b, c]"
proof -
  note B = uint_u8_bounds[of b] uint_u8_bounds[of c]
  have "(uint a * 256 + uint b) mod 256 = uint b" using B by simp
  then show ?thesis
    using join3_div[OF B, of "uint a"] uint_u8_bounds[of a] by (simp add: bytes3_def and_255 drop_bit_eq_div)
qed
lemma join3_bytes3:
  assumes "0 \<le> v" "v < 2^24" "bytes3 v = [a, b, c]"
  shows "join3 (uint a) (uint b) (uint c) = v"
proof -
  have "v div 65536 = v div 256 div 256" using zdiv_zmult2_eq[of 256 v 256] by simp
  moreover have "0 \<le> v div 65536" "v div 65536 < 256" using assms(1,2) by simp_all
  ultimately have "uint a = v div 256 div 256" "uint b = v div 256 mod 256" "uint c = v mod 256"
    using assms(3) by (auto simp: bytes3_def and_255 drop_bit_eq_div u8_of_uint)
  moreover have "w * 2^16 + x * 2^8 + y = v" if "256 * z + y = v" "256 * w + x = z" for w x y z :: int
    using that by simp
  from this[OF mult_div_mod_eq mult_div_mod_eq]
  have "v div 256 div 256 * 2^16 + v div 256 mod 256 * 2^8 + v mod 256 = v" .
  ultimately show ?thesis unfolding join3_def by simp
qed

lemma encode_decode_base64:
  assumes "0 \<le> decode_base64 sg [c0, c1, c2, c3]" and "bytes3 (decode_base64 sg [c0, c1, c2, c3]) = [a, b, c]"
  shows "encode_base64 a b c = [c0, c1, c2, c3]"
proof -
  let ?v = "decode_base64 sg [c0, c1, c2, c3]"
  have nn: "0 \<le> char_val c0" "0 \<le> char_val c1" "0 \<le> char_val c2" "0 \<le> char_val c3"
    using assms(1) decode_base64_neg[of sg c0 c1 c2 c3] by linarith+
  have v: "?v = join4 (char_val c0) (char_val c1) (char_val c2) (char_val c3)" by (rule decode_base64_join[OF assms(1)])
  obtain p q r s where P: "base64_input a b c = [p, q, r, s]" "0 \<le> p" "p < 64" "0 \<le> q" "q < 64" "0 \<le> r" "r < 64" "0 \<le> s" "s < 64"
    "join4 p q r s = join3 (uint a) (uint b) (uint c)" by (rule base64_input_join)
  have "?v < 2^24" unfolding v join4_def using char_val_range[of c0] char_val_range[of c1] char_val_range[of c2] char_val_range[of c3] by simp
  then have "join3 (uint a) (uint b) (uint c) = ?v" using assms by (intro join3_bytes3)
  then have "p = char_val c0 \<and> q = char_val c1 \<and> r = char_val c2 \<and> s = char_val c3"
    using join4_inj[of p q r s "char_val c0" "char_val c1" "char_val c2" "char_val c3"] P nn char_val_range v by auto
  then show ?thesis using encode_base64_chars[OF P(1)] encode_char_val nn by simp
qed

lemma key_to_base64_eq:
  "key_to_base64 k =
     concat (map (\<lambda>i. encode_base64 (k ! (i * 3)) (k ! (i * 3 + 1)) (k ! (i * 3 + 2))) [0..<10])
       @ (encode_base64 (k ! 30) (k ! 31) 0)[3 := CHR ''='']"
proof -
  have "length (concat (map (\<lambda>i. encode_base64 (k ! (i * 3)) (k ! (i * 3 + 1)) (k ! (i * 3 + 2))) [0..<10])) = 40"
    by (subst length_concat_chunks[of _ _ 4]) (simp_all add: encode_base64_def base64_input_def)
  then show ?thesis by (simp add: key_to_base64_def list_update_append)
qed

lemma length_encode_base64 [simp]: "length (encode_base64 a b c) = 4"
  by (simp add: encode_base64_def base64_input_def)

lemma length_key_to_base64: "length (key_to_base64 k) = WG_KEY_LEN_BASE64 - 1"
  unfolding key_to_base64_eq length_append by (subst length_concat_chunks[of _ _ 4]) simp_all

lemma last_char_val_A: "char_val (CHR ''A'') = 0"
  by (simp add: char_val_def b64_val_def)

lemma key_to_base64_last:
  "\<exists>p q r. encode_base64 a b 0 = [p, q, r, CHR ''A'']"
proof -
  have "encode_base64_char (0 AND 63) = CHR ''A''"
    by (simp add: encode_base64_char_code b64_code_def char_of_def)
  then show ?thesis by (simp add: encode_base64_def base64_input_def)
qed

lemma key_chunks:
  assumes "length k = WG_KEY_LEN"
  shows "concat (map (\<lambda>i. [k ! (i * 3), k ! (i * 3 + 1), k ! (i * 3 + 2)]) [0..<10]) @ [k ! 30, k ! 31] = k"
proof -
  have "concat (map (\<lambda>i. [k ! (i * 3), k ! (i * 3 + 1), k ! (i * 3 + 2)]) [0..<10])
      = concat (map (\<lambda>i. take 3 (drop (i * 3) k)) [0..<10])"
    using assms by (intro arg_cong[where f = concat] map_cong) (auto simp: take3)
  also have "\<dots> = take 30 k" using concat_take_drop_chunks[of 10 3 k] assms by simp
  finally have *: "concat (map (\<lambda>i. [k ! (i * 3), k ! (i * 3 + 1), k ! (i * 3 + 2)]) [0..<10]) = take 30 k" .
  have "[k ! 30, k ! 31] = drop 30 k"
    using assms by (intro nth_equalityI) (auto simp: less_Suc_eq)
  then show ?thesis unfolding * by simp
qed

lemma key_from_to_base64:
  assumes "length k = WG_KEY_LEN" "length k0 = WG_KEY_LEN"
  shows "key_from_base64 sg k0 (key_to_base64 k) = (True, k)"
proof -
  let ?s = "key_to_base64 k"
  obtain p q r where pqr: "encode_base64 (k ! 30) (k ! 31) 0 = [p, q, r, CHR ''A'']"
    using key_to_base64_last by blast
  have s: "?s = concat (map (\<lambda>i. encode_base64 (k ! (i * 3)) (k ! (i * 3 + 1)) (k ! (i * 3 + 2))) [0..<10]) @ [p, q, r, CHR ''='']"
    (is "_ = ?c @ _")
    using pqr by (simp add: key_to_base64_eq)
  have lc: "length ?c = 40" by (subst length_concat_chunks[of _ _ 4]) simp_all
  have nth: "?s ! 40 = p" "?s ! 41 = q" "?s ! 42 = r" "?s ! 43 = CHR ''=''"
    unfolding s using lc by (simp_all add: nth_append)
  have quad: "quad sg ?s i = join3 (uint (k ! (i * 3))) (uint (k ! (i * 3 + 1))) (uint (k ! (i * 3 + 2)))" if "i < 10" for i
  proof -
    have "take 4 (drop (i * 4) ?s) = encode_base64 (k ! (i * 3)) (k ! (i * 3 + 1)) (k ! (i * 3 + 2))"
      unfolding s by (rule take_drop_concat_chunks) (use that in simp_all)
    then show ?thesis by (simp add: quad_def decode_encode_base64)
  qed
  have last: "last_quad sg ?s = join3 (uint (k ! 30)) (uint (k ! 31)) (uint (0::u8))"
    unfolding last_quad_def nth pqr[symmetric] by (rule decode_encode_base64)
  have "concat (map (\<lambda>i. bytes3 (quad sg ?s i)) [0..<10])
      = concat (map (\<lambda>i. [k ! (i * 3), k ! (i * 3 + 1), k ! (i * 3 + 2)]) [0..<10])"
    by (intro arg_cong[where f = concat] map_cong) (auto simp: quad bytes3_join3)
  moreover have "take 2 (bytes3 (last_quad sg ?s)) = [k ! 30, k ! 31]"
    unfolding last bytes3_join3 by simp
  moreover have "0 \<le> last_quad sg ?s" "last_quad sg ?s AND 255 = 0" "\<forall>i<10. 0 \<le> quad sg ?s i"
    using join3_div(3)[of "uint (k ! 31)" "uint (0::u8)" "uint (k ! 30)"] uint_u8_bounds(2)[of "k ! 31"]
    by (simp_all add: last quad and_255 join3_def)
  ultimately show ?thesis
    using key_from_base64_eq[OF assms(2), of ?s sg] length_key_to_base64[of k] nth(4) key_chunks[OF assms(1)] by simp
qed

lemma key_from_base64_canonical:
  assumes "length k0 = WG_KEY_LEN" "key_from_base64 sg k0 s = (True, k)"
  shows "key_to_base64 k = s" "length k = WG_KEY_LEN"
proof -
  have ls: "length s = WG_KEY_LEN_BASE64 - 1" and eq: "s ! 43 = CHR ''=''"
    using assms(2) by (auto simp: key_from_base64_def split: if_splits)
  have Q: "\<forall>i<10. 0 \<le> quad sg s i" and L: "0 \<le> last_quad sg s" "last_quad sg s AND 255 = 0"
    and k: "k = concat (map (\<lambda>i. bytes3 (quad sg s i)) [0..<10]) @ take 2 (bytes3 (last_quad sg s))" (is "_ = ?c @ _")
    using key_from_base64_eq[OF assms(1) ls, of sg] assms(2) eq by auto
  have lc: "length ?c = 30" 
    by (subst length_concat_chunks[of _ _ 3]) (simp_all add: bytes3_def)
  show "length k = WG_KEY_LEN" unfolding k using lc by (simp add: bytes3_def)
  have chunk: "encode_base64 (k ! (i * 3)) (k ! (i * 3 + 1)) (k ! (i * 3 + 2)) = take 4 (drop (i * 4) s)" if "i < 10" for i
  proof -
    have "take 3 (drop (i * 3) k) = bytes3 (quad sg s i)"
      unfolding k by (rule take_drop_concat_chunks) (use that in \<open>simp_all add: bytes3_def\<close>)
    then have b3: "bytes3 (quad sg s i) = [k ! (i * 3), k ! (i * 3 + 1), k ! (i * 3 + 2)]"
      using take3[of "i * 3" k] \<open>length k = WG_KEY_LEN\<close> that by simp
    have t4: "take 4 (drop (i * 4) s) = [s ! (i * 4), s ! (i * 4 + 1), s ! (i * 4 + 2), s ! (i * 4 + 3)]"
      using take4[of "i * 4" s] ls that by simp
    have "0 \<le> quad sg s i" using Q that by blast
    then show ?thesis
      using b3 encode_decode_base64 unfolding quad_def t4 by blast
  qed
  have "bytes3 (last_quad sg s) = [k ! 30, k ! 31, 0]"
    using L(2) lc unfolding k by (simp add: bytes3_def nth_append)
  then have l: "encode_base64 (k ! 30) (k ! 31) 0 = [s ! 40, s ! 41, s ! 42, CHR ''A'']"
    using L(1) encode_decode_base64 unfolding last_quad_def by blast
  have "map (\<lambda>i. encode_base64 (k ! (i * 3)) (k ! (i * 3 + 1)) (k ! (i * 3 + 2))) [0..<10]
      = map (\<lambda>i. take 4 (drop (i * 4) s)) [0..<10]"
    using chunk by (intro map_cong) auto
  then have "key_to_base64 k = concat (map (\<lambda>i. take 4 (drop (i * 4) s)) [0..<10]) @ [s ! 40, s ! 41, s ! 42, s ! 43]"
    unfolding key_to_base64_eq l eq by (simp only: list_update.simps nat.case numeral_3_eq_3)
  also have "\<dots> = take 40 s @ take 4 (drop 40 s)"
    using concat_take_drop_chunks[of 10 4 s] take4[of 40 s] ls by simp
  also have "\<dots> = s" using ls by simp
  finally show "key_to_base64 k = s" .
qed
end
