(* ===== verification/Encoding_Hex.thy ===== *)
theory Encoding_Hex
  imports Encoding_Base64
begin

text \<open>
  Hexadecimal half of \<^verbatim>\<open>wireguard-tools/src/encoding.c\<close>. \<^verbatim>\<open>unsigned\<close> expressions are 32-bit
  words, \<^verbatim>\<open>uint8_t\<close> objects 8-bit words, with the truncation at each store written out. The
  specification is the value of a hexadecimal digit; the lemmas show which texts are accepted,
  what they decode to and that decoding inverts encoding.
\<close>

definition hex_char :: "u8 \<Rightarrow> char" where
  "hex_char n = char_of (uint (87 + (ucast n :: u32) + (drop_bit 8 ((ucast n :: u32) - 10) AND NOT 38)))"

definition key_to_hex :: "wgkey \<Rightarrow> string" where
  "key_to_hex key = concat (map (\<lambda>i. [hex_char (drop_bit 4 (key ! i)), hex_char (key ! i AND 15)]) [0..<WG_KEY_LEN])"

text \<open>The lines of \<^verbatim>\<open>key_from_hex\<close> that are repeated for each digit: the new \<open>ret\<close> and \<open>c_val\<close>.\<close>

definition hex_digit_step :: "char \<Rightarrow> u8 \<Rightarrow> u8 \<times> u8" where
  "hex_digit_step ch ret =
     (let c = (of_char ch :: u8);
          c_num = (ucast ((ucast c :: u32) XOR 48) :: u8);
          c_num0 = (ucast (drop_bit 8 ((ucast c_num :: u32) - 10)) :: u8);
          c_alpha = (ucast (((ucast c :: u32) AND NOT 32) - 55) :: u8);
          c_alpha0 = (ucast (drop_bit 8 (((ucast c_alpha :: u32) - 10) XOR ((ucast c_alpha :: u32) - 16))) :: u8);
          ret = ret OR word_of_int (drop_bit 8 (uint (c_num0 OR c_alpha0) - 1));
          c_val = (c_num0 AND c_num) OR (c_alpha0 AND c_alpha)
      in (ret, c_val))"

definition key_from_hex_step :: "string \<Rightarrow> nat \<Rightarrow> u8 \<times> wgkey \<Rightarrow> u8 \<times> wgkey" where
  "key_from_hex_step hex i st =
     (let (ret, c_val) = hex_digit_step (hex ! i) (fst st);
          c_acc = (ucast ((ucast c_val :: u32) * 16) :: u8);
          (ret, c_val) = hex_digit_step (hex ! (i + 1)) ret
      in (ret, (snd st)[i div 2 := c_acc OR c_val]))"

definition key_from_hex :: "wgkey \<Rightarrow> string \<Rightarrow> bool \<times> wgkey" where
  "key_from_hex key hex =
     (if length hex \<noteq> WG_KEY_LEN_HEX - 1 then (False, key)
      else (let (ret, key) = fold (key_from_hex_step hex) (map (\<lambda>j. 2 * j) [0..<WG_KEY_LEN]) (0, key)
            in (1 AND drop_bit 8 (uint ret - 1) \<noteq> 0, key)))"

fun hex_value :: "char \<Rightarrow> nat option" where
  "hex_value c = (if 48 \<le> code c \<and> code c \<le> 57 then Some (code c - 48)
     else if 97 \<le> code c \<and> code c \<le> 102 then Some (code c - 87)
     else if 65 \<le> code c \<and> code c \<le> 70 then Some (code c - 55) else None)"

lemma digit_table:
  "list_all (\<lambda>d::u8. 48 \<le> uint (d XOR 48) \<and> uint (d XOR 48) \<le> 57 \<and> uint d < 10 \<and> d + 48 = d XOR 48) [0,1,2,3,4,5,6,7,8,9]"
  by simp

lemma hex_num: "uint (c XOR 48 :: u8) < 10 \<longleftrightarrow> 48 \<le> uint c \<and> uint c \<le> 57"
  and hex_num_val: "48 \<le> uint (c::u8) \<and> uint c \<le> 57 \<Longrightarrow> c XOR 48 = c - 48"
proof -
  have c: "(c XOR 48) XOR 48 = c" by (simp add: xor.assoc)
  have 1: "48 \<le> uint c \<and> uint c \<le> 57" if "uint (c XOR 48) < 10"
    using digit_table u8_10[OF that] c unfolding list_all_iff by metis
  have 2: "c XOR 48 = c - 48 \<and> uint (c XOR 48) < 10" if h: "48 \<le> uint c \<and> uint c \<le> 57"
  proof -
    have u: "uint (c - 48) < 10" using h by (simp add: uint_sub_if')
    then have d: "c - 48 \<in> set [0,1,2,3,4,5,6,7,8,9]" by (rule u8_10)
    then have "c - 48 + 48 = (c - 48) XOR 48" using digit_table unfolding list_all_iff by blast
    then have "c XOR 48 = c - 48" by (metis diff_add_cancel xor.assoc xor.right_neutral xor_self_eq)
    then show ?thesis using u by simp
  qed
  show "uint (c XOR 48 :: u8) < 10 \<longleftrightarrow> 48 \<le> uint c \<and> uint c \<le> 57" using 1 2 by blast
  show "48 \<le> uint c \<and> uint c \<le> 57 \<Longrightarrow> c XOR 48 = c - 48" using 2 by blast
qed

lemma alpha_table:
  "list_all (\<lambda>d::u8. uint ((65 + d) OR 0) = uint d + 65 \<and> uint ((65 + d) OR 32) = uint d + 97 \<and>
     (65 + d) AND NOT 32 = 65 + d \<and> (97 + d) AND NOT 32 = 65 + d \<and> uint (10 + d) = 10 + uint d) [0,1,2,3,4,5]"
  by simp

lemma hex_alpha_fwd:
  assumes "10 \<le> uint ((c AND NOT 32) - 55 :: u8)" "uint ((c AND NOT 32) - 55 :: u8) < 16"
  shows "65 \<le> uint c \<and> uint c \<le> 70 \<or> 97 \<le> uint c \<and> uint c \<le> 102"
proof -
  define d where "d = (c AND NOT 32) - 55 - 10"
  have "uint (e - 10) < 6" if "10 \<le> uint e" "uint e < 16" for e :: u8
    using that by (simp add: uint_sub_if')
  then have d6: "uint d < 6" using assms unfolding d_def by blast
  then have d: "d \<in> set [0,1,2,3,4,5]" by (rule u8_6)
  have "c AND NOT 32 = 65 + d" by (simp add: d_def)
  then have "c = (65 + d) OR 0 \<or> c = (65 + d) OR 32"
    using and_32_or[of c] and_32[of c] by metis
  moreover have "uint ((65 + d) OR 0) = uint d + 65" "uint ((65 + d) OR 32) = uint d + 97"
    using d alpha_table unfolding list_all_iff by blast+
  ultimately show ?thesis using d6 uint_ge_0[of d] by (elim disjE) (simp_all only:, linarith+)
qed

lemma hex_alpha_bwd:
  assumes "65 \<le> uint c \<and> uint c \<le> 70 \<or> 97 \<le> uint (c::u8) \<and> uint c \<le> 102"
  shows "uint ((c AND NOT 32) - 55 :: u8) = (if uint c \<le> 70 then uint c - 55 else uint c - 87)"
proof (cases "uint c \<le> 70")
  case True
  with assms have h: "65 \<le> uint c" by linarith
  have "uint (c - 65) = uint c - 65" using h by (simp add: uint_sub_if')
  moreover from this have d: "c - 65 \<in> set [0,1,2,3,4,5]" using True by (intro u8_6) simp
  ultimately have "(65 + (c - 65)) AND NOT 32 = 65 + (c - 65)" "uint (10 + (c - 65)) = uint c - 55"
    using alpha_table unfolding list_all_iff by auto
  then show ?thesis using True by simp
next
  case False
  with assms have h: "97 \<le> uint c" "uint c \<le> 102" by linarith+
  have "uint (c - 97) = uint c - 97" using h by (simp add: uint_sub_if')
  moreover from this have d: "c - 97 \<in> set [0,1,2,3,4,5]" using h by (intro u8_6) simp
  ultimately have "(97 + (c - 97)) AND NOT 32 = 65 + (c - 97)" "uint (10 + (c - 97)) = uint c - 87"
    using alpha_table unfolding list_all_iff by auto
  then show ?thesis using False by simp
qed

lemma hex_alpha:
  "10 \<le> uint ((c AND NOT 32) - 55 :: u8) \<and> uint ((c AND NOT 32) - 55 :: u8) < 16 \<longleftrightarrow>
     65 \<le> uint c \<and> uint c \<le> 70 \<or> 97 \<le> uint c \<and> uint c \<le> 102" (is "?l \<longleftrightarrow> ?r")
proof
  show "?l \<Longrightarrow> ?r" using hex_alpha_fwd by blast
  assume r: ?r
  then show ?l unfolding hex_alpha_bwd[OF r] by (cases "uint c \<le> 70") auto
qed

lemma ucast_xor_48: "(ucast ((ucast (x::u8) :: u32) XOR 48) :: u8) = x XOR 48"
  by (rule bit_word_eqI) (auto simp: bit_simps)

lemma ucast_sub_55: "(ucast ((ucast (x::u8) :: u32) - 55) :: u8) = x - 55"
proof -
  have a: "uint (ucast x :: u32) = uint x" by (simp add: uint_up_ucast is_up)
  have "uint (ucast ((ucast x :: u32) - 55) :: u8) = (uint x - 55) mod 2^32 mod 2^8"
    unfolding unsigned_ucast_eq uint_word_ariths a by (simp add: take_bit_eq_mod mod_diff_left_eq)
  also have "\<dots> = uint (x - 55)"
    unfolding uint_word_ariths by (simp add: mod_mod_cancel)
  finally show ?thesis by (simp only: word_uint_eq_iff)
qed

lemma hex_digit_step_eq:
  "hex_digit_step ch ret =
     (case hex_value ch of Some v \<Rightarrow> (ret, of_nat v) | None \<Rightarrow> (255, 0))"
proof -
  define c where "c = (of_char ch :: u8)"
  have uc: "uint c = int (code ch)" by (simp only: c_def uint_of_char)
  let ?num = "c XOR 48" and ?alpha = "(c AND NOT 32) - 55"
  define num0 :: u8 where "num0 = (if 48 \<le> uint c \<and> uint c \<le> 57 then 255 else 0)"
  define alpha0 :: u8 where "alpha0 = (if 65 \<le> uint c \<and> uint c \<le> 70 \<or> 97 \<le> uint c \<and> uint c \<le> 102 then 255 else 0)"
  have num0: "(ucast (drop_bit 8 ((ucast ?num :: u32) - 10)) :: u8) = num0"
    unfolding num0_def borrow_10 hex_num ..
  have alpha0: "(ucast (drop_bit 8 (((ucast ?alpha :: u32) - 10) XOR ((ucast ?alpha :: u32) - 16))) :: u8) = alpha0"
  proof -
    have "(ucast (drop_bit 8 (((ucast ?alpha :: u32) - 10) XOR ((ucast ?alpha :: u32) - 16))) :: u8)
       = ucast (drop_bit 8 ((ucast ?alpha :: u32) - 10)) XOR ucast (drop_bit 8 ((ucast ?alpha :: u32) - 16))"
      by (rule bit_word_eqI) (simp add: bit_simps)
    also have "\<dots> = (if uint ?alpha < 10 then 255 else 0) XOR (if uint ?alpha < 16 then 255 else 0)"
      unfolding borrow_10 borrow_16 ..
    also have "\<dots> = (if 10 \<le> uint ?alpha \<and> uint ?alpha < 16 then 255 else 0)" by simp
    also have "\<dots> = alpha0" unfolding alpha0_def hex_alpha ..
    finally show ?thesis .
  qed
  have "hex_digit_step ch ret = (ret OR word_of_int (drop_bit 8 (uint (num0 OR alpha0) - 1)),
         (num0 AND ?num) OR (alpha0 AND ?alpha))"
    unfolding hex_digit_step_def Let_def c_def[symmetric] ucast_xor_48 num0 ucast_and_not_32 ucast_sub_55 alpha0 ..
  moreover consider (num) "48 \<le> uint c \<and> uint c \<le> 57"
    | (alpha) "65 \<le> uint c \<and> uint c \<le> 70 \<or> 97 \<le> uint c \<and> uint c \<le> 102"
    | (none) "\<not> (48 \<le> uint c \<and> uint c \<le> 57)" "\<not> (65 \<le> uint c \<and> uint c \<le> 70 \<or> 97 \<le> uint c \<and> uint c \<le> 102)"
    by blast
  then have "(ret OR word_of_int (drop_bit 8 (uint (num0 OR alpha0) - 1)), (num0 AND ?num) OR (alpha0 AND ?alpha))
      = (case hex_value ch of Some v \<Rightarrow> (ret, of_nat v) | None \<Rightarrow> (255, 0))"
  proof cases
    case num
    then have "num0 = 255" "alpha0 = 0" by (auto simp: num0_def alpha0_def)
    moreover have "hex_value ch = Some (code ch - 48)" using num uc by simp
    moreover have "?num = of_nat (code ch - 48)"
    proof -
      have "uint (c - 48) = int (code ch - 48)" using num uc by (simp add: uint_sub_if')
      then show ?thesis unfolding hex_num_val[OF num] word_uint_eq_iff
        using num uc by (subst uint_u8_of_nat) auto
    qed
    ultimately show ?thesis by (simp add: all_ones)
  next
    case alpha
    then have "num0 = 0" "alpha0 = 255" by (auto simp: num0_def alpha0_def)
    moreover have "hex_value ch = Some (if code ch \<le> 70 then code ch - 55 else code ch - 87)" using alpha uc by auto
    moreover have "?alpha = of_nat (if code ch \<le> 70 then code ch - 55 else code ch - 87)"
      unfolding word_uint_eq_iff hex_alpha_bwd[OF alpha] using alpha uc by (subst uint_u8_of_nat) auto
    ultimately show ?thesis by (simp add: all_ones)
  next
    case none
    then have "num0 = 0" "alpha0 = 0" by (auto simp: num0_def alpha0_def)
    moreover have "hex_value ch = None" using none uc by auto
    ultimately show ?thesis by (simp add: all_ones)
  qed
  ultimately show ?thesis by simp
qed

definition hexv :: "char \<Rightarrow> nat" where
  "hexv c = (case hex_value c of Some v \<Rightarrow> v | None \<Rightarrow> 0)"

lemma hex_value_less: "hex_value c = Some v \<Longrightarrow> v < 16"
  by (auto split: if_splits)

lemma hexv_less: "hexv c < 16"
  using hex_value_less[of c] unfolding hexv_def by (cases "hex_value c") auto

definition hex_byte :: "string \<Rightarrow> nat \<Rightarrow> u8" where
  "hex_byte s j = of_nat (16 * hexv (s ! (2 * j)) + hexv (s ! (2 * j + 1)))"

lemma nibbles_or:
  assumes "v < 16" "w < 16"
  shows "(ucast ((ucast (of_nat v :: u8) :: u32) * 16) :: u8) OR of_nat w = of_nat (16 * v + w)"
proof -
  have t16: "n < 16 \<Longrightarrow> n \<in> set [0,1,2,3,4,5,6,7,8,9,10,11,12,13,14,15]" for n :: nat by (simp; arith)
  have "list_all (\<lambda>v. list_all (\<lambda>w. (ucast ((ucast (of_nat v :: u8) :: u32) * 16) :: u8) OR of_nat w = of_nat (16 * v + w))
      [0,1,2,3,4,5,6,7,8,9,10,11,12,13,14,15]) [0,1,2,3,4,5,6,7,8,9,10,11,12,13,14,15]" by simp
  then show ?thesis using t16[OF assms(1)] t16[OF assms(2)] unfolding list_all_iff by blast
qed

lemma key_from_hex_step_eq:
  "key_from_hex_step s (2 * j) (ret, key) =
     (if hex_value (s ! (2 * j)) = None \<or> hex_value (s ! (2 * j + 1)) = None then 255 else ret,
      key[j := hex_byte s j])"
  using nibbles_or[OF hexv_less hexv_less, of "s ! (2 * j)" "s ! (2 * j + 1)"]
  by (auto simp: key_from_hex_step_def hex_digit_step_eq hexv_def hex_byte_def simp del: hex_value.simps split: option.splits)

lemma key_from_hex_loop:
  assumes "n \<le> length key"
  shows "fold (key_from_hex_step s) (map (\<lambda>j. 2 * j) [0..<n]) (0, key) =
     (if \<forall>j<n. hex_value (s ! (2 * j)) \<noteq> None \<and> hex_value (s ! (2 * j + 1)) \<noteq> None then 0 else 255,
      map (hex_byte s) [0..<n] @ drop n key)"
  using assms
proof (induction n)
  case (Suc n)
  have "(map (hex_byte s) [0..<n] @ drop n key)[n := hex_byte s n] = map (hex_byte s) [0..<Suc n] @ drop (Suc n) key"
    using Suc.prems by (simp add: list_update_append Cons_nth_drop_Suc[symmetric])
  then show ?case using Suc by (auto simp: key_from_hex_step_eq less_Suc_eq simp del: hex_value.simps)
qed simp

lemma hex_all_pairs:
  "length s = 2 * n \<Longrightarrow> (\<forall>j<n. P (s ! (2 * j)) \<and> P (s ! (2 * j + 1))) \<longleftrightarrow> (\<forall>c \<in> set s. P c)"
proof
  assume l: "length s = 2 * n" and p: "\<forall>j<n. P (s ! (2 * j)) \<and> P (s ! (2 * j + 1))"
  show "\<forall>c \<in> set s. P c"
  proof
    fix c assume "c \<in> set s"
    then obtain i where i: "i < length s" "c = s ! i" by (auto simp: in_set_conv_nth)
    then have "i div 2 < n" "i = 2 * (i div 2) \<or> i = 2 * (i div 2) + 1" using l by auto
    then show "P c" using p i by metis
  qed
qed auto

lemma key_from_hex_True:
  assumes "length k0 = WG_KEY_LEN"
  shows "key_from_hex k0 s = (True, k) \<longleftrightarrow>
     length s = 64 \<and> (\<forall>c \<in> set s. hex_value c \<noteq> None) \<and> k = map (hex_byte s) [0..<32]"
proof (cases "length s = 64")
  case True
  have "fold (key_from_hex_step s) (map (\<lambda>j. 2 * j) [0..<32]) (0, k0) =
     (if \<forall>c \<in> set s. hex_value c \<noteq> None then 0 else 255, map (hex_byte s) [0..<32])"
    using key_from_hex_loop[of 32 k0 s] assms hex_all_pairs[of s 32 "\<lambda>c. hex_value c \<noteq> None"] True
    by (simp del: hex_value.simps)
  then show ?thesis using True by (auto simp: key_from_hex_def simp del: hex_value.simps)
qed (simp add: key_from_hex_def del: hex_value.simps)

lemma hex_char_eq:
  assumes "uint (n::u8) < 16"
  shows "hex_char n = char_of (if uint n < 10 then uint n + 48 else uint n + 87)"
proof -
  let ?x = "if uint n < 10 then 0xFFFFD9 else 0 :: u32"
  have "uint (87 + (ucast n :: u32)) = 87 + uint n"
    using assms uint_ge_0[of n] by (simp add: uint_plus_if' uint_up_ucast is_up)
  then have "uint (87 + (ucast n :: u32) + ?x) = 87 + uint n + uint ?x"
    using assms uint_ge_0[of n] uint_plus_if'[of "87 + (ucast n :: u32)" ?x] by (cases "uint n < 10") simp_all
  moreover have "(if uint n < 10 then 0xFFFFFF else 0 :: u32) AND NOT 38 = ?x" by simp
  ultimately have u: "uint (87 + (ucast n :: u32) + ((if uint n < 10 then 0xFFFFFF else 0 :: u32) AND NOT 38))
      = 87 + uint n + uint ?x" by argo
  have "hex_char n = char_of (87 + uint n + uint ?x)"
    unfolding hex_char_def borrow32_10 u ..
  also have "\<dots> = char_of (if uint n < 10 then uint n + 48 else uint n + 87)"
  proof (cases "uint n < 10")
    case True
    have "87 + uint n + 0xFFFFD9 = uint n + 48 + 256 * 0x10000" by simp
    then have "(87 + uint n + 0xFFFFD9) mod 256 = (uint n + 48) mod 256"
      by (simp only: mod_mult_self2)
    then have "char_of (87 + uint n + 0xFFFFD9) = char_of (uint n + 48)"
      by (metis char_of_mod_256)
    moreover have "uint ?x = 0xFFFFD9" using True by simp
    ultimately show ?thesis using True by (simp only: if_True)
  next
    case False
    then have "uint ?x = 0" by simp
    then show ?thesis using False by (simp only: if_False add_0_right add_0_left add.commute)
  qed
  finally show ?thesis .
qed

lemma char_of_nat_int_eq:
  "char_of (if int m < 10 then int m + 48 else int m + 87) = char_of (if m < 10 then m + 48 else m + 87)"
proof -
  have i: "char_of (int k) = char_of k" for k by (simp add: char_of_def bit_of_nat_iff_bit)
  have m: "(if int m < 10 then int m + 48 else int m + 87) = int (if m < 10 then m + 48 else m + 87)" by simp
  show ?thesis unfolding m i ..
qed

lemma hex_char_value:
  assumes "uint (n::u8) < 16"
  shows "hex_value (hex_char n) = Some (unat n)"
proof -
  have n2: "uint n = int (unat n)" by (rule uint_nat)
  have n: "unat n < 16" using assms unfolding n2 by linarith
  have "code (hex_char n) = (if unat n < 10 then unat n + 48 else unat n + 87)"
  proof -
    have "hex_char n = char_of (if unat n < 10 then unat n + 48 else unat n + 87)"
      unfolding hex_char_eq[OF assms] n2 by (rule char_of_nat_int_eq)
    then show ?thesis using n by (simp only: of_char_of) simp
  qed
  then show ?thesis using n by simp
qed

lemma nibbles:
  "uint (drop_bit 4 (b::u8)) < 16" "uint (b AND 15) < 16" "16 * unat (drop_bit 4 b) + unat (b AND 15) = unat b"
proof -
  have a: "unat (drop_bit 4 b) = unat b div 16" unfolding unat_drop_bit_eq by (simp add: drop_bit_eq_div)
  have m: "b AND 15 = take_bit 4 b" by (simp add: take_bit_eq_mask mask_eq_exp_minus_1)
  have c: "unat (b AND 15) = unat b mod 16" unfolding m unsigned_take_bit_eq by (simp add: take_bit_eq_mod)
  have "unat b < 256" using uint_u8_bounds[of b] unfolding uint_nat by linarith
  then have "unat (drop_bit 4 b) < 16" "unat (b AND 15) < 16" unfolding a c by auto
  then show "uint (drop_bit 4 (b::u8)) < 16" "uint (b AND 15) < 16" unfolding uint_nat by linarith+
  show "16 * unat (drop_bit 4 b) + unat (b AND 15) = unat b" unfolding a c by simp
qed

lemma length_key_to_hex: "length (key_to_hex k) = 64"
  unfolding key_to_hex_def by (subst length_concat_chunks[of _ _ 2]) simp_all

lemma key_to_hex_nth:
  assumes "j < 32"
  shows "key_to_hex k ! (2 * j) = hex_char (drop_bit 4 (k ! j))" "key_to_hex k ! (2 * j + 1) = hex_char (k ! j AND 15)"
  using nth_concat_chunks[of 32 "\<lambda>i. [hex_char (drop_bit 4 (k ! i)), hex_char (k ! i AND 15)]" 2 0 j]
    nth_concat_chunks[of 32 "\<lambda>i. [hex_char (drop_bit 4 (k ! i)), hex_char (k ! i AND 15)]" 2 1 j] assms
  by (simp_all add: key_to_hex_def mult.commute)

lemma hex_byte_key_to_hex: "j < 32 \<Longrightarrow> hex_byte (key_to_hex k) j = k ! j"
  unfolding hex_byte_def key_to_hex_nth hexv_def hex_char_value[OF nibbles(1)] hex_char_value[OF nibbles(2)]
  by (simp add: nibbles(3) del: of_nat_add of_nat_mult)

lemma key_to_hex_digits: "c \<in> set (key_to_hex k) \<Longrightarrow> hex_value c \<noteq> None"
proof -
  have "\<forall>j<32. hex_value (key_to_hex k ! (2 * j)) \<noteq> None \<and> hex_value (key_to_hex k ! (2 * j + 1)) \<noteq> None"
    by (simp add: key_to_hex_nth[simplified] hex_char_value nibbles(1,2) del: hex_value.simps)
  then show "c \<in> set (key_to_hex k) \<Longrightarrow> hex_value c \<noteq> None"
    using hex_all_pairs[of "key_to_hex k" 32 "\<lambda>c. hex_value c \<noteq> None"] length_key_to_hex[of k] by (auto simp del: hex_value.simps)
qed

lemma key_from_to_hex:
  assumes "length k = WG_KEY_LEN" "length k0 = WG_KEY_LEN"
  shows "key_from_hex k0 (key_to_hex k) = (True, k)"
proof -
  have "map (hex_byte (key_to_hex k)) [0..<32] = k"
    by (rule nth_equalityI) (use assms in \<open>auto simp: hex_byte_key_to_hex\<close>)
  then show ?thesis
    using key_from_hex_True[OF assms(2)] length_key_to_hex[of k] key_to_hex_digits[of _ k] by auto
qed

end
