(* ===== verification/Encoding.thy ===== *)
theory Encoding
  imports Encoding_Base64 Encoding_Hex
begin

text \<open>
  The contract of a key codec, as the users of \<^verbatim>\<open>encoding.h\<close> rely on it, and the proof that the
  base64 and the hexadecimal functions of \<^verbatim>\<open>encoding.c\<close> keep it. A decoder is handed the buffer it
  overwrites and returns its verdict with the contents of the buffer.
\<close>

definition key_is_zero :: "wgkey \<Rightarrow> bool" where
  "key_is_zero key =
     (let acc = fold (\<lambda>i acc. acc OR key ! i) [0..<WG_KEY_LEN] (0::u8)
      in 1 AND drop_bit 8 (uint acc - 1) \<noteq> 0)"

lemma fold_or_zero: "fold (\<lambda>i acc. acc OR key ! i) xs a = (0::u8) \<longleftrightarrow> a = 0 \<and> (\<forall>i \<in> set xs. key ! i = 0)"
  by (induction xs arbitrary: a) (auto simp: or_eq_0_u8)

lemma acc_zero: "1 AND drop_bit 8 (uint (a::u8) - 1) \<noteq> 0 \<longleftrightarrow> a = 0"
proof -
  have "0 \<le> uint a" "uint a < 256" using uint_u8_bounds[of a] by auto
  then have "drop_bit 8 (uint a - 1) = (if uint a = 0 then - 1 else 0)"
    by (subst shr8_sign) presburger+
  then show ?thesis by (simp add: word_uint_eq_iff)
qed

lemma key_is_zero_eq: "length k = WG_KEY_LEN \<Longrightarrow> key_is_zero k \<longleftrightarrow> k = zero_key"
  unfolding key_is_zero_def Let_def acc_zero by (auto simp: fold_or_zero zero_key_def list_eq_iff_nth_eq)

lemma length_zero_key [simp]: "length zero_key = WG_KEY_LEN"
  by (simp add: zero_key_def)

locale key_codec =
  fixes to_text :: "wgkey \<Rightarrow> string"
    and from_text :: "wgkey \<Rightarrow> string \<Rightarrow> bool \<times> wgkey"
  assumes roundtrip: "length k = WG_KEY_LEN \<Longrightarrow> length k0 = WG_KEY_LEN \<Longrightarrow> from_text k0 (to_text k) = (True, k)"
    and accepted_length: "length k0 = WG_KEY_LEN \<Longrightarrow> from_text k0 s = (True, k) \<Longrightarrow> length k = WG_KEY_LEN"
begin

lemma to_text_inj: "length k = WG_KEY_LEN \<Longrightarrow> length k' = WG_KEY_LEN \<Longrightarrow> to_text k = to_text k' \<Longrightarrow> k = k'"
  by (metis roundtrip prod.inject)

lemma buffer_irrelevant:
  assumes "length k = WG_KEY_LEN" "length k0 = WG_KEY_LEN" "length k1 = WG_KEY_LEN"
  shows "from_text k0 (to_text k) = from_text k1 (to_text k)"
  using roundtrip assms by simp

end

locale canonical_key_codec = key_codec +
  assumes canonical: "length k0 = WG_KEY_LEN \<Longrightarrow> from_text k0 s = (True, k) \<Longrightarrow> to_text k = s"
begin

lemma accepts_iff:
  assumes "length k0 = WG_KEY_LEN"
  shows "from_text k0 s = (True, k) \<longleftrightarrow> length k = WG_KEY_LEN \<and> s = to_text k"
  using roundtrip[OF _ assms] accepted_length[OF assms] canonical[OF assms] by blast

end

interpretation b64: canonical_key_codec key_to_base64 "key_from_base64 sg" for sg
  by unfold_locales (auto intro: key_from_to_base64 dest: key_from_base64_canonical)

interpretation hex: key_codec key_to_hex key_from_hex
  by unfold_locales (auto simp: key_from_to_hex key_from_hex_True)

text \<open>C9. The base64 decoder accepts a text exactly when it is the encoding of a 32-byte key, and then
  it returns that key: decoding inverts encoding, and of the several texts that denote a key in
  base64 only the canonical one is taken, whether \<^verbatim>\<open>char\<close> is signed or not.\<close>

theorem base64_accepts_iff:
  assumes "length k0 = WG_KEY_LEN"
  shows "key_from_base64 sg k0 s = (True, k) \<longleftrightarrow> length k = WG_KEY_LEN \<and> s = key_to_base64 k"
  by (rule b64.accepts_iff[OF assms])

theorem base64_accepts_iff_witness:
  "key_from_base64 True zero_key (key_to_base64 (replicate 32 7)) = (True, replicate 32 7)"
  using base64_accepts_iff[of zero_key True "key_to_base64 (replicate 32 7)" "replicate 32 7"] by simp

text \<open>C18. The hexadecimal decoder accepts exactly the texts of 64 hexadecimal digits of either case and
  returns the bytes they denote.\<close>

theorem hex_accepts_iff:
  assumes "length k0 = WG_KEY_LEN"
  shows "key_from_hex k0 s = (True, k) \<longleftrightarrow>
     length s = 2 * WG_KEY_LEN \<and> (\<forall>c \<in> set s. hex_value c \<noteq> None) \<and>
     k = map (\<lambda>j. of_nat (16 * the (hex_value (s ! (2 * j))) + the (hex_value (s ! (2 * j + 1))))) [0..<WG_KEY_LEN]"
proof -
  have v: "hexv c = the (hex_value c)" if "hex_value c \<noteq> None" for c
    using that by (auto simp: hexv_def simp del: hex_value.simps)
  have "map (hex_byte s) [0..<WG_KEY_LEN] =
      map (\<lambda>j. of_nat (16 * the (hex_value (s ! (2 * j))) + the (hex_value (s ! (2 * j + 1))))) [0..<WG_KEY_LEN]"
    if "length s = 64" "\<forall>c \<in> set s. hex_value c \<noteq> None"
    using that hex_all_pairs[of s 32 "\<lambda>c. hex_value c \<noteq> None"]
    by (intro map_cong refl) (simp add: hex_byte_def v del: hex_value.simps)
  then show ?thesis unfolding key_from_hex_True[OF assms] by auto
qed

theorem hex_accepts_iff_witness:
  "key_from_hex zero_key (replicate 64 (CHR ''f'')) = (True, replicate 32 255)"
proof -
  have "map (\<lambda>j. of_nat (16 * the (hex_value (replicate 64 (CHR ''f'') ! (2 * j)))
      + the (hex_value (replicate 64 (CHR ''f'') ! (2 * j + 1))))) [0..<32] = (replicate 32 255 :: wgkey)"
    by (rule nth_equalityI) simp_all
  then show ?thesis
    using hex_accepts_iff[of zero_key "replicate 64 (CHR ''f'')" "replicate 32 255"] by simp
qed

text \<open>A key written in hexadecimal is read back unchanged, whatever the buffer held before.\<close>

theorem hex_roundtrip:
  assumes "length k = WG_KEY_LEN" "length k0 = WG_KEY_LEN"
  shows "key_from_hex k0 (key_to_hex k) = (True, k)"
  by (rule hex.roundtrip[OF assms])

theorem hex_roundtrip_witness:
  "key_from_hex zero_key (key_to_hex (replicate 32 171)) = (True, replicate 32 171)"
  by (rule hex_roundtrip) simp_all

text \<open>The branch-free zero test says true exactly of the all-zero key.\<close>

theorem key_is_zero_iff: "length k = WG_KEY_LEN \<Longrightarrow> key_is_zero k \<longleftrightarrow> k = zero_key"
  by (rule key_is_zero_eq)

theorem key_is_zero_iff_witness: "key_is_zero (replicate 32 0) \<and> \<not> key_is_zero (replicate 32 1)"
  using key_is_zero_iff[of "replicate 32 0"] key_is_zero_iff[of "replicate 32 1"]
  by (simp add: zero_key_def numeral_eq_Suc)

end
