(* ===== verification/Ctype.thy ===== *)
theory Ctype
  imports Prelude
begin

text \<open>
  Model of \<^verbatim>\<open>wireguard-tools/src/ctype.h\<close>: the branch-free character classes. Their argument is the
  character after promotion to \<^verbatim>\<open>int\<close>, so it depends on the signedness of \<^verbatim>\<open>char\<close>; the lemmas give
  each class as a set of character codes and show that the signedness makes no difference.
\<close>

definition char_is_space :: "int \<Rightarrow> bool" where
  "char_is_space c =
     (let d = take_bit 8 (c - 9)
      in drop_bit (nat (d AND 31)) 0x80001F AND drop_bit (nat (drop_bit 5 d)) 1 \<noteq> (0::int))"

definition char_is_digit :: "int \<Rightarrow> bool" where
  "char_is_digit c = (drop_bit 31 (take_bit 32 ((48 - 1 - c) AND (c - (57 + 1)))) \<noteq> 0)"

definition char_is_alpha :: "int \<Rightarrow> bool" where
  "char_is_alpha c =
     (drop_bit 31 (take_bit 32 ((97 - 1 - (c OR 32)) AND ((c OR 32) - (122 + 1)))) \<noteq> 0)"

abbreviation is_space :: "char \<Rightarrow> bool" where
  "is_space c \<equiv> code c \<in> {9, 10, 11, 12, 13, 32}"

abbreviation is_digit :: "char \<Rightarrow> bool" where
  "is_digit c \<equiv> 48 \<le> code c \<and> code c \<le> 57"

abbreviation is_alpha :: "char \<Rightarrow> bool" where
  "is_alpha c \<equiv> 65 \<le> code c \<and> code c \<le> 90 \<or> 97 \<le> code c \<and> code c \<le> 122"

lemma char_int_code:
  "(0 \<le> char_int sg c \<and> char_int sg c < 128 \<and> char_int sg c = int (code c)) \<or>
   (128 \<le> code c \<and> (char_int sg c < 0 \<or> 128 \<le> char_int sg c) \<and> (char_int sg c - int (code c)) mod 256 = 0)"
proof -
  have "(of_char c :: int) = int (code c)" by (simp add: of_nat_of_char)
  moreover have "code c < 256" by simp
  ultimately show ?thesis unfolding char_int_def by (cases sg) auto
qed

lemma space_table:
  "list_all (\<lambda>d::int. drop_bit (nat (d AND 31)) 0x80001F AND drop_bit (nat (drop_bit 5 d)) 1 \<noteq> (0::int) \<longleftrightarrow>
     d \<in> {0, 1, 2, 3, 4, 23})
   [0,1,2,3,4,5,6,7,8,9,10,11,12,13,14,15,16,17,18,19,20,21,22,23,24,25,26,27,28,29,30,31]"
  by simp

lemma space_bits:
  assumes "0 \<le> d"
  shows "drop_bit (nat (d AND 31)) 0x80001F AND drop_bit (nat (drop_bit 5 d)) 1 \<noteq> (0::int) \<longleftrightarrow>
    d \<in> {0, 1, 2, 3, 4, 23}"
proof (cases "d < 32")
  case True
  then have "d \<in> set [0,1,2,3,4,5,6,7,8,9,10,11,12,13,14,15,16,17,18,19,20,21,22,23,24,25,26,27,28,29,30,31]"
    using assms by (simp; presburger)
  then show ?thesis using space_table unfolding list_all_iff by blast
next
  case False
  then have "nat (drop_bit 5 d) > 0" by (simp add: drop_bit_eq_div)
  then have "drop_bit (nat (drop_bit 5 d)) (1::int) = 0" by (simp add: drop_bit_eq_div)
  then show ?thesis using False by simp
qed

lemma char_is_space_iff [simp]: "char_is_space (char_int sg c) \<longleftrightarrow> is_space c"
proof -
  have m: "(char_int sg c - 9) mod 256 = (int (code c) - 9) mod 256"
  proof -
    have "(char_int sg c - int (code c)) mod 256 = 0" using char_int_code[of sg c] by auto
    then have "(char_int sg c) mod 256 = int (code c) mod 256" unfolding mod_eq_dvd_iff dvd_eq_mod_eq_0 .
    then show ?thesis by (rule mod_diff_cong) simp
  qed
  have "char_is_space (char_int sg c) \<longleftrightarrow> (int (code c) - 9) mod 256 \<in> {0, 1, 2, 3, 4, 23}"
    unfolding char_is_space_def Let_def take_bit_eq_mod using space_bits m by simp
  moreover have "(int n - 9) mod 256 = (if 9 \<le> n then int n - 9 else int n + 247)" if "n < 256" for n
    using that by (cases "9 \<le> n") (auto intro: int_mod_pos_eq[where q = "-1"])
  ultimately show ?thesis by auto
qed

lemma both_negative:
  assumes "-(2^30) \<le> c" "c < 2^30" "0 \<le> lo" "lo \<le> 2^20" "0 \<le> hi" "hi \<le> 2^20"
  shows "drop_bit 31 (take_bit 32 ((lo - 1 - c) AND (c - (hi + 1)))) \<noteq> 0 \<longleftrightarrow> lo \<le> c \<and> c \<le> (hi::int)"
proof -
  let ?a = "lo - 1 - c" and ?b = "c - (hi + 1)"
  have "-(2^31) \<le> ?a AND ?b \<and> ?a AND ?b < 2^31" using assms by (intro and_range) auto
  then show ?thesis using sign_bit[of "?a AND ?b"] by auto
qed

lemma char_is_digit_iff [simp]: "char_is_digit (char_int sg c) \<longleftrightarrow> is_digit c"
proof -
  have "char_is_digit (char_int sg c) \<longleftrightarrow> 48 \<le> char_int sg c \<and> char_int sg c \<le> 57"
    unfolding char_is_digit_def using char_int_bounds[of sg c] by (subst both_negative) auto
  then show ?thesis using char_int_code[of sg c] by linarith
qed

lemma or_32: "(c::int) OR 32 = (if bit c 5 then c else c + 32)"
proof (cases "bit c 5")
  case True
  have "c OR 32 = c" by (rule bit_eqI) (use True in \<open>auto simp: bit_or_iff bit_32\<close>)
  then show ?thesis using True by simp
next
  case False
  have "c OR 32 = c + 32"
    by (rule disjunctive_add[symmetric]) (use False in \<open>auto simp: bit_32\<close>)
  then show ?thesis using False by simp
qed

lemma char_is_alpha_iff [simp]: "char_is_alpha (char_int sg c) \<longleftrightarrow> is_alpha c"
proof -
  let ?v = "char_int sg c"
  have b: "bit ?v 5 \<longleftrightarrow> ?v div 32 mod 2 = 1" by (simp add: bit_iff_odd odd_iff_mod_2_eq_one)
  have r: "-128 \<le> ?v OR 32 \<and> ?v OR 32 < 512" unfolding or_32 using char_int_bounds[of sg c] by auto
  have "char_is_alpha ?v \<longleftrightarrow> 97 \<le> ?v OR 32 \<and> ?v OR 32 \<le> 122"
    unfolding char_is_alpha_def using r by (subst both_negative) auto
  also have "\<dots> \<longleftrightarrow> 65 \<le> ?v \<and> ?v \<le> 90 \<or> 97 \<le> ?v \<and> ?v \<le> 122"
    unfolding or_32 b by presburger
  finally show ?thesis using char_int_code[of sg c] by linarith
qed

end
