(* ===== verification/CLib.thy ===== *)
theory CLib
  imports Ctype
begin

text \<open>
  The functions of the C string library the sources call, on C strings as HOL strings (the
  characters before the terminating NUL). A pointer into a string is an index or the remaining
  suffix. \<open>strtoul\<close> takes the width of \<^verbatim>\<open>long\<close> as a parameter: it is 32 on the ILP32 and 64 on
  the LP64 ABIs of Android. The lemmas show that what \<^verbatim>\<open>%u\<close> and \<^verbatim>\<open>%x\<close> print is read back.
\<close>

section \<open>Searching and splitting\<close>

fun strchr :: "string \<Rightarrow> char \<Rightarrow> nat option" where
  "strchr [] c = None"
| "strchr (x # xs) c = (if x = c then Some 0 else map_option Suc (strchr xs c))"

definition strrchr :: "string \<Rightarrow> char \<Rightarrow> nat option" where
  "strrchr s c = map_option (\<lambda>i. length s - 1 - i) (strchr (rev s) c)"

text \<open>\<^verbatim>\<open>strsep(&s, "d")\<close> with a single delimiter: the token and the new value of \<^verbatim>\<open>s\<close>.\<close>

definition strsep :: "char \<Rightarrow> string \<Rightarrow> string \<times> string option" where
  "strsep d s = (case strchr s d of None \<Rightarrow> (s, None) | Some i \<Rightarrow> (take i s, Some (drop (i + 1) s)))"

text \<open>The tokens a loop \<^verbatim>\<open>while ((tok = strsep(&s, "d")))\<close> sees.\<close>

lemma strchr_Some:
  "strchr s c = Some i \<longleftrightarrow> i < length s \<and> s ! i = c \<and> c \<notin> set (take i s)"
proof (induction s arbitrary: i)
  case (Cons x xs)
  then show ?case by (cases i) auto
qed simp

lemma strchr_None: "strchr s c = None \<longleftrightarrow> c \<notin> set s"
  by (induction s) auto

lemma strsep_shorter: "strsep d s = (t, Some r) \<Longrightarrow> length r < length s"
  by (auto simp: strsep_def strchr_Some split: option.splits)

function strsep_tokens :: "char \<Rightarrow> string \<Rightarrow> string list" where
  "strsep_tokens d s =
     (case strsep d s of (t, None) \<Rightarrow> [t] | (t, Some r) \<Rightarrow> t # strsep_tokens d r)"
  by pat_completeness auto
termination
  by (relation "measure (length \<circ> snd)") (auto dest: strsep_shorter[OF sym])

declare strsep_tokens.simps [simp del]

lemma strchr_append: "c \<notin> set a \<Longrightarrow> strchr (a @ c # b) c = Some (length a)"
  by (induction a) auto

lemma strsep_append [cstr_simps]: "c \<notin> set a \<Longrightarrow> strsep c (a @ c # b) = (a, Some b)"
  by (simp add: strsep_def strchr_append)

lemma strsep_none [cstr_simps]: "c \<notin> set a \<Longrightarrow> strsep c a = (a, None)"
  using strchr_None[of a c] by (simp add: strsep_def)

lemma strsep_tokens_none: "c \<notin> set a \<Longrightarrow> strsep_tokens c a = [a]"
  by (subst strsep_tokens.simps) (simp add: strsep_none)

lemma strsep_tokens_append: "c \<notin> set a \<Longrightarrow> strsep_tokens c (a @ c # b) = a # strsep_tokens c b"
  by (subst strsep_tokens.simps) (simp add: strsep_append)

text \<open>Joining with a delimiter inverts splitting, in both directions.\<close>

fun join_with :: "char \<Rightarrow> string list \<Rightarrow> string" where
  "join_with d [] = []"
| "join_with d [t] = t"
| "join_with d (t # ts) = t @ d # join_with d ts"

lemma strsep_tokens_join:
  "ts \<noteq> [] \<Longrightarrow> \<forall>t \<in> set ts. d \<notin> set t \<Longrightarrow> strsep_tokens d (join_with d ts) = ts"
  by (induction d ts rule: join_with.induct) (auto simp: strsep_tokens_none strsep_tokens_append)

lemma strsep_tokens_not_Nil [simp]: "strsep_tokens d s \<noteq> []"
  by (subst strsep_tokens.simps) (auto split: prod.splits option.splits)

lemma strsep_tokens_free: "t \<in> set (strsep_tokens d s) \<Longrightarrow> d \<notin> set t"
proof (induction d s rule: strsep_tokens.induct)
  case (1 d s)
  then show ?case
    by (subst (asm) strsep_tokens.simps) (auto simp: strsep_def strchr_Some strchr_None split: option.splits)
qed

lemma join_strsep_tokens: "join_with d (strsep_tokens d s) = s"
proof (induction d s rule: strsep_tokens.induct)
  case (1 d s)
  show ?case
  proof (cases "strchr s d")
    case None
    then show ?thesis by (simp add: strsep_tokens_none strchr_None)
  next
    case (Some i)
    then have s: "s = take i s @ d # drop (i + 1) s" by (auto simp: strchr_Some id_take_nth_drop)
    have "strsep d s = (take i s, Some (drop (i + 1) s))" using Some by (simp add: strsep_def)
    then have "strsep_tokens d s = take i s # strsep_tokens d (drop (i + 1) s)"
      "join_with d (strsep_tokens d (drop (i + 1) s)) = drop (i + 1) s"
      using 1 by (subst strsep_tokens.simps, simp, auto)
    moreover obtain u us where "strsep_tokens d (drop (i + 1) s) = u # us"
      using strsep_tokens_not_Nil by (metis neq_Nil_conv)
    ultimately show ?thesis using s by simp
  qed
qed


section \<open>Comparison without case\<close>

definition tolower :: "char \<Rightarrow> char" where
  "tolower c = (if 65 \<le> code c \<and> code c \<le> 90 then char_of (code c + 32) else c)"

text \<open>\<^verbatim>\<open>!strcasecmp(a, b)\<close> and \<^verbatim>\<open>!strncasecmp(a, b, n)\<close>.\<close>

definition strcaseeq :: "string \<Rightarrow> string \<Rightarrow> bool" where
  "strcaseeq a b \<longleftrightarrow> map tolower a = map tolower b"

definition strncaseeq :: "string \<Rightarrow> string \<Rightarrow> nat \<Rightarrow> bool" where
  "strncaseeq a b n \<longleftrightarrow> map tolower (take n a) = map tolower (take n b)"


section \<open>Numbers\<close>

definition digit_val :: "char \<Rightarrow> nat" where
  "digit_val c = (if 48 \<le> code c \<and> code c \<le> 57 then code c - 48
     else if 97 \<le> code c \<and> code c \<le> 122 then code c - 87
     else if 65 \<le> code c \<and> code c \<le> 90 then code c - 55 else 36)"

definition numval :: "nat \<Rightarrow> string \<Rightarrow> nat" where
  "numval b s = foldl (\<lambda>a c. a * b + digit_val c) 0 s"

text \<open>\<^verbatim>\<open>strtoul(s, &end, b)\<close> for \<^verbatim>\<open>b\<close> 10 or 16: the value and the suffix \<^verbatim>\<open>end\<close> points to. White space
  and a sign are skipped, a number that does not fit saturates, a minus sign negates modulo
  \<open>2 ^ w\<close>, and without digits the value is 0 and \<^verbatim>\<open>end\<close> is the start.\<close>

definition strtoul :: "nat \<Rightarrow> nat \<Rightarrow> string \<Rightarrow> nat \<times> string" where
  "strtoul w b s =
     (let s1 = dropWhile (\<lambda>c. is_space c) s;
          neg = (s1 \<noteq> [] \<and> hd s1 = CHR ''-'');
          s2 = (if s1 \<noteq> [] \<and> (hd s1 = CHR ''-'' \<or> hd s1 = CHR ''+'') then tl s1 else s1);
          s3 = (if b = 16 \<and> length s2 > 2 \<and> s2 ! 0 = CHR ''0'' \<and> (s2 ! 1 = CHR ''x'' \<or> s2 ! 1 = CHR ''X'')
                    \<and> digit_val (s2 ! 2) < 16
                then drop 2 s2 else s2);
          ds = takeWhile (\<lambda>c. digit_val c < b) s3
      in if ds = [] then (0, s)
         else (if numval b ds \<ge> 2 ^ w then 2 ^ w - 1
               else if neg \<and> numval b ds \<noteq> 0 then 2 ^ w - numval b ds else numval b ds,
               dropWhile (\<lambda>c. digit_val c < b) s3))"

text \<open>What \<^verbatim>\<open>%u\<close>, \<^verbatim>\<open>%x\<close> and their kin print.\<close>

definition digit_char :: "nat \<Rightarrow> char" where
  "digit_char n = char_of (if n < 10 then n + 48 else n + 87)"

fun numstr :: "nat \<Rightarrow> nat \<Rightarrow> string" where
  "numstr b n = (if b < 2 \<or> n < b then [digit_char n] else numstr b (n div b) @ [digit_char (n mod b)])"

declare numstr.simps [simp del]

abbreviation dec :: "nat \<Rightarrow> string" where
  "dec \<equiv> numstr 10"

lemma code_digit_char: "n < 36 \<Longrightarrow> code (digit_char n) = (if n < 10 then n + 48 else n + 87)"
  by (simp add: digit_char_def of_char_of)

lemma digit_val_char: "n < 36 \<Longrightarrow> digit_val (digit_char n) = n"
  by (simp add: digit_val_def code_digit_char)

lemma numval_snoc: "numval b (s @ [c]) = numval b s * b + digit_val c"
  by (simp add: numval_def)

lemma numstr_not_Nil [simp]: "numstr b n \<noteq> []"
  by (subst numstr.simps) simp

lemma numval_numstr: "2 \<le> b \<Longrightarrow> b \<le> 36 \<Longrightarrow> numval b (numstr b n) = n"
proof (induction b n rule: numstr.induct)
  case (1 b n)
  show ?case
  proof (cases "n < b")
    case True
    then show ?thesis using 1 by (subst numstr.simps) (simp add: numval_def digit_val_char)
  next
    case False
    then have "numval b (numstr b (n div b)) = n div b" using 1 by simp
    moreover have "n mod b < 36" using 1(2,3) mod_less_divisor[of b n] by linarith
    ultimately show ?thesis using False 1(2,3) by (subst numstr.simps) (simp add: numval_snoc digit_val_char)
  qed
qed

lemma numstr_chars:
  "2 \<le> b \<Longrightarrow> c \<in> set (numstr b n) \<Longrightarrow> \<exists>d<b. c = digit_char d"
proof (induction b n rule: numstr.induct)
  case (1 b n)
  show ?case
  proof (cases "b < 2 \<or> n < b")
    case True
    then show ?thesis using 1 by (subst (asm) (2) numstr.simps) auto
  next
    case False
    then have "c \<in> set (numstr b (n div b)) \<or> c = digit_char (n mod b)"
      using 1(3) by (subst (asm) (1) numstr.simps) auto
    then show ?thesis using 1 False mod_less_divisor[of b n] by fastforce
  qed
qed

lemma numstr_digit_val: "2 \<le> b \<Longrightarrow> b \<le> 36 \<Longrightarrow> c \<in> set (numstr b n) \<Longrightarrow> digit_val c < b"
  using numstr_chars[of b c n] digit_val_char by fastforce

lemma numstr_code:
  "2 \<le> b \<Longrightarrow> b \<le> 36 \<Longrightarrow> c \<in> set (numstr b n) \<Longrightarrow> 48 \<le> code c \<and> code c \<le> 57 \<or> 97 \<le> code c \<and> code c \<le> 122"
  using numstr_chars[of b c n] by (auto simp: code_digit_char split: if_splits)

lemma dec_is_digit: "c \<in> set (dec n) \<Longrightarrow> is_digit c"
  using numstr_chars[of 10 c n] code_digit_char by fastforce

lemma digit_val_10: "digit_val c < 10 \<longleftrightarrow> is_digit c"
  by (auto simp: digit_val_def)

lemma strtoul_unsigned:
  assumes "s \<noteq> []" "digit_val (hd s) < b" "b \<le> 36"
    and "\<not> (b = 16 \<and> length s > 2 \<and> s ! 0 = CHR ''0'' \<and> (s ! 1 = CHR ''x'' \<or> s ! 1 = CHR ''X'') \<and> digit_val (s ! 2) < 16)"
  shows "strtoul w b s = (min (numval b (takeWhile (\<lambda>c. digit_val c < b) s)) (2 ^ w - 1),
    dropWhile (\<lambda>c. digit_val c < b) s)"
proof -
  obtain c cs where s: "s = c # cs" using assms(1) by (cases s) auto
  have c: "digit_val c < 36" "digit_val c < b" using assms(2,3) s by auto
  then have nsp: "\<not> is_space c" "c \<noteq> CHR ''-''" "c \<noteq> CHR ''+''" by (auto simp: digit_val_def split: if_splits)
  then have sk: "dropWhile (\<lambda>c. is_space c) s = s" by (simp add: s)
  show ?thesis using nsp assms(4) c
    by (simp add: strtoul_def sk s Let_def min_def not_le) linarith
qed

lemma strtoul_10:
  assumes "s \<noteq> []" "is_digit (hd s)"
  shows "strtoul w 10 s = (min (numval 10 (takeWhile (\<lambda>c. is_digit c) s)) (2 ^ w - 1), dropWhile (\<lambda>c. is_digit c) s)"
  using strtoul_unsigned[of s 10 w] assms by (simp add: digit_val_10)

lemma takeWhile_append_stop:
  "\<forall>c \<in> set a. P c \<Longrightarrow> r = [] \<or> \<not> P (hd r) \<Longrightarrow> takeWhile P (a @ r) = a \<and> dropWhile P (a @ r) = r"
  by (induction a) (auto simp: neq_Nil_conv takeWhile_eq_Nil_iff dropWhile_eq_self_iff)

lemma strtoul_dec [cstr_simps]:
  assumes "r = [] \<or> \<not> is_digit (hd r)"
  shows "strtoul w 10 (dec n @ r) = (min n (2 ^ w - 1), r)"
proof -
  have t: "takeWhile (\<lambda>c. is_digit c) (dec n @ r) = dec n" "dropWhile (\<lambda>c. is_digit c) (dec n @ r) = r"
    using takeWhile_append_stop[of "dec n" "\<lambda>c. is_digit c" r] dec_is_digit assms by auto
  have "is_digit (hd (dec n @ r))" using dec_is_digit[of "hd (dec n)" n] by simp
  then show ?thesis using strtoul_10[of "dec n @ r" w] t by (simp add: numval_numstr)
qed

lemma strtoul_10_all:
  assumes "s \<noteq> []" "is_digit (hd s)"
  shows "snd (strtoul w 10 s) = [] \<longleftrightarrow> (\<forall>c \<in> set s. is_digit c)"
    and "\<forall>c \<in> set s. is_digit c \<Longrightarrow> fst (strtoul w 10 s) = min (numval 10 s) (2 ^ w - 1)"
proof -
  show "snd (strtoul w 10 s) = [] \<longleftrightarrow> (\<forall>c \<in> set s. is_digit c)"
    by (simp add: strtoul_10[OF assms] dropWhile_eq_Nil_conv)
  assume "\<forall>c \<in> set s. is_digit c"
  then have "takeWhile (\<lambda>c. is_digit c) s = s" by (simp only: takeWhile_eq_all_conv)
  then show "fst (strtoul w 10 s) = min (numval 10 s) (2 ^ w - 1)" unfolding strtoul_10[OF assms] by (simp only: fst_conv)
qed

lemma strtoul_hex [cstr_simps]:
  assumes "r = [] \<or> 16 \<le> digit_val (hd r)"
  shows "strtoul w 16 (''0x'' @ numstr 16 n @ r) = (min n (2 ^ w - 1), r)"
proof -
  have t: "takeWhile (\<lambda>c. digit_val c < 16) (numstr 16 n @ r) = numstr 16 n"
    "dropWhile (\<lambda>c. digit_val c < 16) (numstr 16 n @ r) = r"
    using takeWhile_append_stop[of "numstr 16 n" "\<lambda>c. digit_val c < 16" r] numstr_digit_val assms by auto
  have "digit_val ((numstr 16 n @ r) ! 0) < 16"
    using numstr_digit_val[of 16 "hd (numstr 16 n)" n] by (simp add: nth_append hd_conv_nth[symmetric])
  moreover have "0 < length (numstr 16 n @ r)" by simp
  ultimately have "strtoul w 16 (''0x'' @ numstr 16 n @ r) =
      (if numval 16 (numstr 16 n) \<ge> 2 ^ w then 2 ^ w - 1 else numval 16 (numstr 16 n), r)"
    using t by (simp add: strtoul_def)
  then show ?thesis by (simp add: numval_numstr min_def not_le) linarith
qed

lemma strrchr_append: "c \<notin> set b \<Longrightarrow> strrchr (a @ c # b) c = Some (length a)"
  using strchr_append[of c "rev b" "rev a"] by (simp add: strrchr_def)

lemma strrchr_Some:
  "strrchr s c = Some i \<Longrightarrow> i < length s \<and> s ! i = c \<and> c \<notin> set (drop (i + 1) s)"
proof -
  assume "strrchr s c = Some i"
  then obtain j where j: "strchr (rev s) c = Some j" "i = length s - 1 - j" by (auto simp: strrchr_def)
  then have J: "j < length s" "rev s ! j = c" "c \<notin> set (take j (rev s))" by (auto simp: strchr_Some)
  then have "s ! i = c" using j(2) by (simp add: rev_nth)
  moreover have "set (take j (rev s)) = set (drop (i + 1) s)"
    using j(2) J(1) by (simp add: take_rev Suc_diff_Suc)
  ultimately show ?thesis using J j(2) by auto
qed

lemma strrchr_None: "strrchr s c = None \<longleftrightarrow> c \<notin> set s"
  by (simp add: strrchr_def strchr_None)

end
