(* ===== verification/Containers.thy ===== *)
theory Containers
  imports CLib Encoding "HOL-Library.Monad_Syntax"
begin

text \<open>
  Model of \<^verbatim>\<open>wireguard-tools/src/containers.h\<close>. The structures are records; a family together with
  the union it selects is a datatype; a \<^verbatim>\<open>next\<close>-linked list is a HOL list. Addresses are in host
  byte order, that is as the number whose big-endian bytes are the bytes in memory. The last
  section keeps the lists as linked nodes of a heap, for the one function that depends on it,
  \<^verbatim>\<open>free_wgdevice\<close>.
\<close>

section \<open>Flags\<close>

definition WGALLOWEDIP_REMOVE_ME :: u32 where "WGALLOWEDIP_REMOVE_ME = flag_bit 0"
definition WGPEER_REMOVE_ME :: u32 where "WGPEER_REMOVE_ME = flag_bit 0"
definition WGPEER_REPLACE_ALLOWEDIPS :: u32 where "WGPEER_REPLACE_ALLOWEDIPS = flag_bit 1"
definition WGPEER_HAS_PUBLIC_KEY :: u32 where "WGPEER_HAS_PUBLIC_KEY = flag_bit 2"
definition WGPEER_HAS_PRESHARED_KEY :: u32 where "WGPEER_HAS_PRESHARED_KEY = flag_bit 3"
definition WGPEER_HAS_PERSISTENT_KEEPALIVE_INTERVAL :: u32 where
  "WGPEER_HAS_PERSISTENT_KEEPALIVE_INTERVAL = flag_bit 4"
definition WGDEVICE_REPLACE_PEERS :: u32 where "WGDEVICE_REPLACE_PEERS = flag_bit 0"
definition WGDEVICE_HAS_PRIVATE_KEY :: u32 where "WGDEVICE_HAS_PRIVATE_KEY = flag_bit 1"
definition WGDEVICE_HAS_PUBLIC_KEY :: u32 where "WGDEVICE_HAS_PUBLIC_KEY = flag_bit 2"
definition WGDEVICE_HAS_LISTEN_PORT :: u32 where "WGDEVICE_HAS_LISTEN_PORT = flag_bit 3"
definition WGDEVICE_HAS_FWMARK :: u32 where "WGDEVICE_HAS_FWMARK = flag_bit 4"

lemmas flag_defs = WGALLOWEDIP_REMOVE_ME_def WGPEER_REMOVE_ME_def WGPEER_REPLACE_ALLOWEDIPS_def
  WGPEER_HAS_PUBLIC_KEY_def WGPEER_HAS_PRESHARED_KEY_def WGPEER_HAS_PERSISTENT_KEEPALIVE_INTERVAL_def
  WGDEVICE_REPLACE_PEERS_def WGDEVICE_HAS_PRIVATE_KEY_def WGDEVICE_HAS_PUBLIC_KEY_def
  WGDEVICE_HAS_LISTEN_PORT_def WGDEVICE_HAS_FWMARK_def

abbreviation set_flag :: "u32 \<Rightarrow> u32 \<Rightarrow> u32" where "set_flag m f \<equiv> f OR m"
abbreviation clear_flag :: "u32 \<Rightarrow> u32 \<Rightarrow> u32" where "clear_flag m f \<equiv> f AND NOT m"


section \<open>Structures\<close>

abbreviation IFNAMSIZ :: nat where "IFNAMSIZ \<equiv> 16"

text \<open>The family of an address with the member of the union it selects.\<close>

datatype ip_addr = AF_UNSPEC | is_inet: AF_INET u32 | is_inet6: AF_INET6 u128

text \<open>\<^verbatim>\<open>endpoint\<close>: \<^verbatim>\<open>sockaddr_in\<close> with address and port, \<^verbatim>\<open>sockaddr_in6\<close> with address, port, flow
  information and scope.\<close>

datatype sockaddr = SaUnspec | SaIn u32 u16 | SaIn6 u128 u16 u32 u32

record timespec64 =
  tv_sec :: u64
  tv_nsec :: u64

record wgallowedip =
  ip :: ip_addr
  cidr :: u8
  a_flags :: u32

record wgpeer =
  p_flags :: u32
  public_key :: wgkey
  preshared_key :: wgkey
  endpoint :: sockaddr
  last_handshake_time :: timespec64
  rx_bytes :: u64
  tx_bytes :: u64
  persistent_keepalive_interval :: u16
  allowedips :: "wgallowedip list"

record wgdevice =
  name :: string
  ifindex :: u32
  d_flags :: u32
  d_public_key :: wgkey
  private_key :: wgkey
  fwmark :: u32
  listen_port :: u16
  peers :: "wgpeer list"

text \<open>What \<^verbatim>\<open>calloc\<close> returns.\<close>

definition new_allowedip :: wgallowedip where
  "new_allowedip = \<lparr> ip = AF_UNSPEC, cidr = 0, a_flags = 0 \<rparr>"

definition new_peer :: wgpeer where
  "new_peer = \<lparr> p_flags = 0, public_key = zero_key, preshared_key = zero_key, endpoint = SaUnspec,
     last_handshake_time = \<lparr> tv_sec = 0, tv_nsec = 0 \<rparr>, rx_bytes = 0, tx_bytes = 0,
     persistent_keepalive_interval = 0, allowedips = [] \<rparr>"

definition new_device :: wgdevice where
  "new_device = \<lparr> name = [], ifindex = 0, d_flags = 0, d_public_key = zero_key, private_key = zero_key,
     fwmark = 0, listen_port = 0, peers = [] \<rparr>"

text \<open>Well-formed objects: keys are 32 bytes, a prefix length fits its family.\<close>

fun max_cidr :: "ip_addr \<Rightarrow> nat" where
  "max_cidr AF_UNSPEC = 0"
| "max_cidr (AF_INET _) = 32"
| "max_cidr (AF_INET6 _) = 128"

definition wf_allowedip :: "wgallowedip \<Rightarrow> bool" where
  "wf_allowedip a \<longleftrightarrow> ip a \<noteq> AF_UNSPEC \<and> unat (cidr a) \<le> max_cidr (ip a)"

definition wf_peer :: "wgpeer \<Rightarrow> bool" where
  "wf_peer p \<longleftrightarrow> length (public_key p) = WG_KEY_LEN \<and> length (preshared_key p) = WG_KEY_LEN \<and>
     list_all wf_allowedip (allowedips p)"

definition wf_device :: "wgdevice \<Rightarrow> bool" where
  "wf_device d \<longleftrightarrow> length (private_key d) = WG_KEY_LEN \<and> length (d_public_key d) = WG_KEY_LEN \<and>
     length (name d) < IFNAMSIZ \<and> list_all wf_peer (peers d)"

lemma wf_new_peer [simp]: "wf_peer new_peer"
  by (simp add: wf_peer_def new_peer_def)

lemma wf_new_device [simp]: "wf_device new_device"
  by (simp add: wf_device_def new_device_def)


section \<open>Releasing a device\<close>

text \<open>The nodes \<^verbatim>\<open>free_wgdevice\<close> walks over, by address; only the link fields matter. Reading or
  freeing an address that is not allocated is undefined behaviour: the value \<open>None\<close>, which also
  stands for a walk that does not end.\<close>

type_synonym addr = nat
datatype node =
    AllowedipNode (next_allowedip: "addr option")
  | PeerNode (first_allowedip: "addr option") (next_peer: "addr option")
  | DeviceNode (first_peer: "addr option")
type_synonym heap = "addr \<Rightarrow> node option"

definition free_node :: "addr \<Rightarrow> heap \<Rightarrow> heap option" where
  "free_node a h = (if h a = None then None else Some (h(a := None)))"

definition load_next_allowedip :: "heap \<Rightarrow> addr option \<Rightarrow> addr option option" where
  "load_next_allowedip h p = (case p of None \<Rightarrow> Some None
     | Some a \<Rightarrow> (case h a of Some (AllowedipNode n) \<Rightarrow> Some n | _ \<Rightarrow> None))"

definition load_peer :: "heap \<Rightarrow> addr \<Rightarrow> (addr option \<times> addr option) option" where
  "load_peer h a = (case h a of Some (PeerNode f n) \<Rightarrow> Some (f, n) | _ \<Rightarrow> None)"

definition load_next_peer :: "heap \<Rightarrow> addr option \<Rightarrow> addr option option" where
  "load_next_peer h p = (case p of None \<Rightarrow> Some None | Some a \<Rightarrow> map_option snd (load_peer h a))"

partial_function (option) free_allowedips :: "heap \<Rightarrow> addr option \<Rightarrow> addr option \<Rightarrow> heap option" where
  "free_allowedips h allowedip na =
     (case allowedip of None \<Rightarrow> Some h
      | Some a \<Rightarrow> do {
          h \<leftarrow> free_node a h;
          na' \<leftarrow> load_next_allowedip h na;
          free_allowedips h na na'
        })"

partial_function (option) free_peers :: "heap \<Rightarrow> addr option \<Rightarrow> addr option \<Rightarrow> heap option" where
  "free_peers h peer np =
     (case peer of None \<Rightarrow> Some h
      | Some a \<Rightarrow> do {
          (first, n) \<leftarrow> load_peer h a;
          na \<leftarrow> load_next_allowedip h first;
          h \<leftarrow> free_allowedips h first na;
          h \<leftarrow> free_node a h;
          np' \<leftarrow> load_next_peer h np;
          free_peers h np np'
        })"

definition free_wgdevice :: "heap \<Rightarrow> addr option \<Rightarrow> heap option" where
  "free_wgdevice h dev =
     (case dev of None \<Rightarrow> Some h
      | Some d \<Rightarrow> (case h d of Some (DeviceNode first) \<Rightarrow> do {
            np \<leftarrow> load_next_peer h first;
            h \<leftarrow> free_peers h first np;
            free_node d h
          } | _ \<Rightarrow> None))"

text \<open>A device laid out in the heap: the addresses of the allowed IPs of a peer, of the peers, in
  list order.\<close>

fun allowedips_at :: "heap \<Rightarrow> addr option \<Rightarrow> addr list \<Rightarrow> bool" where
  "allowedips_at h p [] \<longleftrightarrow> p = None"
| "allowedips_at h p (a # as) \<longleftrightarrow> p = Some a \<and> (\<exists>n. h a = Some (AllowedipNode n) \<and> allowedips_at h n as)"

fun peers_at :: "heap \<Rightarrow> addr option \<Rightarrow> (addr \<times> addr list) list \<Rightarrow> bool" where
  "peers_at h p [] \<longleftrightarrow> p = None"
| "peers_at h p ((a, as) # ps) \<longleftrightarrow>
     p = Some a \<and> (\<exists>f n. h a = Some (PeerNode f n) \<and> allowedips_at h f as \<and> peers_at h n ps)"

fun peer_addrs :: "(addr \<times> addr list) list \<Rightarrow> addr list" where
  "peer_addrs [] = []"
| "peer_addrs ((a, as) # ps) = a # as @ peer_addrs ps"

definition remove_nodes :: "addr set \<Rightarrow> heap \<Rightarrow> heap" where
  "remove_nodes A h = (\<lambda>a. if a \<in> A then None else h a)"

lemma remove_nodes_remove [simp]: "remove_nodes A (remove_nodes B h) = remove_nodes (A \<union> B) h"
  by (auto simp: remove_nodes_def)

lemma free_node_remove: "h a \<noteq> None \<Longrightarrow> a \<notin> A \<Longrightarrow> free_node a (remove_nodes A h) = Some (remove_nodes (insert a A) h)"
  by (auto simp: free_node_def remove_nodes_def)

lemma allowedips_at_cong:
  "allowedips_at h p as \<Longrightarrow> \<forall>a \<in> set as. h' a = h a \<Longrightarrow> allowedips_at h' p as"
  by (induction as arbitrary: p) auto

lemma peers_at_cong:
  "peers_at h p ps \<Longrightarrow> \<forall>a \<in> set (peer_addrs ps). h' a = h a \<Longrightarrow> peers_at h' p ps"
proof (induction ps arbitrary: p)
  case (Cons x ps)
  obtain a as where x: "x = (a, as)" by (cases x)
  with Cons.prems obtain f n where *: "p = Some a" "h a = Some (PeerNode f n)" "allowedips_at h f as" "peers_at h n ps"
    by auto
  have "h' a = Some (PeerNode f n)" using *(2) Cons.prems(2) x by simp
  moreover have "allowedips_at h' f as" by (rule allowedips_at_cong[OF *(3)]) (use Cons.prems(2) x in auto)
  moreover have "peers_at h' n ps" by (rule Cons.IH[OF *(4)]) (use Cons.prems(2) x in auto)
  ultimately show ?case using x *(1) by simp
qed simp

lemma load_next_allowedip_at:
  "allowedips_at h p as \<Longrightarrow> \<exists>n. load_next_allowedip h p = Some n \<and> allowedips_at h n (tl as)"
  by (cases as) (auto simp: load_next_allowedip_def)

lemma free_allowedips_at:
  "allowedips_at h p as \<Longrightarrow> distinct as \<Longrightarrow> load_next_allowedip h p = Some na \<Longrightarrow>
     free_allowedips h p na = Some (remove_nodes (set as) h)"
proof (induction as arbitrary: h p na)
  case Nil
  then show ?case by (subst free_allowedips.simps) (simp add: remove_nodes_def)
next
  case (Cons a as)
  then have p: "p = Some a" "h a = Some (AllowedipNode na)" "allowedips_at h na as"
    by (auto simp: load_next_allowedip_def)
  let ?h = "h(a := None)"
  have at: "allowedips_at ?h na as" by (rule allowedips_at_cong[OF p(3)]) (use Cons.prems(2) in auto)
  then obtain n where n: "load_next_allowedip ?h na = Some n" using load_next_allowedip_at by blast
  have "free_allowedips ?h na n = Some (remove_nodes (set as) ?h)"
    by (rule Cons.IH[OF at _ n]) (use Cons.prems(2) in simp)
  moreover have "remove_nodes (set as) ?h = remove_nodes (set (a # as)) h" by (auto simp: remove_nodes_def)
  ultimately show ?case using p n by (subst free_allowedips.simps) (simp add: free_node_def)
qed

lemma free_peers_at:
  "peers_at h p ps \<Longrightarrow> distinct (peer_addrs ps) \<Longrightarrow> load_next_peer h p = Some np \<Longrightarrow>
     free_peers h p np = Some (remove_nodes (set (peer_addrs ps)) h)"
proof (induction ps arbitrary: h p np)
  case Nil
  then show ?case by (subst free_peers.simps) (simp add: remove_nodes_def)
next
  case (Cons x ps)
  obtain a as where x: "x = (a, as)" by (cases x)
  then obtain f where p: "p = Some a" "h a = Some (PeerNode f np)" "allowedips_at h f as" "peers_at h np ps"
    using Cons.prems by (auto simp: load_next_peer_def load_peer_def)
  have d: "distinct as" "a \<notin> set as" "distinct (peer_addrs ps)" "set (a # as) \<inter> set (peer_addrs ps) = {}"
    using Cons.prems(2) x by auto
  obtain na where na: "load_next_allowedip h f = Some na" using load_next_allowedip_at p(3) by blast
  let ?h1 = "remove_nodes (set as) h" and ?h2 = "remove_nodes (set (a # as)) h"
  have h1: "free_allowedips h f na = Some ?h1" by (rule free_allowedips_at[OF p(3) d(1) na])
  have h2: "free_node a ?h1 = Some ?h2"
    using p(2) d(2) by (simp add: free_node_remove)
  have at: "peers_at ?h2 np ps" by (rule peers_at_cong[OF p(4)]) (use d(4) in \<open>auto simp: remove_nodes_def\<close>)
  obtain np' where np': "load_next_peer ?h2 np = Some np'"
    using at by (cases ps) (auto simp: load_next_peer_def load_peer_def)
  have "free_peers ?h2 np np' = Some (remove_nodes (set (peer_addrs ps)) ?h2)"
    by (rule Cons.IH[OF at d(3) np'])
  moreover have "remove_nodes (set (peer_addrs ps)) ?h2 = remove_nodes (set (peer_addrs (x # ps))) h"
    by (simp add: x Un_ac)
  ultimately show ?case using p na h1 h2 np' by (subst free_peers.simps) (simp add: load_peer_def)
qed

text \<open>C19. Releasing a device releases exactly its nodes: every peer and every allowed IP once, then
  the device, with no read or second release of a released node, and nothing else changes.\<close>

theorem free_wgdevice_exact:
  assumes "h d = Some (DeviceNode f)" "peers_at h f ps" "distinct (d # peer_addrs ps)"
  shows "free_wgdevice h (Some d) = Some (remove_nodes (set (d # peer_addrs ps)) h)"
proof -
  obtain np where np: "load_next_peer h f = Some np"
    using assms(2) by (cases ps) (auto simp: load_next_peer_def load_peer_def)
  have "free_peers h f np = Some (remove_nodes (set (peer_addrs ps)) h)"
    by (rule free_peers_at[OF assms(2) _ np]) (use assms(3) in simp)
  moreover have "free_node d (remove_nodes (set (peer_addrs ps)) h) = Some (remove_nodes (set (d # peer_addrs ps)) h)"
    using assms(1,3) by (simp add: free_node_remove)
  ultimately show ?thesis using assms(1) np by (simp add: free_wgdevice_def)
qed

definition example_heap :: heap where
  "example_heap = [0 \<mapsto> DeviceNode (Some 1), 1 \<mapsto> PeerNode (Some 2) (Some 4), 2 \<mapsto> AllowedipNode (Some 3),
     3 \<mapsto> AllowedipNode None, 4 \<mapsto> PeerNode None None]"

theorem free_wgdevice_exact_witness:
  "free_wgdevice example_heap (Some 0) = Some (remove_nodes {0, 1, 2, 3, 4} example_heap)"
  using free_wgdevice_exact[of example_heap 0 "Some 1" "[(1, [2, 3]), (4, [])]"]
  by (simp add: example_heap_def)

end
