(* ===== verification/Config_Values.thy ===== *)
theory Config_Values
  imports Containers
begin

text \<open>
  Model of \<^verbatim>\<open>wireguard-tools/src/config.c\<close>: the parsers of single values, the line processor of
  configuration files and the command line reader of \<^verbatim>\<open>wg set\<close>. What the code takes from the
  system (name resolution, address syntax, the environment, key files, the allocator) is a record
  of functions, \<open>env\<close>. An error is a value that names the message the code prints; the pointers
  \<^verbatim>\<open>last_peer\<close> and \<^verbatim>\<open>last_allowedip\<close> are indices into the lists they point into.
\<close>

section \<open>The environment\<close>

datatype gai_error = EAI_NONAME | EAI_FAIL | EAI_NODATA | EAI_TRANSIENT int

text \<open>\<^verbatim>\<open>getaddrinfo\<close>: an error code, or the first result; \<open>SaUnspec\<close> is a result that is neither an
  IPv4 nor an IPv6 address of the right length.\<close>

datatype gai_result = GaiError gai_error | GaiAddr sockaddr

text \<open>A file opened for reading: its bytes, whether reading past them fails, whether its position
  can be told.\<close>

record key_file =
  kf_bytes :: string
  kf_error :: bool
  kf_seekable :: bool

datatype alloc_site = StrdupEndpoint | StrdupAllowedips | StrdupEntry | CallocAllowedip
  | CallocPeer | CallocLine | CallocDevice | CallocStripped

record env =
  char_signed :: bool
  long_bits :: nat
  inet_pton4 :: "string \<Rightarrow> u32 option"
  inet_pton6 :: "string \<Rightarrow> u128 option"
  gai_passive :: "string \<Rightarrow> gai_result"
  gai :: "string \<Rightarrow> string \<Rightarrow> nat \<Rightarrow> gai_result"
  getenv_retries :: "string option"
  fopen :: "string \<Rightarrow> key_file option"
  alloc_fails :: "alloc_site \<Rightarrow> string \<Rightarrow> bool"

datatype config_error = OutOfMemory | EmptyPort | ResolverError gai_error | NoAddressFound
  | BadFwmark | BadKey | FopenFailed | BadKeyFileLength | TrailingCharacter char | ReadFailed
  | BadIP | ExitBadRetries | DoesNotReturn | EmptyEndpoint | UnmatchedBrace | MissingPort
  | BadKeepalive | BadAllowedIP | LineUnrecognized | MissingPublicKey | InvalidArgument string
  | NullPointer

text \<open>The character a C string has at an index, NUL at its end.\<close>

definition char_at :: "string \<Rightarrow> nat \<Rightarrow> char" where
  "char_at s i = (if i < length s then s ! i else CHR 0x00)"

text \<open>The C string in a byte buffer.\<close>

definition cstr :: "string \<Rightarrow> string" where
  "cstr b = takeWhile (\<lambda>c. c \<noteq> CHR 0x00) b"


section \<open>Single values\<close>

definition get_value :: "string \<Rightarrow> string \<Rightarrow> string option" where
  "get_value line key =
     (if length key \<ge> length line then None
      else if \<not> strncaseeq line key (length key) then None
      else Some (drop (length key) line))"

fun sockaddr_port :: "sockaddr \<Rightarrow> u16 option" where
  "sockaddr_port (SaIn _ p) = Some p"
| "sockaddr_port (SaIn6 _ p _ _) = Some p"
| "sockaddr_port SaUnspec = None"

definition parse_port :: "env \<Rightarrow> u32 \<Rightarrow> string \<Rightarrow> config_error + (u16 \<times> u32)" where
  "parse_port env flags value =
     (if value = [] then Inl EmptyPort
      else case gai_passive env value of
        GaiError e \<Rightarrow> Inl (ResolverError e)
      | GaiAddr sa \<Rightarrow> (case sockaddr_port sa of
            Some port \<Rightarrow> Inr (port, set_flag WGDEVICE_HAS_LISTEN_PORT flags)
          | None \<Rightarrow> Inl NoAddressFound))"

definition parse_fwmark :: "env \<Rightarrow> u32 \<Rightarrow> string \<Rightarrow> config_error + (u32 \<times> u32)" where
  "parse_fwmark env flags value =
     (if strcaseeq value ''off'' then Inr (0, set_flag WGDEVICE_HAS_FWMARK flags)
      else if \<not> char_is_digit (char_int (char_signed env) (char_at value 0)) then Inl BadFwmark
      else
        let base = (if length value > 2 \<and> char_at value 0 = CHR ''0'' \<and> char_at value 1 = CHR ''x'' then 16 else 10);
            (ret, end) = strtoul (long_bits env) base value
        in if end \<noteq> [] \<or> ret > 2 ^ 32 - 1 then Inl BadFwmark
           else Inr (of_nat ret, set_flag WGDEVICE_HAS_FWMARK flags))"

text \<open>The verdict and the contents of \<^verbatim>\<open>key\<close>.\<close>

definition parse_key :: "env \<Rightarrow> wgkey \<Rightarrow> string \<Rightarrow> bool \<times> wgkey" where
  "parse_key env key value =
     (case key_from_base64 (char_signed env) key value of
        (False, _) \<Rightarrow> (False, zero_key)
      | (True, key) \<Rightarrow> (True, key))"

text \<open>The loop over the rest of a key file stops at the first character that is no white space.\<close>

fun trailing_char :: "string \<Rightarrow> char option" where
  "trailing_char [] = None"
| "trailing_char (c # cs) = (if \<not> char_is_space (of_char c) then Some c else trailing_char cs)"

definition parse_keyfile :: "env \<Rightarrow> wgkey \<Rightarrow> string \<Rightarrow> config_error + wgkey" where
  "parse_keyfile env key path =
     (case fopen env path of
        None \<Rightarrow> Inl FopenFailed
      | Some f \<Rightarrow>
          if length (kf_bytes f) < WG_KEY_LEN_BASE64 - 1 then
            (if \<not> kf_error f \<and> kf_bytes f = [] \<and> kf_seekable f then Inr zero_key else Inl BadKeyFileLength)
          else
            let dst = take (WG_KEY_LEN_BASE64 - 1) (kf_bytes f) in
            (case trailing_char (drop (WG_KEY_LEN_BASE64 - 1) (kf_bytes f)) of
               Some c \<Rightarrow> Inl (TrailingCharacter c)
             | None \<Rightarrow>
                 if kf_error f then Inl ReadFailed
                 else (case parse_key env key (cstr dst) of
                         (True, key) \<Rightarrow> Inr key
                       | (False, _) \<Rightarrow> Inl BadKey)))"

definition parse_ip :: "env \<Rightarrow> wgallowedip \<Rightarrow> string \<Rightarrow> bool \<times> wgallowedip" where
  "parse_ip env allowedip value =
     (let addr = (if strchr value (CHR '':'') \<noteq> None
                  then (case inet_pton6 env value of Some a \<Rightarrow> AF_INET6 a | None \<Rightarrow> AF_UNSPEC)
                  else (case inet_pton4 env value of Some a \<Rightarrow> AF_INET a | None \<Rightarrow> AF_UNSPEC))
      in (addr \<noteq> AF_UNSPEC, allowedip\<lparr> ip := addr \<rparr>))"

definition parse_dns_retries :: "env \<Rightarrow> config_error + int" where
  "parse_dns_retries env =
     (case getenv_retries env of
        None \<Rightarrow> Inr 15
      | Some retries \<Rightarrow>
          if retries = ''infinity'' then Inr (-1)
          else let (ret, end) = strtoul (long_bits env) 10 retries
               in if end \<noteq> [] \<or> ret > 2 ^ 31 - 1 then Inl ExitBadRetries else Inr (int ret))"

text \<open>Host and port of an endpoint, as the two in-place cuts of the copied string leave them.\<close>

definition split_endpoint :: "string \<Rightarrow> config_error + (string \<times> string)" where
  "split_endpoint value =
     (if value = [] then Inl EmptyEndpoint
      else if char_at value 0 = CHR ''['' then
        (case strchr value (CHR '']'') of
           None \<Rightarrow> Inl UnmatchedBrace
         | Some i \<Rightarrow>
             if char_at value (i + 1) \<noteq> CHR '':'' \<or> char_at value (i + 2) = CHR 0x00 then Inl MissingPort
             else Inr (drop 1 (take i value), drop (i + 2) value))
      else
        (case strrchr value (CHR '':'') of
           None \<Rightarrow> Inl MissingPort
         | Some i \<Rightarrow>
             if char_at value (i + 1) = CHR 0x00 then Inl MissingPort
             else Inr (take i value, drop (i + 1) value)))"

fun permanent_failure :: "gai_error \<Rightarrow> bool" where
  "permanent_failure EAI_NONAME = True"
| "permanent_failure EAI_FAIL = True"
| "permanent_failure EAI_NODATA = True"
| "permanent_failure (EAI_TRANSIENT _) = False"

definition next_timeout :: "u32 \<Rightarrow> u32" where
  "next_timeout timeout = min 20000000 (timeout * 6 div 5)"

text \<open>The loop around \<^verbatim>\<open>getaddrinfo\<close>: attempt number, remaining retries, the next pause and the pauses
  made so far. \<open>None\<close> is a loop that never ends.\<close>

partial_function (option) resolve_loop ::
  "(nat \<Rightarrow> gai_result) \<Rightarrow> nat \<Rightarrow> int \<Rightarrow> u32 \<Rightarrow> u32 list \<Rightarrow> ((config_error + sockaddr) \<times> u32 list) option" where
  "resolve_loop lookup attempt retries timeout slept =
     (case lookup attempt of
        GaiAddr sa \<Rightarrow> Some (Inr sa, slept)
      | GaiError e \<Rightarrow>
          if permanent_failure e \<or> retries \<ge> 0 \<and> retries = 0 then Some (Inl (ResolverError e), slept)
          else resolve_loop lookup (attempt + 1) (if retries \<ge> 0 then retries - 1 else retries)
                 (next_timeout timeout) (slept @ [timeout]))"

definition parse_endpoint :: "env \<Rightarrow> string \<Rightarrow> config_error + sockaddr" where
  "parse_endpoint env value =
     (case parse_dns_retries env of
        Inl e \<Rightarrow> Inl e
      | Inr retries \<Rightarrow>
          if alloc_fails env StrdupEndpoint value then Inl OutOfMemory
          else case split_endpoint value of
            Inl e \<Rightarrow> Inl e
          | Inr (begin, end) \<Rightarrow>
              (case resolve_loop (gai env begin end) 0 retries 1000000 [] of
                 None \<Rightarrow> Inl DoesNotReturn
               | Some (Inl e, _) \<Rightarrow> Inl e
               | Some (Inr sa, _) \<Rightarrow> if sa = SaUnspec then Inl NoAddressFound else Inr sa))"

definition parse_persistent_keepalive :: "env \<Rightarrow> u32 \<Rightarrow> string \<Rightarrow> config_error + (u16 \<times> u32)" where
  "parse_persistent_keepalive env flags value =
     (if strcaseeq value ''off'' then Inr (0, set_flag WGPEER_HAS_PERSISTENT_KEEPALIVE_INTERVAL flags)
      else if \<not> char_is_digit (char_int (char_signed env) (char_at value 0)) then Inl BadKeepalive
      else
        let (ret, end) = strtoul (long_bits env) 10 value
        in if end \<noteq> [] \<or> ret > 65535 then Inl BadKeepalive
           else Inr (of_nat ret, set_flag WGPEER_HAS_PERSISTENT_KEEPALIVE_INTERVAL flags))"


section \<open>Keys\<close>

lemma parse_key_True:
  assumes "length key = WG_KEY_LEN"
  shows "parse_key env key value = (True, k) \<longleftrightarrow> length k = WG_KEY_LEN \<and> value = key_to_base64 k"
  using b64.accepts_iff[OF assms, of "char_signed env" "value" k]
  by (auto simp: parse_key_def split: prod.splits bool.splits)

lemma parse_key_False: "parse_key env key value = (False, k) \<Longrightarrow> k = zero_key"
  by (auto simp: parse_key_def split: prod.splits bool.splits)

lemma parse_key_base64 [line_simps]:
  "length key = WG_KEY_LEN \<Longrightarrow> length k = WG_KEY_LEN \<Longrightarrow> parse_key env key (key_to_base64 k) = (True, k)"
  by (simp add: parse_key_True)

lemma trailing_char_None: "trailing_char s = None \<longleftrightarrow> (\<forall>c \<in> set s. is_space c)"
proof (induction s)
  case (Cons c s)
  have "char_int False c = of_char c" by (simp add: char_int_def)
  then have "char_is_space (of_char c) \<longleftrightarrow> is_space c" using char_is_space_iff[of False c] by simp
  then show ?case using Cons by simp
qed simp


section \<open>Numbers\<close>

lemma char_at_digit: "is_digit (char_at v 0) \<longleftrightarrow> v \<noteq> [] \<and> is_digit (hd v)"
  by (cases v) (auto simp: char_at_def)

lemma strcaseeq_off_not_digit: "strcaseeq v ''off'' \<Longrightarrow> \<not> is_digit (char_at v 0)"
  by (cases v) (auto simp: strcaseeq_def char_at_def tolower_def split: if_splits)

definition all_digits :: "string \<Rightarrow> bool" where
  "all_digits v \<longleftrightarrow> v \<noteq> [] \<and> (\<forall>c \<in> set v. is_digit c)"

lemma all_digits_first: "all_digits v \<Longrightarrow> is_digit (char_at v 0)"
  by (cases v) (auto simp: char_at_def all_digits_def)

lemma strtoul_10_bounded:
  assumes "is_digit (char_at v 0)" "K + 1 < 2 ^ w"
  shows "(case strtoul w 10 v of (ret, end) \<Rightarrow> if end \<noteq> [] \<or> ret > K then a else f ret) =
    (if all_digits v \<and> numval 10 v \<le> K then f (numval 10 v) else a)"
proof -
  have v: "v \<noteq> []" "is_digit (hd v)" using assms(1) by (auto simp: char_at_digit)
  obtain ret rest where s: "strtoul w 10 v = (ret, rest)" by force
  have r: "rest = [] \<longleftrightarrow> all_digits v" using strtoul_10_all(1)[OF v, of w] s v(1) by (simp add: all_digits_def)
  show ?thesis
  proof (cases "all_digits v")
    case True
    then have "ret = min (numval 10 v) (2 ^ w - 1)" using strtoul_10_all(2)[OF v, of w] s by (simp add: all_digits_def)
    then have "ret > K \<longleftrightarrow> numval 10 v > K" "numval 10 v \<le> K \<Longrightarrow> ret = numval 10 v" using assms(2) by auto
    then show ?thesis using r True by (auto simp: s)
  next
    case False
    then show ?thesis using r by (simp add: s)
  qed
qed

lemma parse_persistent_keepalive_eq:
  assumes "17 \<le> long_bits env"
  shows "parse_persistent_keepalive env fl v =
     (if strcaseeq v ''off'' then Inr (0, set_flag WGPEER_HAS_PERSISTENT_KEEPALIVE_INTERVAL fl)
      else if all_digits v \<and> numval 10 v \<le> 65535
        then Inr (of_nat (numval 10 v), set_flag WGPEER_HAS_PERSISTENT_KEEPALIVE_INTERVAL fl)
      else Inl BadKeepalive)"
proof (cases "is_digit (char_at v 0)")
  case True
  have "(2::nat) ^ 17 \<le> 2 ^ long_bits env" using assms by (intro power_increasing) auto
  then have "65535 + 1 < (2::nat) ^ long_bits env" by simp
  note N = strtoul_10_bounded[OF True this]
  show ?thesis
    unfolding parse_persistent_keepalive_def char_is_digit_iff Let_def N using True by simp
next
  case False
  then have "\<not> all_digits v" using all_digits_first by blast
  then show ?thesis using False unfolding parse_persistent_keepalive_def char_is_digit_iff by simp
qed

definition all_hex :: "string \<Rightarrow> bool" where
  "all_hex h \<longleftrightarrow> h \<noteq> [] \<and> (\<forall>c \<in> set h. digit_val c < 16)"

lemma strtoul_16:
  shows "snd (strtoul w 16 (CHR ''0'' # CHR ''x'' # h)) = [] \<longleftrightarrow> all_hex h"
    and "all_hex h \<Longrightarrow> fst (strtoul w 16 (CHR ''0'' # CHR ''x'' # h)) = min (numval 16 h) (2 ^ w - 1)"
proof -
  have x: "digit_val (CHR ''x'') = 33" "digit_val (CHR ''0'') = 0" by (simp_all add: digit_val_def)
  show "snd (strtoul w 16 (CHR ''0'' # CHR ''x'' # h)) = [] \<longleftrightarrow> all_hex h"
    by (cases h) (auto simp: strtoul_def Let_def x all_hex_def dropWhile_eq_Nil_conv)
  assume h: "all_hex h"
  then have t: "takeWhile (\<lambda>c. digit_val c < 16) h = h" by (simp add: all_hex_def takeWhile_eq_all_conv)
  have "0 < length h" "digit_val (h ! 0) < 16" using h by (cases h; simp add: all_hex_def)+
  then have "strtoul w 16 (CHR ''0'' # CHR ''x'' # h) =
      (if numval 16 h \<ge> 2 ^ w then 2 ^ w - 1 else numval 16 h, dropWhile (\<lambda>c. digit_val c < 16) h)"
    by (simp add: strtoul_def Let_def t)
  then show "fst (strtoul w 16 (CHR ''0'' # CHR ''x'' # h)) = min (numval 16 h) (2 ^ w - 1)"
    by (simp add: min_def not_le) linarith
qed

lemma strtoul_16_bounded:
  assumes "K + 1 < 2 ^ w"
  shows "(case strtoul w 16 (CHR ''0'' # CHR ''x'' # h) of (ret, end) \<Rightarrow> if end \<noteq> [] \<or> ret > K then a else f ret) =
    (if all_hex h \<and> numval 16 h \<le> K then f (numval 16 h) else a)"
proof -
  obtain ret rest where s: "strtoul w 16 (CHR ''0'' # CHR ''x'' # h) = (ret, rest)" by force
  then have r: "rest = [] \<longleftrightarrow> all_hex h" using strtoul_16(1)[of w h] by simp
  show ?thesis
  proof (cases "all_hex h")
    case True
    then have "ret = min (numval 16 h) (2 ^ w - 1)" using strtoul_16(2)[of h w] s by simp
    then have "ret > K \<longleftrightarrow> numval 16 h > K" "numval 16 h \<le> K \<Longrightarrow> ret = numval 16 h" using assms by auto
    then show ?thesis using r True by (auto simp: s)
  next
    case False
    then show ?thesis using r by (simp add: s)
  qed
qed

lemma parse_fwmark_eq:
  assumes "33 \<le> long_bits env"
  shows "parse_fwmark env fl v =
     (if strcaseeq v ''off'' then Inr (0, set_flag WGDEVICE_HAS_FWMARK fl)
      else if all_digits v \<and> numval 10 v \<le> 2 ^ 32 - 1
        then Inr (of_nat (numval 10 v), set_flag WGDEVICE_HAS_FWMARK fl)
      else if take 2 v = ''0x'' \<and> all_hex (drop 2 v) \<and> numval 16 (drop 2 v) \<le> 2 ^ 32 - 1
        then Inr (of_nat (numval 16 (drop 2 v)), set_flag WGDEVICE_HAS_FWMARK fl)
      else Inl BadFwmark)"
proof -
  have "(2::nat) ^ 33 \<le> 2 ^ long_bits env" using assms by (intro power_increasing) auto
  then have K: "2 ^ 32 - 1 + 1 < (2::nat) ^ long_bits env" by simp
  consider (hex) h where "v = CHR ''0'' # CHR ''x'' # h" "h \<noteq> []"
    | (dec) "is_digit (char_at v 0)" "\<not> (\<exists>h. v = CHR ''0'' # CHR ''x'' # h \<and> h \<noteq> [])"
    | (none) "\<not> is_digit (char_at v 0)" by blast
  then show ?thesis
  proof cases
    case hex
    note N = strtoul_16_bounded[OF K, where h = h, folded hex(1)]
    have b: "length v > 2 \<and> char_at v 0 = CHR ''0'' \<and> char_at v 1 = CHR ''x''"
      using hex(2) by (simp add: hex(1) char_at_def)
    have "\<not> all_digits v" by (simp add: hex all_digits_def)
    moreover have "\<not> strcaseeq v ''off''" by (simp add: hex strcaseeq_def tolower_def)
    ultimately show ?thesis
      unfolding parse_fwmark_def char_is_digit_iff Let_def if_P[OF b] N using hex by (simp add: char_at_def)
  next
    case dec
    have b: "\<not> (length v > 2 \<and> char_at v 0 = CHR ''0'' \<and> char_at v 1 = CHR ''x'')"
      using dec(2) by (cases v; cases "tl v"; auto simp: char_at_def)
    note N = strtoul_10_bounded[OF dec(1) K]
    have "\<not> (take 2 v = ''0x'' \<and> all_hex (drop 2 v))"
      using dec(2) by (cases v; cases "tl v"; auto simp: all_hex_def numeral_2_eq_2)
    then show ?thesis
      unfolding parse_fwmark_def char_is_digit_iff Let_def if_not_P[OF b] N using dec(1) by auto
  next
    case none
    then have "\<not> all_digits v" using all_digits_first by blast
    moreover have "take 2 v \<noteq> ''0x''" using none by (cases v) (auto simp: char_at_def)
    ultimately show ?thesis using none unfolding parse_fwmark_def char_is_digit_iff by simp
  qed
qed


section \<open>Endpoints\<close>

lemma split_endpoint_bracket [line_simps]:
  assumes "CHR '']'' \<notin> set h" "p \<noteq> []" "CHR 0x00 \<notin> set p"
  shows "split_endpoint (CHR ''['' # h @ CHR '']'' # CHR '':'' # p) = Inr (h, p)"
proof -
  let ?v = "(CHR ''['' # h) @ CHR '']'' # CHR '':'' # p"
  have s: "strchr ?v (CHR '']'') = Some (Suc (length h))"
    using strchr_append[of "CHR '']''" "CHR ''['' # h"] assms(1) by simp
  obtain c cs where p: "p = c # cs" "c \<noteq> CHR 0x00" using assms(2,3) by (cases p) auto
  have "char_at ?v (Suc (length h) + 1) = CHR '':''" "char_at ?v (Suc (length h) + 2) = c"
    by (simp_all add: char_at_def nth_append p(1))
  then show ?thesis using s p(2) by (simp add: split_endpoint_def char_at_def)
qed

lemma split_endpoint_plain [line_simps]:
  assumes "CHR '':'' \<notin> set p" "p \<noteq> []" "CHR 0x00 \<notin> set p" "h = [] \<or> hd h \<noteq> CHR ''[''"
  shows "split_endpoint (h @ CHR '':'' # p) = Inr (h, p)"
proof -
  let ?v = "h @ CHR '':'' # p"
  have s: "strrchr ?v (CHR '':'') = Some (length h)" by (rule strrchr_append[OF assms(1)])
  obtain c cs where p: "p = c # cs" "c \<noteq> CHR 0x00" using assms(2,3) by (cases p) auto
  have "char_at ?v 0 \<noteq> CHR ''[''" using assms(4) by (cases h) (simp_all add: char_at_def)
  moreover have "char_at ?v (length h + 1) = c" by (simp add: char_at_def nth_append p(1))
  ultimately show ?thesis using s p(2) by (simp add: split_endpoint_def)
qed

definition transient :: "gai_result \<Rightarrow> bool" where
  "transient r \<longleftrightarrow> (\<exists>n. r = GaiError (EAI_TRANSIENT n))"

lemma permanent_failure_iff: "permanent_failure e \<longleftrightarrow> \<not> transient (GaiError e)"
  by (cases e) (auto simp: transient_def)

text \<open>The outcome the last attempt decides.\<close>

fun outcome :: "gai_result \<Rightarrow> config_error + sockaddr" where
  "outcome (GaiAddr sa) = Inr sa"
| "outcome (GaiError e) = Inl (ResolverError e)"

lemma resolve_loop_transient:
  assumes "transient (f a)" "r \<noteq> 0"
  shows "resolve_loop f a r t s =
    resolve_loop f (a + 1) (if r \<ge> 0 then r - 1 else r) (next_timeout t) (s @ [t])"
  using assms by (subst resolve_loop.simps) (auto simp: transient_def)

lemma resolve_loop_stop:
  assumes "\<not> transient (f a) \<or> r = 0"
  shows "resolve_loop f a r t s = Some (outcome (f a), s)"
  using assms by (subst resolve_loop.simps) (auto simp: permanent_failure_iff split: gai_result.splits)

lemma resolve_loop_after:
  assumes "\<forall>j<k. transient (f (a + j))" "0 \<le> r \<longrightarrow> int k \<le> r"
  shows "resolve_loop f a r t s =
    resolve_loop f (a + k) (if r \<ge> 0 then r - int k else r) ((next_timeout ^^ k) t)
      (s @ map (\<lambda>i. (next_timeout ^^ i) t) [0..<k])"
  using assms
proof (induction k)
  case (Suc k)
  have "resolve_loop f a r t s = resolve_loop f (a + k) (if r \<ge> 0 then r - int k else r) ((next_timeout ^^ k) t)
      (s @ map (\<lambda>i. (next_timeout ^^ i) t) [0..<k])"
    using Suc by auto
  also have "\<dots> = resolve_loop f (a + Suc k) (if r \<ge> 0 then r - int (Suc k) else r) ((next_timeout ^^ Suc k) t)
      (s @ map (\<lambda>i. (next_timeout ^^ i) t) [0..<Suc k])"
    using Suc.prems by (subst resolve_loop_transient) (auto simp: algebra_simps)
  finally show ?case .
qed simp

lemma resolve_loop_result:
  assumes "\<forall>j<k. transient (f j)" "0 \<le> r \<longrightarrow> int k \<le> r" "\<not> transient (f k) \<or> r = int k"
  shows "resolve_loop f 0 r t [] = Some (outcome (f k), map (\<lambda>i. (next_timeout ^^ i) t) [0..<k])"
proof -
  have "resolve_loop f 0 r t [] = resolve_loop f k (if r \<ge> 0 then r - int k else r) ((next_timeout ^^ k) t)
      (map (\<lambda>i. (next_timeout ^^ i) t) [0..<k])"
    using resolve_loop_after[of k f 0 r t "[]"] assms(1,2) by simp
  then show ?thesis using assms(3) by (simp add: resolve_loop_stop)
qed

lemma resolve_loop_returns:
  assumes "resolve_loop f a r t s = Some y" "r < 0"
  shows "\<exists>k. \<not> transient (f (a + k))"
proof -
  have "r < 0 \<longrightarrow> (\<exists>k. \<not> transient (f (a + k)))"
  proof (rule resolve_loop.raw_induct[OF _ assms(1), where P = "\<lambda>f a r t s y. r < 0 \<longrightarrow> (\<exists>k. \<not> transient (f (a + k)))"])
    fix loop :: "(nat \<Rightarrow> gai_result) \<Rightarrow> nat \<Rightarrow> int \<Rightarrow> u32 \<Rightarrow> u32 list \<Rightarrow> ((config_error + sockaddr) \<times> u32 list) option"
      and f a r t s y
    assume IH: "\<And>f a r t s y. loop f a r t s = Some y \<Longrightarrow> r < 0 \<longrightarrow> (\<exists>k. \<not> transient (f (a + k)))"
    assume L: "(case f a of GaiError e \<Rightarrow> if permanent_failure e \<or> (0::int) \<le> r \<and> r = 0 then Some (Inl (ResolverError e), s)
        else loop f (a + 1) (if 0 \<le> r then r - 1 else r) (next_timeout t) (s @ [t]) | GaiAddr sa \<Rightarrow> Some (Inr sa, s)) = Some y"
    show "r < 0 \<longrightarrow> (\<exists>k. \<not> transient (f (a + k)))"
    proof (cases "transient (f a)")
      case True
      then have "loop f (a + 1) r (next_timeout t) (s @ [t]) = Some y" if "r < 0"
        using L that by (auto simp: transient_def)
      then have "r < 0 \<longrightarrow> (\<exists>k. \<not> transient (f (a + (1 + k))))" using IH by (metis add.assoc)
      then show ?thesis by blast
    next
      case False
      then show ?thesis by (metis add.right_neutral)
    qed
  qed
  then show ?thesis using assms(2) by blast
qed

lemma unat_next_timeout:
  assumes "unat t \<le> 20000000"
  shows "unat (next_timeout t) = min 20000000 (unat t * 6 div 5)"
proof -
  have m: "unat (t * 6) = unat t * 6" using assms by (simp add: unat_word_ariths)
  then have "unat (t * 6 div 5) = unat t * 6 div 5" by (simp add: unat_div)
  then show ?thesis by (simp add: next_timeout_def min_def word_le_nat_alt)
qed

lemma pause_bounds:
  "1000000 \<le> unat ((next_timeout ^^ i) 1000000) \<and> unat ((next_timeout ^^ i) 1000000) \<le> 20000000"
proof (induction i)
  case (Suc i)
  have "unat ((next_timeout ^^ i) 1000000) * 5 div 5 \<le> unat ((next_timeout ^^ i) 1000000) * 6 div 5"
    by (rule div_le_mono) simp
  then have "1000000 \<le> unat ((next_timeout ^^ i) 1000000) * 6 div 5" using Suc by simp
  then show ?case using Suc by (simp add: unat_next_timeout)
qed simp

text \<open>The first attempt that decides, when at most \<open>n\<close> retries are allowed.\<close>

lemma deciding_attempt:
  fixes n :: nat
  shows "\<exists>k \<le> n. (\<forall>j<k. transient (f j)) \<and> (\<not> transient (f k) \<or> k = n)"
proof -
  let ?k = "LEAST k. \<not> transient (f k) \<or> k = n"
  have "\<not> transient (f ?k) \<or> ?k = n" by (rule LeastI[of _ n]) simp
  moreover have "?k \<le> n" by (rule Least_le) simp
  moreover have "\<forall>j<?k. transient (f j)" using not_less_Least by blast
  ultimately show ?thesis by blast
qed

text \<open>C20. With a finite number of retries the resolution of an endpoint ends. The attempts before the
  deciding one all failed transiently, the deciding one is the first that does not or the last
  allowed one, its outcome is returned, and the pauses made start at one second and never exceed
  twenty.\<close>

theorem resolve_loop_bounded:
  assumes "0 \<le> r"
  shows "\<exists>k pauses. int k \<le> r \<and> (\<forall>j<k. transient (f j)) \<and> (\<not> transient (f k) \<or> int k = r) \<and>
    resolve_loop f 0 r 1000000 [] = Some (outcome (f k), pauses) \<and> length pauses = k \<and>
    list_all (\<lambda>p. 1000000 \<le> p \<and> p \<le> 20000000) pauses"
proof -
  obtain k where k: "k \<le> nat r" "\<forall>j<k. transient (f j)" "\<not> transient (f k) \<or> k = nat r"
    using deciding_attempt by blast
  then have kr: "int k \<le> r" "\<not> transient (f k) \<or> int k = r" using assms by auto
  have "list_all (\<lambda>p. 1000000 \<le> p \<and> p \<le> (20000000 :: u32)) (map (\<lambda>i. (next_timeout ^^ i) 1000000) [0..<k])"
    using pause_bounds by (simp add: list_all_iff word_le_nat_alt)
  then show ?thesis
    using resolve_loop_result[of k f r 1000000] k(2) kr
    by (intro exI[of _ k] exI[of _ "map (\<lambda>i. (next_timeout ^^ i) 1000000) [0..<k]"]) auto
qed

theorem resolve_loop_bounded_witness:
  "\<exists>k pauses. int k \<le> 2 \<and> resolve_loop (\<lambda>n. GaiError (EAI_TRANSIENT (int n))) 0 2 1000000 []
      = Some (outcome (GaiError (EAI_TRANSIENT (int k))), pauses) \<and> length pauses = k"
  using resolve_loop_bounded[of 2 "\<lambda>n. GaiError (EAI_TRANSIENT (int n))"] by auto

text \<open>C21. With \<^verbatim>\<open>WG_ENDPOINT_RESOLUTION_RETRIES=infinity\<close> the resolution returns exactly when some attempt
  does not fail transiently.\<close>

theorem resolve_loop_infinite:
  "(\<exists>y. resolve_loop f 0 (- 1) 1000000 [] = Some y) \<longleftrightarrow> (\<exists>k. \<not> transient (f k))"
proof
  assume "\<exists>y. resolve_loop f 0 (- 1) 1000000 [] = Some y"
  then show "\<exists>k. \<not> transient (f k)" using resolve_loop_returns[of f 0 "- 1"] by auto
next
  assume "\<exists>k. \<not> transient (f k)"
  then obtain m where "\<not> transient (f m)" by blast
  then obtain k where "\<forall>j<k. transient (f j)" "\<not> transient (f k)"
    using deciding_attempt[of m f] by auto
  then show "\<exists>y. resolve_loop f 0 (- 1) 1000000 [] = Some y"
    using resolve_loop_result[of k f "- 1"] by auto
qed

text \<open>C22. Where \<^verbatim>\<open>long\<close> has more than 32 bits, the value of \<^verbatim>\<open>FwMark\<close> is accepted exactly when it is \<^verbatim>\<open>off\<close>,
  a decimal number or a hexadecimal number with the prefix \<^verbatim>\<open>0x\<close>, that fits 32 bits; the mark is
  that number and the flag is set.\<close>

theorem parse_fwmark_spec:
  assumes "33 \<le> long_bits env"
  shows "parse_fwmark env fl v =
     (if strcaseeq v ''off'' then Inr (0, set_flag WGDEVICE_HAS_FWMARK fl)
      else if all_digits v \<and> numval 10 v \<le> 2 ^ 32 - 1
        then Inr (of_nat (numval 10 v), set_flag WGDEVICE_HAS_FWMARK fl)
      else if take 2 v = ''0x'' \<and> all_hex (drop 2 v) \<and> numval 16 (drop 2 v) \<le> 2 ^ 32 - 1
        then Inr (of_nat (numval 16 (drop 2 v)), set_flag WGDEVICE_HAS_FWMARK fl)
      else Inl BadFwmark)"
  by (rule parse_fwmark_eq[OF assms])

text \<open>An environment with 64-bit \<^verbatim>\<open>long\<close> in which nothing resolves, no file exists and memory is never
  short; witnesses vary it.\<close>

definition plain_env :: env where
  "plain_env = \<lparr> char_signed = False, long_bits = 64, inet_pton4 = (\<lambda>_. None), inet_pton6 = (\<lambda>_. None),
     gai_passive = (\<lambda>_. GaiError EAI_NONAME), gai = (\<lambda>_ _ _. GaiError EAI_NONAME), getenv_retries = None,
     fopen = (\<lambda>_. None), alloc_fails = (\<lambda>_ _. False) \<rparr>"

theorem parse_fwmark_spec_witness:
  "parse_fwmark plain_env 0 ''0xCa6c'' = Inr (0xca6c, set_flag WGDEVICE_HAS_FWMARK 0)"
proof -
  have "take 2 ''0xCa6c'' = ''0x''" "drop 2 ''0xCa6c'' = ''Ca6c''" by simp_all
  moreover have "\<not> strcaseeq ''0xCa6c'' ''off''" "\<not> all_digits ''0xCa6c''" "all_hex ''Ca6c''"
    "numval 16 ''Ca6c'' = 0xca6c"
    by (simp_all add: strcaseeq_def all_digits_def all_hex_def numval_def digit_val_def)
  ultimately show ?thesis using parse_fwmark_spec[of plain_env 0 "''0xCa6c''"] by (simp add: plain_env_def)
qed

text \<open>C27. Where \<^verbatim>\<open>long\<close> has 32 bits the range check is void: a decimal mark too large for 32 bits is
  accepted and becomes the largest mark.\<close>

theorem parse_fwmark_saturates:
  assumes "long_bits env = 32" "all_digits v" "2 ^ 32 \<le> numval 10 v"
  shows "parse_fwmark env fl v = Inr (0xffffffff, set_flag WGDEVICE_HAS_FWMARK fl)"
proof -
  have d: "is_digit (char_at v 0)" by (rule all_digits_first[OF assms(2)])
  then have v: "v \<noteq> []" "is_digit (hd v)" by (auto simp: char_at_digit)
  have "CHR ''x'' \<notin> set v" using assms(2) by (auto simp: all_digits_def)
  then have "char_at v 1 \<noteq> CHR ''x''" by (cases v; cases "tl v"; auto simp: char_at_def)
  then have b: "\<not> (length v > 2 \<and> char_at v 0 = CHR ''0'' \<and> char_at v 1 = CHR ''x'')" by blast
  obtain ret rest where s: "strtoul 32 10 v = (ret, rest)" by force
  have "rest = []" "ret = 2 ^ 32 - 1"
    using strtoul_10_all[OF v, of 32] assms(2,3) s by (auto simp: all_digits_def)
  then show ?thesis
    using d strcaseeq_off_not_digit[of v]
    unfolding parse_fwmark_def char_is_digit_iff Let_def if_not_P[OF b] assms(1) s by auto
qed

theorem parse_fwmark_saturates_witness:
  "parse_fwmark (plain_env\<lparr> long_bits := 32 \<rparr>) 0 ''99999999999'' = Inr (0xffffffff, set_flag WGDEVICE_HAS_FWMARK 0)"
  by (rule parse_fwmark_saturates) (simp_all add: all_digits_def numval_def digit_val_def)

end
