(* ===== verification/Config.thy ===== *)
theory Config
  imports Config_Values
begin

text \<open>
  The stateful half of \<^verbatim>\<open>wireguard-tools/src/config.c\<close>: allowed IPs, the processing of one line of a
  configuration file, the driver functions of a file and the reader of the arguments of
  \<^verbatim>\<open>wg set\<close>.
\<close>

section \<open>Allowed IPs\<close>

text \<open>The 32-bit words of an address after \<^verbatim>\<open>ntohl\<close>, in memory order.\<close>

fun ip_words :: "ip_addr \<Rightarrow> u32 list" where
  "ip_words AF_UNSPEC = []"
| "ip_words (AF_INET a) = [a]"
| "ip_words (AF_INET6 a) = map (\<lambda>i. ucast (drop_bit (96 - 32 * i) a)) [0..<4]"

text \<open>The loop of \<^verbatim>\<open>validate_netmask\<close>; the argument counts down, the index is one less.\<close>

fun validate_words :: "u32 list \<Rightarrow> nat \<Rightarrow> nat \<Rightarrow> bool" where
  "validate_words ws c 0 = True"
| "validate_words ws c (Suc i) =
     (if c \<ge> 32 * (i + 1) then True
      else let mask = (if c > 32 * i then drop_bit (c - 32 * i) (- 1) else - 1)
           in if ws ! i AND mask \<noteq> 0 then False else validate_words ws c i)"

definition validate_netmask :: "wgallowedip \<Rightarrow> bool" where
  "validate_netmask a =
     (case ip a of
        AF_INET _ \<Rightarrow> validate_words (ip_words (ip a)) (unat (cidr a)) 1
      | AF_INET6 _ \<Rightarrow> validate_words (ip_words (ip a)) (unat (cidr a)) 4
      | AF_UNSPEC \<Rightarrow> True)"

text \<open>The new flags of the peer, the flags of the entry, and the rest of the text.\<close>

definition parse_ip_prefix :: "u32 \<Rightarrow> u32 \<Rightarrow> string \<Rightarrow> u32 \<times> u32 \<times> string" where
  "parse_ip_prefix pflags flags m =
     (if char_at m 0 = CHR ''-'' then
        (clear_flag WGPEER_REPLACE_ALLOWEDIPS pflags, set_flag WGALLOWEDIP_REMOVE_ME flags, drop 1 m)
      else if char_at m 0 = CHR ''+'' then
        (clear_flag WGPEER_REPLACE_ALLOWEDIPS pflags, flags, drop 1 m)
      else (pflags, flags, m))"

text \<open>The prefix length of an entry, from the text after the slash if there is one.\<close>

definition parse_cidr :: "env \<Rightarrow> ip_addr \<Rightarrow> string option \<Rightarrow> nat option" where
  "parse_cidr env addr slash =
     (case slash of
        Some m \<Rightarrow>
          if \<not> char_is_digit (char_int (char_signed env) (char_at m 0)) then None
          else (let (cidr, end) = strtoul (long_bits env) 10 m
                in if end \<noteq> [] \<or> (cidr > 32 \<and> is_inet addr) \<or> (cidr > 128 \<and> is_inet6 addr)
                   then None else Some cidr)
      | None \<Rightarrow> (case addr of AF_INET _ \<Rightarrow> Some 32 | AF_INET6 _ \<Rightarrow> Some 128 | AF_UNSPEC \<Rightarrow> None))"

text \<open>Linking a new node behind the node the pointer designates, or as the first one.\<close>

definition link_after :: "nat option \<Rightarrow> 'a \<Rightarrow> 'a list \<Rightarrow> 'a list" where
  "link_after p x xs = (case p of None \<Rightarrow> [x] | Some i \<Rightarrow> take (i + 1) xs @ [x])"

definition next_ptr :: "nat option \<Rightarrow> nat option" where
  "next_ptr p = Some (case p of None \<Rightarrow> 0 | Some i \<Rightarrow> i + 1)"

text \<open>One pass of the loop of \<^verbatim>\<open>parse_allowedips\<close> over the entry \<open>mask\<close>.\<close>

definition parse_allowedip :: "env \<Rightarrow> wgpeer \<times> nat option \<Rightarrow> string \<Rightarrow> config_error + (wgpeer \<times> nat option)" where
  "parse_allowedip env st entry =
     (let (peer, allowedip) = st;
          (pflags, flags, mask) = parse_ip_prefix (p_flags peer) 0 entry;
          peer = peer\<lparr> p_flags := pflags \<rparr>
      in if alloc_fails env StrdupEntry mask then Inl OutOfMemory
         else let (iptext, mask') = strsep (CHR ''/'') mask
      in if alloc_fails env CallocAllowedip mask then Inl OutOfMemory
         else case parse_ip env new_allowedip iptext of
           (False, _) \<Rightarrow> Inl BadIP
         | (True, new) \<Rightarrow>
             (case parse_cidr env (ip new) mask' of
                None \<Rightarrow> Inl BadAllowedIP
              | Some c \<Rightarrow>
                  let new = new\<lparr> cidr := of_nat c, a_flags := flags \<rparr>
                  in Inr (peer\<lparr> allowedips := link_after allowedip new (allowedips peer) \<rparr>, next_ptr allowedip)))"

fun parse_allowedip_entries :: "env \<Rightarrow> wgpeer \<times> nat option \<Rightarrow> string list \<Rightarrow> config_error + (wgpeer \<times> nat option)" where
  "parse_allowedip_entries env st [] = Inr st"
| "parse_allowedip_entries env st (e # es) =
     (case parse_allowedip env st e of
        Inl err \<Rightarrow> Inl err
      | Inr st' \<Rightarrow> parse_allowedip_entries env st' es)"

definition parse_allowedips ::
  "env \<Rightarrow> wgpeer \<Rightarrow> nat option \<Rightarrow> string \<Rightarrow> config_error + (wgpeer \<times> nat option)" where
  "parse_allowedips env peer lastip value =
     (if alloc_fails env StrdupAllowedips value then Inl OutOfMemory
      else
        let peer = peer\<lparr> p_flags := set_flag WGPEER_REPLACE_ALLOWEDIPS (p_flags peer) \<rparr>
        in if value = [] then Inr (peer, lastip)
           else parse_allowedip_entries env (peer, lastip) (strsep_tokens (CHR '','') value))"


section \<open>Configuration files\<close>

record config_ctx =
  device :: wgdevice
  last_peer :: "nat option"
  last_allowedip :: "nat option"
  is_peer_section :: bool
  is_device_section :: bool

definition process_peer_header :: "env \<Rightarrow> config_ctx \<Rightarrow> string \<Rightarrow> config_error + config_ctx" where
  "process_peer_header env ctx line =
     (if alloc_fails env CallocPeer line then Inl OutOfMemory
      else Inr (ctx\<lparr> last_allowedip := None,
              device := (device ctx)\<lparr> peers := link_after (last_peer ctx)
                  (new_peer\<lparr> p_flags := set_flag WGPEER_REPLACE_ALLOWEDIPS 0 \<rparr>) (peers (device ctx)) \<rparr>,
              last_peer := next_ptr (last_peer ctx),
              is_peer_section := True, is_device_section := False \<rparr>))"

definition process_device_line :: "env \<Rightarrow> wgdevice \<Rightarrow> string \<Rightarrow> config_error + wgdevice" where
  "process_device_line env dev line =
     (case get_value line ''ListenPort='' of
        Some value \<Rightarrow>
          (case parse_port env (d_flags dev) value of
             Inl e \<Rightarrow> Inl e
           | Inr (port, flags) \<Rightarrow> Inr (dev\<lparr> listen_port := port, d_flags := flags \<rparr>))
      | None \<Rightarrow>
     (case get_value line ''FwMark='' of
        Some value \<Rightarrow>
          (case parse_fwmark env (d_flags dev) value of
             Inl e \<Rightarrow> Inl e
           | Inr (mark, flags) \<Rightarrow> Inr (dev\<lparr> fwmark := mark, d_flags := flags \<rparr>))
      | None \<Rightarrow>
     (case get_value line ''PrivateKey='' of
        Some value \<Rightarrow>
          (case parse_key env (private_key dev) value of
             (False, _) \<Rightarrow> Inl BadKey
           | (True, key) \<Rightarrow>
               Inr (dev\<lparr> private_key := key, d_flags := set_flag WGDEVICE_HAS_PRIVATE_KEY (d_flags dev) \<rparr>))
      | None \<Rightarrow> Inl LineUnrecognized)))"

definition process_peer_line ::
  "env \<Rightarrow> wgpeer \<Rightarrow> nat option \<Rightarrow> string \<Rightarrow> config_error + (wgpeer \<times> nat option)" where
  "process_peer_line env peer lastip line =
     (case get_value line ''Endpoint='' of
        Some value \<Rightarrow>
          (case parse_endpoint env value of
             Inl e \<Rightarrow> Inl e
           | Inr sa \<Rightarrow> Inr (peer\<lparr> endpoint := sa \<rparr>, lastip))
      | None \<Rightarrow>
     (case get_value line ''PublicKey='' of
        Some value \<Rightarrow>
          (case parse_key env (public_key peer) value of
             (False, _) \<Rightarrow> Inl BadKey
           | (True, key) \<Rightarrow>
               Inr (peer\<lparr> public_key := key, p_flags := set_flag WGPEER_HAS_PUBLIC_KEY (p_flags peer) \<rparr>, lastip))
      | None \<Rightarrow>
     (case get_value line ''AllowedIPs='' of
        Some value \<Rightarrow> parse_allowedips env peer lastip value
      | None \<Rightarrow>
     (case get_value line ''PersistentKeepalive='' of
        Some value \<Rightarrow>
          (case parse_persistent_keepalive env (p_flags peer) value of
             Inl e \<Rightarrow> Inl e
           | Inr (interval, flags) \<Rightarrow>
               Inr (peer\<lparr> persistent_keepalive_interval := interval, p_flags := flags \<rparr>, lastip))
      | None \<Rightarrow>
     (case get_value line ''PresharedKey='' of
        Some value \<Rightarrow>
          (case parse_key env (preshared_key peer) value of
             (False, _) \<Rightarrow> Inl BadKey
           | (True, key) \<Rightarrow>
               Inr (peer\<lparr> preshared_key := key, p_flags := set_flag WGPEER_HAS_PRESHARED_KEY (p_flags peer) \<rparr>, lastip))
      | None \<Rightarrow> Inl LineUnrecognized)))))"

definition process_line :: "env \<Rightarrow> config_ctx \<Rightarrow> string \<Rightarrow> config_error + config_ctx" where
  "process_line env ctx line =
     (if strcaseeq line ''[Interface]'' then Inr (ctx\<lparr> is_peer_section := False, is_device_section := True \<rparr>)
      else if strcaseeq line ''[Peer]'' then process_peer_header env ctx line
      else if is_device_section ctx then
        (case process_device_line env (device ctx) line of
           Inl e \<Rightarrow> Inl e
         | Inr dev \<Rightarrow> Inr (ctx\<lparr> device := dev \<rparr>))
      else if is_peer_section ctx then
        (case last_peer ctx of
           None \<Rightarrow> Inl NullPointer
         | Some i \<Rightarrow>
             if i \<ge> length (peers (device ctx)) then Inl NullPointer
             else (case process_peer_line env (peers (device ctx) ! i) (last_allowedip ctx) line of
                Inl e \<Rightarrow> Inl e
              | Inr (peer, lastip) \<Rightarrow>
                  Inr (ctx\<lparr> device := (device ctx)\<lparr> peers := (peers (device ctx))[i := peer] \<rparr>,
                           last_allowedip := lastip \<rparr>)))
      else Inl LineUnrecognized)"

text \<open>The copy of a line without white space, up to a comment.\<close>

definition strip_line :: "env \<Rightarrow> string \<Rightarrow> string" where
  "strip_line env input = filter (\<lambda>c. \<not> char_is_space (char_int (char_signed env) c))
     (case strchr input (CHR ''#'') of Some i \<Rightarrow> take i input | None \<Rightarrow> input)"

definition config_read_line :: "env \<Rightarrow> config_ctx \<Rightarrow> string \<Rightarrow> config_error + config_ctx" where
  "config_read_line env ctx input =
     (if alloc_fails env CallocLine input then Inl OutOfMemory
      else if strip_line env input = [] then Inr ctx
      else process_line env ctx (strip_line env input))"

definition config_read_init :: "env \<Rightarrow> bool \<Rightarrow> config_error + config_ctx" where
  "config_read_init env addconf =
     (if alloc_fails env CallocDevice [] then Inl OutOfMemory
      else Inr \<lparr> device = (if addconf then new_device
             else new_device\<lparr> d_flags := set_flag (WGDEVICE_REPLACE_PEERS OR WGDEVICE_HAS_PRIVATE_KEY OR
                                  WGDEVICE_HAS_FWMARK OR WGDEVICE_HAS_LISTEN_PORT) 0 \<rparr>),
           last_peer = None, last_allowedip = None, is_peer_section = False, is_device_section = False \<rparr>)"

definition config_read_finish :: "config_ctx \<Rightarrow> config_error + wgdevice" where
  "config_read_finish ctx =
     (if list_ex (\<lambda>p. \<not> flag_test (p_flags p) WGPEER_HAS_PUBLIC_KEY) (peers (device ctx)) then Inl MissingPublicKey
      else Inr (device ctx))"


section \<open>Command line\<close>

definition strip_spaces :: "env \<Rightarrow> string \<Rightarrow> config_error + string" where
  "strip_spaces env input =
     (if alloc_fails env CallocStripped input then Inl OutOfMemory
      else Inr (filter (\<lambda>c. \<not> char_is_space (char_int (char_signed env) c)) input))"

definition update_peer :: "nat option \<Rightarrow> (wgpeer \<Rightarrow> wgpeer) \<Rightarrow> wgdevice \<Rightarrow> wgdevice" where
  "update_peer p f dev = dev\<lparr> peers := (peers dev)[the p := f (peers dev ! the p)] \<rparr>"

text \<open>The loop over the arguments: the device, the pointers \<^verbatim>\<open>peer\<close> and \<^verbatim>\<open>allowedip\<close> and the remaining
  arguments. \<^verbatim>\<open>argc >= 2\<close> says that an argument follows.\<close>

function config_read_args ::
  "env \<Rightarrow> wgdevice \<Rightarrow> nat option \<Rightarrow> nat option \<Rightarrow> string list \<Rightarrow> config_error + wgdevice" where
  "config_read_args env dev peer aip [] = Inr dev"
| "config_read_args env dev peer aip (arg # rest) =
     (if arg = ''listen-port'' \<and> rest \<noteq> [] \<and> peer = None then
        (case parse_port env (d_flags dev) (hd rest) of
           Inl e \<Rightarrow> Inl e
         | Inr (port, flags) \<Rightarrow>
             config_read_args env (dev\<lparr> listen_port := port, d_flags := flags \<rparr>) peer aip (tl rest))
      else if arg = ''fwmark'' \<and> rest \<noteq> [] \<and> peer = None then
        (case parse_fwmark env (d_flags dev) (hd rest) of
           Inl e \<Rightarrow> Inl e
         | Inr (mark, flags) \<Rightarrow>
             config_read_args env (dev\<lparr> fwmark := mark, d_flags := flags \<rparr>) peer aip (tl rest))
      else if arg = ''private-key'' \<and> rest \<noteq> [] \<and> peer = None then
        (case parse_keyfile env (private_key dev) (hd rest) of
           Inl e \<Rightarrow> Inl e
         | Inr key \<Rightarrow>
             config_read_args env (dev\<lparr> private_key := key,
                 d_flags := set_flag WGDEVICE_HAS_PRIVATE_KEY (d_flags dev) \<rparr>) peer aip (tl rest))
      else if arg = ''peer'' \<and> rest \<noteq> [] then
        (if alloc_fails env CallocPeer (hd rest) then Inl OutOfMemory
         else (case parse_key env (public_key new_peer) (hd rest) of
             (False, _) \<Rightarrow> Inl BadKey
           | (True, key) \<Rightarrow>
               config_read_args env
                 (dev\<lparr> peers := link_after peer
                    (new_peer\<lparr> public_key := key, p_flags := set_flag WGPEER_HAS_PUBLIC_KEY 0 \<rparr>) (peers dev) \<rparr>)
                 (next_ptr peer) None (tl rest)))
      else if arg = ''remove'' \<and> peer \<noteq> None then
        config_read_args env (update_peer peer (\<lambda>p. p\<lparr> p_flags := set_flag WGPEER_REMOVE_ME (p_flags p) \<rparr>) dev)
          peer aip rest
      else if arg = ''endpoint'' \<and> rest \<noteq> [] \<and> peer \<noteq> None then
        (case parse_endpoint env (hd rest) of
           Inl e \<Rightarrow> Inl e
         | Inr sa \<Rightarrow> config_read_args env (update_peer peer (\<lambda>p. p\<lparr> endpoint := sa \<rparr>) dev) peer aip (tl rest))
      else if arg = ''allowed-ips'' \<and> rest \<noteq> [] \<and> peer \<noteq> None then
        (case strip_spaces env (hd rest) of
           Inl e \<Rightarrow> Inl e
         | Inr line \<Rightarrow>
             (case parse_allowedips env (peers dev ! the peer) aip line of
                Inl e \<Rightarrow> Inl e
              | Inr (p, aip') \<Rightarrow> config_read_args env (update_peer peer (\<lambda>_. p) dev) peer aip' (tl rest)))
      else if arg = ''persistent-keepalive'' \<and> rest \<noteq> [] \<and> peer \<noteq> None then
        (case parse_persistent_keepalive env (p_flags (peers dev ! the peer)) (hd rest) of
           Inl e \<Rightarrow> Inl e
         | Inr (interval, flags) \<Rightarrow>
             config_read_args env (update_peer peer (\<lambda>p. p\<lparr> persistent_keepalive_interval := interval, p_flags := flags \<rparr>) dev)
               peer aip (tl rest))
      else if arg = ''preshared-key'' \<and> rest \<noteq> [] \<and> peer \<noteq> None then
        (case parse_keyfile env (preshared_key (peers dev ! the peer)) (hd rest) of
           Inl e \<Rightarrow> Inl e
         | Inr key \<Rightarrow>
             config_read_args env (update_peer peer (\<lambda>p. p\<lparr> preshared_key := key,
                 p_flags := set_flag WGPEER_HAS_PRESHARED_KEY (p_flags p) \<rparr>) dev) peer aip (tl rest))
      else Inl (InvalidArgument arg))"
  by pat_completeness auto
termination
  by (relation "measure (\<lambda>(_, _, _, _, args). length args)") auto

declare config_read_args.simps(2) [simp del]

definition config_read_cmd :: "env \<Rightarrow> string list \<Rightarrow> config_error + wgdevice" where
  "config_read_cmd env argv =
     (if alloc_fails env CallocDevice [] then Inl OutOfMemory
      else config_read_args env new_device None None argv)"


section \<open>Netmasks\<close>

lemma word_and_zero_iff: "(w::u32) AND m = 0 \<longleftrightarrow> (\<forall>n<32. bit m n \<longrightarrow> \<not> bit w n)"
  by (auto simp: bit_eq_iff bit_and_iff)

lemma bit_drop_ones: "bit (drop_bit k (- 1 :: u32)) n \<longleftrightarrow> k + n < 32"
  by (simp only: bit_drop_bit_eq comp_apply bit_minus_1_iff possible_bit_word) simp

lemma validate_words_iff:
  "validate_words ws c k \<longleftrightarrow> (\<forall>i<k. \<forall>n<32. bit (ws ! i) n \<longrightarrow> 32 * i + (31 - n) < c)"
proof (induction k)
  case (Suc i)
  show ?case
  proof (cases "c \<ge> 32 * (i + 1)")
    case True
    then have "32 * j + (31 - n) < c" if "j < Suc i" "n < 32" for j n using that by simp
    then show ?thesis using True by simp
  next
    case False
    let ?m = "if c > 32 * i then drop_bit (c - 32 * i) (- 1) else - 1 :: u32"
    have "ws ! i AND ?m = 0 \<longleftrightarrow> (\<forall>n<32. bit (ws ! i) n \<longrightarrow> 32 * i + (31 - n) < c)"
    proof (cases "c > 32 * i")
      case True
      have p: "c - 32 * i + n < 32 \<longleftrightarrow> \<not> 32 * i + (31 - n) < c" if "n < 32" for n
        using that True False by linarith
      show ?thesis unfolding word_and_zero_iff if_P[OF True] bit_drop_ones using p by blast
    next
      case c: False
      then show ?thesis unfolding word_and_zero_iff by auto
    qed
    then show ?thesis using False Suc by (auto simp: Let_def less_Suc_eq)
  qed
qed simp

lemma take_bit_zero_iff:
  "k \<le> LENGTH('a) \<Longrightarrow> take_bit k (a :: 'a::len word) = 0 \<longleftrightarrow> (\<forall>n<k. \<not> bit a n)"
  by (auto simp: bit_eq_iff bit_take_bit_iff)

text \<open>The host part of an allowed IP: the bits behind the prefix.\<close>

fun host_part_zero :: "ip_addr \<Rightarrow> nat \<Rightarrow> bool" where
  "host_part_zero (AF_INET a) c \<longleftrightarrow> take_bit (32 - c) a = 0"
| "host_part_zero (AF_INET6 a) c \<longleftrightarrow> take_bit (128 - c) a = 0"
| "host_part_zero AF_UNSPEC c \<longleftrightarrow> True"

lemma validate_inet: "c \<le> 32 \<Longrightarrow> validate_words [a] c 1 \<longleftrightarrow> take_bit (32 - c) a = 0"
proof -
  assume c: "c \<le> 32"
  have "31 - n < c \<longleftrightarrow> \<not> n < 32 - c" if "n < 32" for n using that by linarith
  moreover have "n < 32 - c \<Longrightarrow> n < 32" for n by linarith
  ultimately show ?thesis unfolding validate_words_iff by (auto simp: take_bit_zero_iff)
qed

lemma bit_ip_word: "i < 4 \<Longrightarrow> n < 32 \<Longrightarrow> bit (ip_words (AF_INET6 a) ! i) n \<longleftrightarrow> bit a (96 - 32 * i + n)"
  by (simp add: bit_ucast_iff bit_drop_bit_eq)

lemma validate_inet6: "c \<le> 128 \<Longrightarrow> validate_words (ip_words (AF_INET6 a)) c 4 \<longleftrightarrow> take_bit (128 - c) a = 0"
proof -
  assume c: "c \<le> 128"
  have "validate_words (ip_words (AF_INET6 a)) c 4 \<longleftrightarrow>
      (\<forall>i<4. \<forall>n<32. bit a (96 - 32 * i + n) \<longrightarrow> 32 * i + (31 - n) < c)"
    unfolding validate_words_iff using bit_ip_word by blast
  also have "\<dots> \<longleftrightarrow> (\<forall>P<128. bit a P \<longrightarrow> \<not> P < 128 - c)"
  proof
    assume *: "\<forall>i<4. \<forall>n<32. bit a (96 - 32 * i + n) \<longrightarrow> 32 * i + (31 - n) < c"
    show "\<forall>P<128. bit a P \<longrightarrow> \<not> P < 128 - c"
    proof (intro allI impI)
      fix P :: nat assume P: "P < 128" "bit a P"
      obtain q r where q: "P = 32 * q + r" "r < 32"
        using mult_div_mod_eq[of 32 P] by (metis mod_less_divisor zero_less_numeral)
      then have "q < 4" using P(1) by linarith
      then have i: "3 - q < 4" "96 - 32 * (3 - q) + r = P" "32 * (3 - q) + (31 - r) = 127 - P" using q by linarith+
      have "bit a (96 - 32 * (3 - q) + r)" using P(2) i(2) by simp
      then have "127 - P < c" using * i(1) q(2) i(3) by metis
      then show "\<not> P < 128 - c" by linarith
    qed
  next
    assume *: "\<forall>P<128. bit a P \<longrightarrow> \<not> P < 128 - c"
    show "\<forall>i<4. \<forall>n<32. bit a (96 - 32 * i + n) \<longrightarrow> 32 * i + (31 - n) < c"
    proof (intro allI impI)
      fix i n :: nat assume i: "i < 4" "n < 32" "bit a (96 - 32 * i + n)"
      then have "\<not> 96 - 32 * i + n < 128 - c" using * by simp
      then show "32 * i + (31 - n) < c" using i(1,2) by linarith
    qed
  qed
  also have "\<dots> \<longleftrightarrow> take_bit (128 - c) a = 0"
    by (auto simp: take_bit_zero_iff) (meson less_le_trans diff_le_self)
  finally show ?thesis .
qed

lemma validate_netmask_eq: "wf_allowedip a \<Longrightarrow> validate_netmask a \<longleftrightarrow> host_part_zero (ip a) (unat (cidr a))"
  by (cases "ip a") (auto simp: validate_netmask_def wf_allowedip_def validate_inet validate_inet6
      simp del: ip_words.simps(3) One_nat_def)


section \<open>Lists with a tail pointer\<close>

text \<open>Both linked lists are built through a pointer to their last node. The contract: while the
  pointer is kept, linking appends.\<close>

locale tail_pointer =
  fixes inv :: "'p \<Rightarrow> 'a list \<Rightarrow> bool"
    and link :: "'p \<Rightarrow> 'a \<Rightarrow> 'a list \<Rightarrow> 'a list"
    and advance :: "'p \<Rightarrow> 'p"
  assumes link_appends: "inv p xs \<Longrightarrow> link p x xs = xs @ [x]"
    and advance_inv: "inv p xs \<Longrightarrow> inv (advance p) (xs @ [x])"
begin

lemma link_inv: "inv p xs \<Longrightarrow> inv (advance p) (link p x xs)"
  by (simp add: link_appends advance_inv)

lemma link_many:
  "inv p xs \<Longrightarrow> foldl (\<lambda>(p, xs) x. (advance p, link p x xs)) (p, xs) ys = ((advance ^^ length ys) p, xs @ ys) \<and>
     inv ((advance ^^ length ys) p) (xs @ ys)"
proof (induction ys arbitrary: p xs)
  case (Cons y ys)
  have "(advance ^^ length (y # ys)) p = (advance ^^ length ys) (advance p)" by (simp add: funpow_swap1)
  then show ?case using Cons.IH[OF advance_inv[OF Cons.prems, of y]] Cons.prems by (simp add: link_appends)
qed simp

end

definition ptr_ok :: "nat option \<Rightarrow> 'a list \<Rightarrow> bool" where
  "ptr_ok p xs \<longleftrightarrow> (case p of None \<Rightarrow> xs = [] | Some i \<Rightarrow> length xs = i + 1)"

interpretation tail: tail_pointer ptr_ok link_after next_ptr
  by unfold_locales (auto simp: ptr_ok_def link_after_def next_ptr_def split: option.splits)

lemma ptr_ok_None [simp]: "ptr_ok None xs \<longleftrightarrow> xs = []"
  by (simp add: ptr_ok_def)

lemma ptr_ok_Some: "ptr_ok (Some i) xs \<longleftrightarrow> length xs = i + 1"
  by (simp add: ptr_ok_def)

lemma ptr_ok_next [simp]: "next_ptr p \<noteq> None"
  by (simp add: next_ptr_def)


section \<open>Entries of AllowedIPs\<close>

lemma parse_cidr_bound: "parse_cidr env addr m = Some c \<Longrightarrow> addr \<noteq> AF_UNSPEC \<Longrightarrow> c \<le> max_cidr addr"
  by (cases addr) (auto simp: parse_cidr_def split: option.splits if_splits prod.splits)

lemma max_cidr_le: "max_cidr a \<le> 128"
  by (cases a) auto

lemma wf_parsed:
  assumes "addr \<noteq> AF_UNSPEC" "parse_cidr env addr m = Some c"
  shows "wf_allowedip \<lparr> ip = addr, cidr = of_nat c, a_flags = f \<rparr>" "unat (of_nat c :: u8) = c"
proof -
  have "c \<le> max_cidr addr" "c \<le> 128" using parse_cidr_bound[OF assms(2,1)] max_cidr_le[of addr] by linarith+
  then show "wf_allowedip \<lparr> ip = addr, cidr = of_nat c, a_flags = f \<rparr>" "unat (of_nat c :: u8) = c"
    using assms(1) by (simp_all add: wf_allowedip_def unat_of_nat)
qed

text \<open>What an entry denotes, without the list it is linked into.\<close>

definition entry_addr :: "env \<Rightarrow> string \<Rightarrow> ip_addr" where
  "entry_addr env iptext = ip (snd (parse_ip env new_allowedip iptext))"

definition entry_of :: "env \<Rightarrow> string \<Rightarrow> config_error + (ip_addr \<times> nat)" where
  "entry_of env m =
     (let (t, m') = strsep (CHR ''/'') m; addr = entry_addr env t
      in if alloc_fails env StrdupEntry m \<or> alloc_fails env CallocAllowedip m then Inl OutOfMemory
         else if addr = AF_UNSPEC then Inl BadIP
         else (case parse_cidr env addr m' of None \<Rightarrow> Inl BadAllowedIP | Some c \<Rightarrow> Inr (addr, c)))"

lemma parse_ip_entry:
  "parse_ip env new_allowedip t = (entry_addr env t \<noteq> AF_UNSPEC, \<lparr> ip = entry_addr env t, cidr = 0, a_flags = 0 \<rparr>)"
  by (simp add: entry_addr_def parse_ip_def new_allowedip_def Let_def)

lemma parse_allowedip_eq:
  assumes "ptr_ok ap (allowedips peer)" "parse_ip_prefix (p_flags peer) 0 entry = (pf, f, m)"
  shows "parse_allowedip env (peer, ap) entry =
    (case entry_of env m of Inl e \<Rightarrow> Inl e
     | Inr (addr, c) \<Rightarrow> Inr (peer\<lparr> p_flags := pf,
         allowedips := allowedips peer @ [\<lparr> ip = addr, cidr = of_nat c, a_flags = f \<rparr>] \<rparr>, next_ptr ap))"
proof -
  obtain t m' where t: "strsep (CHR ''/'') m = (t, m')" by force
  show ?thesis
    by (simp add: parse_allowedip_def entry_of_def assms(2) t Let_def parse_ip_entry tail.link_appends[OF assms(1)]
        split: option.split)
qed

lemma entry_of_wf: "entry_of env m = Inr (addr, c) \<Longrightarrow> wf_allowedip \<lparr> ip = addr, cidr = of_nat c, a_flags = f \<rparr>"
  by (auto simp: entry_of_def Let_def intro: wf_parsed(1) split: prod.splits if_splits option.splits)

lemma wf_peer_snoc:
  "wf_peer p \<Longrightarrow> wf_allowedip a \<Longrightarrow> wf_peer (p\<lparr> p_flags := pf, allowedips := allowedips p @ [a] \<rparr>)"
  by (simp add: wf_peer_def)

lemma parse_allowedip_ok:
  assumes "parse_allowedip env (peer, ap) entry = Inr (peer', ap')" "ptr_ok ap (allowedips peer)" "wf_peer peer"
  shows "ptr_ok ap' (allowedips peer')" "wf_peer peer'"
proof -
  obtain pf f m where p: "parse_ip_prefix (p_flags peer) 0 entry = (pf, f, m)" by (metis prod_cases3)
  obtain addr c where e: "entry_of env m = Inr (addr, c)"
      "peer' = peer\<lparr> p_flags := pf, allowedips := allowedips peer @ [\<lparr> ip = addr, cidr = of_nat c, a_flags = f \<rparr>] \<rparr>"
      "ap' = next_ptr ap"
    using assms(1) unfolding parse_allowedip_eq[OF assms(2) p] by (auto split: sum.splits)
  show "ptr_ok ap' (allowedips peer')" using tail.advance_inv[OF assms(2)] e by simp
  show "wf_peer peer'" unfolding e(2) using assms(3) entry_of_wf[OF e(1)] by (rule wf_peer_snoc)
qed

lemma parse_allowedip_entries_ok:
  "parse_allowedip_entries env (peer, ap) es = Inr (peer', ap') \<Longrightarrow> ptr_ok ap (allowedips peer) \<Longrightarrow> wf_peer peer \<Longrightarrow>
     ptr_ok ap' (allowedips peer') \<and> wf_peer peer'"
proof (induction es arbitrary: peer ap)
  case (Cons e es)
  then obtain peer1 ap1 where 1: "parse_allowedip env (peer, ap) e = Inr (peer1, ap1)"
    "parse_allowedip_entries env (peer1, ap1) es = Inr (peer', ap')"
    by (auto split: sum.splits)
  show ?case using Cons.IH[OF 1(2)] parse_allowedip_ok[OF 1(1) Cons.prems(2,3)] by blast
qed auto

lemma wf_peer_flags [simp]: "wf_peer (p\<lparr> p_flags := f \<rparr>) \<longleftrightarrow> wf_peer p"
  by (simp add: wf_peer_def)

lemma parse_allowedips_ok:
  assumes "parse_allowedips env peer ap v = Inr (peer', ap')" "ptr_ok ap (allowedips peer)" "wf_peer peer"
  shows "ptr_ok ap' (allowedips peer') \<and> wf_peer peer'"
proof (cases "v = []")
  case True
  then show ?thesis using assms by (auto simp: parse_allowedips_def Let_def split: if_splits)
next
  case False
  then show ?thesis using assms parse_allowedip_entries_ok[of env "peer\<lparr> p_flags := set_flag WGPEER_REPLACE_ALLOWEDIPS (p_flags peer) \<rparr>" ap]
    by (auto simp: parse_allowedips_def Let_def split: if_splits)
qed

text \<open>The reference reading of the list: each entry on its own.\<close>

definition incremental :: "string \<Rightarrow> bool" where
  "incremental e \<longleftrightarrow> char_at e 0 = CHR ''-'' \<or> char_at e 0 = CHR ''+''"

definition entry_text :: "string \<Rightarrow> string" where
  "entry_text e = (if incremental e then drop 1 e else e)"

definition entry_flags :: "string \<Rightarrow> u32" where
  "entry_flags e = (if char_at e 0 = CHR ''-'' then WGALLOWEDIP_REMOVE_ME else 0)"

definition entry_error :: "env \<Rightarrow> string \<Rightarrow> config_error option" where
  "entry_error env e = (case entry_of env (entry_text e) of Inl err \<Rightarrow> Some err | Inr _ \<Rightarrow> None)"

definition entry_allowedip :: "env \<Rightarrow> string \<Rightarrow> wgallowedip" where
  "entry_allowedip env e = (case entry_of env (entry_text e) of
      Inr (addr, c) \<Rightarrow> \<lparr> ip = addr, cidr = of_nat c, a_flags = entry_flags e \<rparr> | Inl _ \<Rightarrow> new_allowedip)"

fun first_error :: "env \<Rightarrow> string list \<Rightarrow> config_error option" where
  "first_error env [] = None"
| "first_error env (e # es) = (case entry_error env e of Some err \<Rightarrow> Some err | None \<Rightarrow> first_error env es)"

lemma parse_ip_prefix_eq:
  "parse_ip_prefix pf 0 e = (if incremental e then clear_flag WGPEER_REPLACE_ALLOWEDIPS pf else pf, entry_flags e, entry_text e)"
  by (simp add: parse_ip_prefix_def incremental_def entry_flags_def entry_text_def)

lemma flag_clear_clear: "(x::u32) AND NOT m AND NOT m = x AND NOT m" "((x::u32) OR m) AND NOT m = x AND NOT m"
  by (rule bit_word_eqI; auto simp: bit_simps)+

lemma parse_allowedip_entries_eq:
  "ptr_ok ap (allowedips peer) \<Longrightarrow> parse_allowedip_entries env (peer, ap) es =
    (case first_error env es of Some err \<Rightarrow> Inl err
     | None \<Rightarrow> Inr (peer\<lparr> p_flags := if list_ex incremental es then clear_flag WGPEER_REPLACE_ALLOWEDIPS (p_flags peer) else p_flags peer,
         allowedips := allowedips peer @ map (entry_allowedip env) es \<rparr>, (next_ptr ^^ length es) ap))"
proof (induction es arbitrary: peer ap)
  case (Cons e es)
  note P = parse_allowedip_eq[OF Cons.prems parse_ip_prefix_eq]
  show ?case
  proof (cases "entry_of env (entry_text e)")
    case (Inl err)
    then show ?thesis by (simp add: P entry_error_def)
  next
    case (Inr x)
    obtain addr c where x: "x = (addr, c)" by force
    let ?a = "\<lparr> ip = addr, cidr = of_nat c, a_flags = entry_flags e \<rparr>"
    let ?pf = "if incremental e then clear_flag WGPEER_REPLACE_ALLOWEDIPS (p_flags peer) else p_flags peer"
    have "ptr_ok (next_ptr ap) (allowedips (peer\<lparr> p_flags := ?pf, allowedips := allowedips peer @ [?a] \<rparr>))"
      using tail.advance_inv[OF Cons.prems] by simp
    note IH = Cons.IH[OF this]
    have "entry_allowedip env e = ?a" "entry_error env e = None"
      using Inr x by (simp_all add: entry_allowedip_def entry_error_def)
    then show ?thesis using Inr x by (simp add: P IH flag_clear_clear funpow_swap1 split: option.split)
  qed
qed simp

lemma parse_allowedips_eq:
  assumes "ptr_ok ap (allowedips peer)" "\<not> alloc_fails env StrdupAllowedips v" "v \<noteq> []"
  shows "parse_allowedips env peer ap v =
    (case first_error env (strsep_tokens (CHR '','') v) of Some err \<Rightarrow> Inl err
     | None \<Rightarrow> Inr (peer\<lparr>
         p_flags := if list_ex incremental (strsep_tokens (CHR '','') v)
                    then clear_flag WGPEER_REPLACE_ALLOWEDIPS (p_flags peer)
                    else set_flag WGPEER_REPLACE_ALLOWEDIPS (p_flags peer),
         allowedips := allowedips peer @ map (entry_allowedip env) (strsep_tokens (CHR '','') v) \<rparr>,
         (next_ptr ^^ length (strsep_tokens (CHR '','') v)) ap))"
  using assms parse_allowedip_entries_eq[of ap "peer\<lparr> p_flags := set_flag WGPEER_REPLACE_ALLOWEDIPS (p_flags peer) \<rparr>" env]
  by (simp add: parse_allowedips_def flag_clear_clear split: option.split)


section \<open>The invariant of the line reader\<close>

definition ctx_ok :: "config_ctx \<Rightarrow> bool" where
  "ctx_ok ctx \<longleftrightarrow> wf_device (device ctx) \<and> ptr_ok (last_peer ctx) (peers (device ctx)) \<and>
     (is_peer_section ctx \<longrightarrow> last_peer ctx \<noteq> None) \<and> \<not> (is_peer_section ctx \<and> is_device_section ctx) \<and>
     (case last_peer ctx of None \<Rightarrow> last_allowedip ctx = None
      | Some i \<Rightarrow> ptr_ok (last_allowedip ctx) (allowedips (peers (device ctx) ! i)))"

lemma parse_key_length:
  "parse_key env key v = (True, k) \<Longrightarrow> length key = WG_KEY_LEN \<Longrightarrow> length k = WG_KEY_LEN"
  by (simp add: parse_key_True)

lemma process_device_line_ok:
  assumes "process_device_line env dev line = Inr dev'" "wf_device dev"
  shows "wf_device dev'" "peers dev' = peers dev"
  using assms
  by (auto simp: process_device_line_def wf_device_def dest: parse_key_length
      split: option.splits sum.splits prod.splits bool.splits)

lemma process_peer_line_ok:
  assumes "process_peer_line env peer ap line = Inr (peer', ap')" "wf_peer peer" "ptr_ok ap (allowedips peer)"
  shows "wf_peer peer'" "ptr_ok ap' (allowedips peer')"
  using assms parse_allowedips_ok[of env peer ap _ peer' ap']
  by (auto simp: process_peer_line_def wf_peer_def dest: parse_key_length
      split: option.splits sum.splits prod.splits bool.splits)

lemma resolve_loop_error:
  assumes "resolve_loop f a r t s = Some (Inl e, ps)"
  shows "\<exists>g. e = ResolverError g"
proof -
  have "\<forall>e. fst y = Inl e \<longrightarrow> (\<exists>g. e = ResolverError g)"
    if "resolve_loop f a r t s = Some y" for y
    by (rule resolve_loop.raw_induct[OF _ that,
          where P = "\<lambda>f a r t s y. \<forall>e. fst y = Inl e \<longrightarrow> (\<exists>g. e = ResolverError g)"])
      (auto split: gai_result.splits if_splits)
  from this[OF assms] show ?thesis by simp
qed

lemma parse_endpoint_no_null: "parse_endpoint env v \<noteq> Inl NullPointer"
proof -
  have 1: "parse_dns_retries env \<noteq> Inl NullPointer"
    by (simp add: parse_dns_retries_def split: option.split prod.split)
  have 2: "split_endpoint v \<noteq> Inl NullPointer"
    by (simp add: split_endpoint_def split: option.split)
  have 3: "resolve_loop f a r t s \<noteq> Some (Inl NullPointer, ps)" for f a r t s ps
    using resolve_loop_error[of f a r t s NullPointer ps] by blast
  show ?thesis using 1 2 3 by (simp add: parse_endpoint_def split: sum.split option.split prod.split) metis
qed

lemma no_null_pointer:
  "parse_port env fl v \<noteq> Inl NullPointer" "parse_fwmark env fl v \<noteq> Inl NullPointer"
  "parse_persistent_keepalive env fl v \<noteq> Inl NullPointer"
  "parse_keyfile env k v \<noteq> Inl NullPointer" "parse_allowedip env st v \<noteq> Inl NullPointer"
  by (simp_all add: parse_port_def parse_fwmark_def parse_persistent_keepalive_def parse_keyfile_def parse_allowedip_def Let_def
       split: option.split prod.split gai_result.split bool.split)

lemma parse_allowedips_no_null: "parse_allowedips env p ap v \<noteq> Inl NullPointer"
proof -
  have "parse_allowedip_entries env st es \<noteq> Inl NullPointer" for st es
    by (induction env st es rule: parse_allowedip_entries.induct) (auto simp: no_null_pointer split: sum.splits)
  then show ?thesis by (simp add: parse_allowedips_def Let_def)
qed

lemma process_line_no_null:
  "process_device_line env dev line \<noteq> Inl NullPointer" "process_peer_line env peer ap line \<noteq> Inl NullPointer"
  by (auto simp: process_device_line_def process_peer_line_def no_null_pointer parse_endpoint_no_null parse_allowedips_no_null
      split: option.splits sum.splits prod.splits bool.splits)

lemma wf_device_peers:
  "wf_device d \<Longrightarrow> wf_device (d\<lparr> peers := ps \<rparr>) \<longleftrightarrow> list_all wf_peer ps"
  by (simp add: wf_device_def)

lemma process_peer_header_ok:
  assumes "ctx_ok ctx" "process_peer_header env ctx line = Inr ctx'"
  shows "ctx_ok ctx'"
proof -
  have p: "ptr_ok (last_peer ctx) (peers (device ctx))" "wf_device (device ctx)" using assms(1) by (auto simp: ctx_ok_def)
  let ?p = "new_peer\<lparr> p_flags := set_flag WGPEER_REPLACE_ALLOWEDIPS 0 \<rparr>"
  obtain i where i: "next_ptr (last_peer ctx) = Some i" "i = length (peers (device ctx))"
    using p(1) by (cases "last_peer ctx") (auto simp: next_ptr_def ptr_ok_Some)
  have "ptr_ok (Some i) (peers (device ctx) @ [?p])" using tail.advance_inv[OF p(1)] i by simp
  moreover have "wf_device ((device ctx)\<lparr> peers := peers (device ctx) @ [?p] \<rparr>)"
    using p(2) by (simp add: wf_device_def)
  moreover have "allowedips ?p = []" by (simp add: new_peer_def)
  ultimately show ?thesis
    using assms(2) i by (auto simp: process_peer_header_def ctx_ok_def tail.link_appends[OF p(1)] split: if_splits)
qed

lemma process_line_ok:
  assumes "ctx_ok ctx"
  shows "process_line env ctx line = Inr ctx' \<Longrightarrow> ctx_ok ctx'" "process_line env ctx line \<noteq> Inl NullPointer"
proof -
  have w: "wf_device (device ctx)" "ptr_ok (last_peer ctx) (peers (device ctx))" using assms by (auto simp: ctx_ok_def)
  consider (i) "strcaseeq line ''[Interface]''" | (p) "\<not> strcaseeq line ''[Interface]''" "strcaseeq line ''[Peer]''"
    | (l) "\<not> strcaseeq line ''[Interface]''" "\<not> strcaseeq line ''[Peer]''" by blast
  then have "(process_line env ctx line = Inr ctx' \<longrightarrow> ctx_ok ctx') \<and> process_line env ctx line \<noteq> Inl NullPointer"
  proof cases
    case i
    then show ?thesis using assms by (auto simp: process_line_def ctx_ok_def split: option.splits)
  next
    case p
    then show ?thesis using process_peer_header_ok[OF assms, of env line ctx']
      by (auto simp: process_line_def) (auto simp: process_peer_header_def split: if_splits)
  next
    case l
    show ?thesis
    proof (cases "is_device_section ctx")
      case True
      have "ctx_ok (ctx\<lparr> device := dev \<rparr>)" if "process_device_line env (device ctx) line = Inr dev" for dev
        using assms process_device_line_ok[OF that w(1)] by (auto simp: ctx_ok_def split: option.splits)
      then show ?thesis using l True process_line_no_null(1)
        by (auto simp: process_line_def split: sum.splits)
    next
      case dev: False
      show ?thesis
      proof (cases "is_peer_section ctx")
        case True
        then obtain i where i: "last_peer ctx = Some i" using assms by (auto simp: ctx_ok_def)
        then have len: "length (peers (device ctx)) = i + 1" using w(2) by (simp add: ptr_ok_Some)
        let ?peer = "peers (device ctx) ! i"
        have pk: "wf_peer ?peer" "ptr_ok (last_allowedip ctx) (allowedips ?peer)"
          using assms i len by (auto simp: ctx_ok_def wf_device_def list_all_length)
        have "ctx_ok (ctx\<lparr> device := (device ctx)\<lparr> peers := (peers (device ctx))[i := peer] \<rparr>, last_allowedip := ap \<rparr>)"
          if "process_peer_line env ?peer (last_allowedip ctx) line = Inr (peer, ap)" for peer ap
          using process_peer_line_ok[OF that pk] assms i len w
          by (auto simp: ctx_ok_def wf_device_def ptr_ok_Some list_all_iff dest: set_update_subset_insert[THEN subsetD])
        then show ?thesis using l True dev i len process_line_no_null(2)
          by (auto simp: process_line_def split: sum.splits)
      next
        case False
        then show ?thesis using l dev by (simp add: process_line_def)
      qed
    qed
  qed
  then show "process_line env ctx line = Inr ctx' \<Longrightarrow> ctx_ok ctx'" "process_line env ctx line \<noteq> Inl NullPointer" by blast+
qed

lemma config_read_line_ok:
  assumes "ctx_ok ctx"
  shows "config_read_line env ctx line = Inr ctx' \<Longrightarrow> ctx_ok ctx'" "config_read_line env ctx line \<noteq> Inl NullPointer"
  using assms process_line_ok[OF assms] by (auto simp: config_read_line_def split: if_splits)

lemma config_read_init_ok: "config_read_init env addconf = Inr ctx \<Longrightarrow> ctx_ok ctx"
  by (auto simp: config_read_init_def ctx_ok_def wf_device_def new_device_def split: if_splits)

section \<open>What the reader promises\<close>

text \<open>C5. Every line of a configuration file, whatever it holds, leaves the reader in order: the device is
  well formed, the tail pointers designate the last nodes of their lists, a peer section has a
  peer. In particular no line makes the code follow a null pointer.\<close>

theorem config_read_line_safe:
  assumes "ctx_ok ctx"
  shows "case config_read_line env ctx line of Inr ctx' \<Rightarrow> ctx_ok ctx' | Inl e \<Rightarrow> e \<noteq> NullPointer"
  using config_read_line_ok[OF assms] by (auto split: sum.split)

definition empty_ctx :: config_ctx where
  "empty_ctx = \<lparr> device = new_device, last_peer = None, last_allowedip = None,
     is_peer_section = False, is_device_section = False \<rparr>"

theorem config_read_line_safe_witness:
  "\<exists>ctx'. config_read_line plain_env empty_ctx '' [PEER] # first'' = Inr ctx' \<and> is_peer_section ctx' \<and> ctx_ok ctx'"
proof -
  let ?l = "'' [PEER] # first''"
  have ok: "ctx_ok empty_ctx" by (simp add: ctx_ok_def empty_ctx_def new_device_def wf_device_def)
  have s: "strip_line plain_env ?l = ''[PEER]''"
    by (simp add: strip_line_def)
  have "strcaseeq ''[PEER]'' ''[Peer]''" "\<not> strcaseeq ''[PEER]'' ''[Interface]''"
    by (simp_all add: strcaseeq_def tolower_def char_of_def bit_iff_odd)
  then have "\<exists>ctx'. config_read_line plain_env empty_ctx ?l = Inr ctx' \<and> is_peer_section ctx'"
    by (simp add: config_read_line_def s process_line_def process_peer_header_def) (simp add: plain_env_def)
  then show ?thesis using config_read_line_safe[OF ok, of plain_env ?l] by auto
qed

text \<open>C11. A device that \<^verbatim>\<open>config_read_finish\<close> releases has a public key in every peer, and is the device read.\<close>

theorem config_read_finish_iff:
  "config_read_finish ctx = Inr dev \<longleftrightarrow>
     dev = device ctx \<and> (\<forall>p \<in> set (peers dev). flag_test (p_flags p) WGPEER_HAS_PUBLIC_KEY)"
  by (auto simp: config_read_finish_def list_ex_iff)

theorem config_read_finish_iff_witness:
  "config_read_finish empty_ctx = Inr new_device"
  using config_read_finish_iff[of empty_ctx new_device] by (simp add: empty_ctx_def new_device_def)

text \<open>C13. An \<^verbatim>\<open>AllowedIPs\<close> value is read entry by entry: the first entry in error decides the error, and
  otherwise the entries are appended in order. The peer's list is marked for replacement unless
  some entry has a sign.\<close>

theorem parse_allowedips_spec:
  assumes "ptr_ok ap (allowedips peer)" "\<not> alloc_fails env StrdupAllowedips v" "v \<noteq> []"
  shows "parse_allowedips env peer ap v =
    (case first_error env (strsep_tokens (CHR '','') v) of Some err \<Rightarrow> Inl err
     | None \<Rightarrow> Inr (peer\<lparr>
         p_flags := if list_ex incremental (strsep_tokens (CHR '','') v)
                    then clear_flag WGPEER_REPLACE_ALLOWEDIPS (p_flags peer)
                    else set_flag WGPEER_REPLACE_ALLOWEDIPS (p_flags peer),
         allowedips := allowedips peer @ map (entry_allowedip env) (strsep_tokens (CHR '','') v) \<rparr>,
         (next_ptr ^^ length (strsep_tokens (CHR '','') v)) ap))"
  by (rule parse_allowedips_eq[OF assms])

theorem parse_allowedips_spec_witness:
  "parse_allowedips (plain_env\<lparr> inet_pton4 := \<lambda>_. Some 7 \<rparr>) new_peer None ''+a/8''
     = Inr (new_peer\<lparr> p_flags := 0, allowedips := [\<lparr> ip = AF_INET 7, cidr = 8, a_flags = 0 \<rparr>] \<rparr>, Some 0)"
proof -
  let ?e = "plain_env\<lparr> inet_pton4 := \<lambda>_. Some 7 \<rparr>"
  have t: "strsep_tokens (CHR '','') ''+a/8'' = [''+a/8'']" by (rule strsep_tokens_none) simp
  have "strtoul 64 10 ''8'' = (8, [])" using strtoul_dec[of "[]" 64 8] by (simp add: numstr.simps digit_char_def char_of_def bit_iff_odd)
  then have "entry_of ?e ''a/8'' = Inr (AF_INET 7, 8)"
    by (simp add: entry_of_def strsep_def entry_addr_def parse_ip_def parse_cidr_def plain_env_def char_at_def new_allowedip_def)
  then have "entry_error ?e ''+a/8'' = None" "entry_allowedip ?e ''+a/8'' = \<lparr> ip = AF_INET 7, cidr = 8, a_flags = 0 \<rparr>"
    by (simp_all add: entry_error_def entry_allowedip_def entry_text_def entry_flags_def incremental_def char_at_def)
  moreover have "incremental ''+a/8''" by (simp add: incremental_def char_at_def)
  ultimately show ?thesis
    using parse_allowedips_spec[of None new_peer ?e "''+a/8''"]
    by (simp add: t plain_env_def new_peer_def next_ptr_def)
qed

text \<open>C12. The word-wise netmask check is true exactly when all bits behind the prefix are zero, for both
  families.\<close>

theorem validate_netmask_iff:
  assumes "wf_allowedip a"
  shows "validate_netmask a \<longleftrightarrow> host_part_zero (ip a) (unat (cidr a))"
  by (rule validate_netmask_eq[OF assms])

theorem validate_netmask_iff_witness:
  "validate_netmask \<lparr> ip = AF_INET 0x0A000000, cidr = 8, a_flags = 0 \<rparr> \<and>
   \<not> validate_netmask \<lparr> ip = AF_INET6 1, cidr = 127, a_flags = 0 \<rparr>"
proof -
  have "wf_allowedip \<lparr> ip = AF_INET 0x0A000000, cidr = 8, a_flags = 0 \<rparr>"
    "wf_allowedip \<lparr> ip = AF_INET6 1, cidr = 127, a_flags = 0 \<rparr>"
    by (simp_all add: wf_allowedip_def)
  then show ?thesis using validate_netmask_iff by simp
qed

text \<open>The warning about a nonzero host part prints the text behind the slash, a null pointer if there
  is none; but without a slash the check cannot fail, so a null pointer is never printed.\<close>

theorem netmask_warning_has_mask:
  assumes "parse_cidr env addr slash = Some c" "addr \<noteq> AF_UNSPEC"
    and "\<not> validate_netmask \<lparr> ip = addr, cidr = of_nat c, a_flags = f \<rparr>"
  shows "slash \<noteq> None"
proof
  assume "slash = None"
  then have "c = max_cidr addr" using assms(1,2) by (cases addr) (auto simp: parse_cidr_def)
  moreover have "wf_allowedip \<lparr> ip = addr, cidr = of_nat c, a_flags = f \<rparr>" "unat (of_nat c :: u8) = c"
    using wf_parsed[OF assms(2,1)] by blast+
  ultimately show False using assms(2,3) by (cases addr) (auto simp: validate_netmask_eq)
qed

theorem netmask_warning_has_mask_witness: "Some ''8'' \<noteq> (None :: string option)"
proof (rule netmask_warning_has_mask[of plain_env "AF_INET 7" "Some ''8''" 8 0])
  have "strtoul 64 10 ''8'' = (8, [])" using strtoul_dec[of "[]" 64 8] by (simp add: numstr.simps digit_char_def char_of_def bit_iff_odd)
  then show "parse_cidr plain_env (AF_INET 7) (Some ''8'') = Some 8"
    by (simp add: parse_cidr_def plain_env_def char_at_def)
  show "\<not> validate_netmask \<lparr> ip = AF_INET 7, cidr = of_nat 8, a_flags = 0 \<rparr>"
    by (subst validate_netmask_eq) (simp_all add: wf_allowedip_def)
qed simp

end
