(* ===== verification/Config_Cmd.thy ===== *)
theory Config_Cmd
  imports Config
begin

text \<open>
  What \<^verbatim>\<open>config_read_cmd\<close> promises to \<^verbatim>\<open>wg set\<close>: the invariant of its argument loop.
\<close>

definition has_public_key :: "wgpeer \<Rightarrow> bool" where
  "has_public_key p \<longleftrightarrow> flag_test (p_flags p) WGPEER_HAS_PUBLIC_KEY"

definition args_ok :: "wgdevice \<Rightarrow> nat option \<Rightarrow> nat option \<Rightarrow> bool" where
  "args_ok dev peer aip \<longleftrightarrow> wf_device dev \<and> list_all has_public_key (peers dev) \<and> ptr_ok peer (peers dev) \<and>
     (case peer of None \<Rightarrow> aip = None | Some i \<Rightarrow> ptr_ok aip (allowedips (peers dev ! i)))"

lemma has_public_key_flags [simp]:
  "has_public_key (p\<lparr> endpoint := sa \<rparr>) = has_public_key p"
  "has_public_key (p\<lparr> public_key := k \<rparr>) = has_public_key p"
  "has_public_key (p\<lparr> preshared_key := k \<rparr>) = has_public_key p"
  "has_public_key (p\<lparr> persistent_keepalive_interval := n \<rparr>) = has_public_key p"
  "has_public_key (p\<lparr> allowedips := as \<rparr>) = has_public_key p"
  "has_public_key (p\<lparr> p_flags := f OR m \<rparr>) = (flag_test f WGPEER_HAS_PUBLIC_KEY \<or> flag_test m WGPEER_HAS_PUBLIC_KEY)"
  by (simp_all add: has_public_key_def flag_test_or)

lemma args_ok_device:
  "args_ok dev peer aip \<Longrightarrow> peers dev' = peers dev \<Longrightarrow> wf_device dev' \<Longrightarrow> args_ok dev' peer aip"
  by (cases peer) (simp_all add: args_ok_def)

lemma args_ok_update:
  assumes "args_ok dev peer aip" "peer = Some i" "wf_peer (f (peers dev ! i))" "has_public_key (f (peers dev ! i))"
    "ptr_ok aip' (allowedips (f (peers dev ! i)))"
  shows "args_ok (update_peer peer f dev) peer aip'"
  using assms by (auto simp: args_ok_def update_peer_def wf_device_def ptr_ok_Some list_all_length nth_list_update)

lemma args_ok_new_peer:
  assumes "args_ok dev peer aip" "wf_peer p" "has_public_key p" "allowedips p = []"
  shows "args_ok (dev\<lparr> peers := link_after peer p (peers dev) \<rparr>) (next_ptr peer) None"
proof -
  have p: "ptr_ok peer (peers dev)" using assms(1) by (simp add: args_ok_def)
  have "next_ptr peer = Some (length (peers dev))"
    using p by (cases peer) (auto simp: next_ptr_def ptr_ok_Some)
  then show ?thesis using assms tail.advance_inv[OF p, of p]
    by (simp add: args_ok_def tail.link_appends[OF p] wf_device_def)
qed

lemma args_ok_last:
  assumes "args_ok dev (Some i) aip"
  shows "wf_peer (peers dev ! i)" "has_public_key (peers dev ! i)" "ptr_ok aip (allowedips (peers dev ! i))"
  using assms by (auto simp: args_ok_def wf_device_def ptr_ok_Some list_all_length)

lemma parse_keyfile_length:
  "parse_keyfile env k f = Inr k' \<Longrightarrow> length k = WG_KEY_LEN \<Longrightarrow> length k' = WG_KEY_LEN"
  by (auto simp: parse_keyfile_def Let_def dest: parse_key_length split: option.splits if_splits prod.splits bool.splits)

lemma parse_persistent_keepalive_flags:
  "parse_persistent_keepalive env fl v = Inr (n, fl') \<Longrightarrow> fl' = set_flag WGPEER_HAS_PERSISTENT_KEEPALIVE_INTERVAL fl"
  by (auto simp: parse_persistent_keepalive_def Let_def split: if_splits prod.splits)

lemma flag_test_clear_other:
  "flag_test (f AND NOT WGPEER_REPLACE_ALLOWEDIPS) WGPEER_HAS_PUBLIC_KEY = flag_test f WGPEER_HAS_PUBLIC_KEY"
  by (simp add: WGPEER_REPLACE_ALLOWEDIPS_def WGPEER_HAS_PUBLIC_KEY_def flag_test_clear)

lemma parse_allowedips_public_key:
  assumes "parse_allowedips env p ap v = Inr (p', ap')" "ptr_ok ap (allowedips p)" "has_public_key p"
  shows "has_public_key p'"
proof (cases "v = []")
  case True
  then show ?thesis using assms by (auto simp: parse_allowedips_def Let_def has_public_key_def flag_test_or split: if_splits)
next
  case False
  have "\<not> alloc_fails env StrdupAllowedips v" using assms(1) by (auto simp: parse_allowedips_def)
  from assms(1)[unfolded parse_allowedips_eq[OF assms(2) this False]] assms(3) show ?thesis
    by (auto simp: has_public_key_def flag_test_or flag_test_clear_other split: option.splits if_splits)
qed

text \<open>One pass of the loop: on success the rest is read in a state that is in order again.\<close>

definition continues :: "env \<Rightarrow> string list \<Rightarrow> config_error + wgdevice \<Rightarrow> bool" where
  "continues env rest r \<longleftrightarrow> (\<forall>dev'. r = Inr dev' \<longrightarrow> (\<exists>dev1 peer1 aip1 rest1. length rest1 \<le> length rest \<and>
     args_ok dev1 peer1 aip1 \<and> config_read_args env dev1 peer1 aip1 rest1 = Inr dev'))"

lemma continuesI:
  "args_ok dev1 peer1 aip1 \<Longrightarrow> length rest1 \<le> length rest \<Longrightarrow>
     continues env rest (config_read_args env dev1 peer1 aip1 rest1)"
  unfolding continues_def by blast

lemma continues_Inl [simp]: "continues env rest (Inl e)"
  by (simp add: continues_def)

lemma continues_if: "(c \<Longrightarrow> continues env rest a) \<Longrightarrow> (\<not> c \<Longrightarrow> continues env rest b) \<Longrightarrow> continues env rest (if c then a else b)"
  by simp

lemma continues_case: "(\<And>x. r = Inr x \<Longrightarrow> continues env rest (f x)) \<Longrightarrow> continues env rest (case r of Inl e \<Rightarrow> Inl e | Inr x \<Rightarrow> f x)"
  by (cases r) auto

lemma continues_prod: "(\<And>a b. p = (a, b) \<Longrightarrow> continues env rest (f a b)) \<Longrightarrow> continues env rest (case p of (a, b) \<Rightarrow> f a b)"
  by (cases p) auto

lemma continues_bool: "(b \<Longrightarrow> continues env rest x) \<Longrightarrow> continues env rest (case b of True \<Rightarrow> x | False \<Rightarrow> Inl e)"
  by (cases b) auto

lemma wf_device_simps [simp]:
  "wf_device (dev\<lparr> listen_port := a, d_flags := f \<rparr>) = wf_device dev"
  "wf_device (dev\<lparr> fwmark := b, d_flags := f \<rparr>) = wf_device dev"
  "length k = WG_KEY_LEN \<Longrightarrow> wf_device dev \<Longrightarrow> wf_device (dev\<lparr> private_key := k, d_flags := f \<rparr>)"
  by (auto simp: wf_device_def)

lemma config_read_args_step:
  assumes ok: "args_ok dev peer aip"
  shows "continues env rest (config_read_args env dev peer aip (arg # rest))"
proof -
  have wf: "wf_device dev" "length (private_key dev) = WG_KEY_LEN" using ok by (auto simp: args_ok_def wf_device_def)
  have tl: "length (tl rest) \<le> length rest" by simp
  have last: "wf_peer (peers dev ! the peer)" "has_public_key (peers dev ! the peer)"
    "ptr_ok aip (allowedips (peers dev ! the peer))" if "peer \<noteq> None"
    using that args_ok_last[of dev "the peer" aip] ok by auto
  have upd: "args_ok (update_peer peer f dev) peer aip'"
    if "peer \<noteq> None" "wf_peer (f (peers dev ! the peer))" "has_public_key (f (peers dev ! the peer))"
      "ptr_ok aip' (allowedips (f (peers dev ! the peer)))" for f aip'
    using that ok by (auto intro: args_ok_update)
  have keylen: "length (preshared_key p) = WG_KEY_LEN" if "wf_peer p" for p using that by (simp add: wf_peer_def)
  have new: "args_ok (dev\<lparr> peers := link_after peer (new_peer\<lparr> public_key := k, p_flags := set_flag WGPEER_HAS_PUBLIC_KEY 0 \<rparr>) (peers dev) \<rparr>)
      (next_ptr peer) None" if "length k = WG_KEY_LEN" for k
    by (rule args_ok_new_peer[OF ok]) (use that in \<open>simp_all add: wf_peer_def new_peer_def has_public_key_def flag_defs flag_simps\<close>)
  show ?thesis
    unfolding config_read_args.simps(2)
    apply (intro continues_if continues_case continues_prod continues_bool continues_Inl continuesI tl)
    subgoal using args_ok_device[OF ok] wf by simp
    subgoal using args_ok_device[OF ok] wf by simp
    subgoal using args_ok_device[OF ok] wf by (simp add: parse_keyfile_length)
    subgoal using new by (simp add: parse_key_True new_peer_def)
    subgoal using last upd by (simp add: has_public_key_def flag_test_or)
    subgoal by simp
    subgoal using last upd by (simp add: wf_peer_def)
    subgoal using last upd parse_allowedips_ok parse_allowedips_public_key by simp
    subgoal using last upd by (auto simp: wf_peer_def has_public_key_def flag_test_or dest!: parse_persistent_keepalive_flags)
    subgoal using last upd by (simp add: wf_peer_def has_public_key_def flag_test_or parse_keyfile_length)
    done
qed

lemma config_read_args_ok:
  "args_ok dev peer aip \<Longrightarrow> config_read_args env dev peer aip args = Inr dev' \<Longrightarrow>
     wf_device dev' \<and> list_all has_public_key (peers dev')"
proof (induction "length args" arbitrary: dev peer aip args rule: less_induct)
  case less
  show ?case
  proof (cases args)
    case Nil
    then show ?thesis using less.prems by (simp add: args_ok_def)
  next
    case (Cons arg rest)
    obtain dev1 peer1 aip1 rest1 where "length rest1 \<le> length rest" "args_ok dev1 peer1 aip1"
      "config_read_args env dev1 peer1 aip1 rest1 = Inr dev'"
      using config_read_args_step[OF less.prems(1), of env rest arg] less.prems(2) Cons unfolding continues_def by auto
    then show ?thesis using less.hyps[of rest1] Cons by auto
  qed
qed

text \<open>C26. Whatever the arguments of \<^verbatim>\<open>wg set\<close>, a device that \<^verbatim>\<open>config_read_cmd\<close> returns is well formed (keys of
  32 bytes, prefix lengths within their family) and every peer in it carries a public key.\<close>

theorem config_read_cmd_sound:
  assumes "config_read_cmd env argv = Inr dev"
  shows "wf_device dev \<and> list_all (\<lambda>p. flag_test (p_flags p) WGPEER_HAS_PUBLIC_KEY) (peers dev)"
proof -
  have "args_ok new_device None None" by (simp add: args_ok_def new_device_def wf_device_def)
  then show ?thesis
    using config_read_args_ok[of new_device None None env argv dev] assms
    by (auto simp: config_read_cmd_def list_all_iff has_public_key_def split: if_splits)
qed

theorem config_read_cmd_sound_witness:
  "\<exists>dev. config_read_cmd plain_env [''fwmark'', ''7'', ''peer'', key_to_base64 (replicate 32 9), ''remove''] = Inr dev \<and>
     wf_device dev \<and> list_all (\<lambda>p. flag_test (p_flags p) WGPEER_HAS_PUBLIC_KEY) (peers dev)"
proof -
  have k: "parse_key plain_env zero_key (key_to_base64 (replicate 32 9)) = (True, replicate 32 9)"
    by (simp add: parse_key_True)
  have f: "parse_fwmark plain_env 0 ''7'' = Inr (7, set_flag WGDEVICE_HAS_FWMARK 0)"
    by (subst parse_fwmark_eq) (simp_all add: plain_env_def strcaseeq_def all_digits_def numval_def digit_val_def)
  have "\<exists>dev. config_read_cmd plain_env [''fwmark'', ''7'', ''peer'', key_to_base64 (replicate 32 9), ''remove''] = Inr dev"
    using k f by (simp add: config_read_cmd_def config_read_args.simps(2) new_device_def new_peer_def)
      (simp add: plain_env_def next_ptr_def)
  then show ?thesis using config_read_cmd_sound by blast
qed

end
