(* ===== verification/Syncconf.thy ===== *)
theory Syncconf
  imports Config_Cmd "HOL-Library.List_Lexorder" "HOL-Library.Multiset"
begin

text \<open>
  Model of \<^verbatim>\<open>sync_conf\<close> of \<^verbatim>\<open>wireguard-tools/src/setconf.c\<close>, which turns a configuration that would
  replace all peers into one that changes the running interface to the same effect. The kernel
  interface, \<^verbatim>\<open>qsort\<close> and the allocator are parameters. The array of \<^verbatim>\<open>struct peer_origin\<close> refers to peers by their index in the list they
  come from, so that changes made through it are changes of the file's peers.
\<close>

section \<open>Comparing and sorting\<close>

fun memcmp :: "u8 list \<Rightarrow> u8 list \<Rightarrow> int" where
  "memcmp (x # xs) (y # ys) = (if x = y then memcmp xs ys else uint x - uint y)"
| "memcmp _ _ = 0"

record peer_origin =
  po_peer :: nat
  from_file :: bool

definition origin_peer :: "wgpeer list \<Rightarrow> wgpeer list \<Rightarrow> peer_origin \<Rightarrow> wgpeer" where
  "origin_peer fs rs o1 = (if from_file o1 then fs ! po_peer o1 else rs ! po_peer o1)"

definition peer_cmp :: "wgpeer list \<Rightarrow> wgpeer list \<Rightarrow> peer_origin \<Rightarrow> peer_origin \<Rightarrow> int" where
  "peer_cmp fs rs a b =
     (let ret = memcmp (public_key (origin_peer fs rs a)) (public_key (origin_peer fs rs b))
      in if ret \<noteq> 0 then ret else of_bool (from_file a) - of_bool (from_file b))"

text \<open>What the code relies on of \<^verbatim>\<open>qsort\<close>: for a comparison function that is a total preorder the result is
  a permutation in ascending order. Nothing is said of elements that compare equal.\<close>

definition total_preorder :: "('a \<Rightarrow> 'a \<Rightarrow> int) \<Rightarrow> 'a set \<Rightarrow> bool" where
  "total_preorder cmp A \<longleftrightarrow> (\<forall>a \<in> A. \<forall>b \<in> A. cmp a b \<le> 0 \<or> cmp b a \<le> 0) \<and>
     (\<forall>a \<in> A. \<forall>b \<in> A. \<forall>c \<in> A. cmp a b \<le> 0 \<longrightarrow> cmp b c \<le> 0 \<longrightarrow> cmp a c \<le> 0)"

type_synonym 'a qsort = "('a \<Rightarrow> 'a \<Rightarrow> int) \<Rightarrow> 'a list \<Rightarrow> 'a list"

locale qsort_spec =
  fixes qsort :: "'a qsort"
  assumes qsort_mset: "total_preorder cmp (set xs) \<Longrightarrow> mset (qsort cmp xs) = mset xs"
    and qsort_sorted: "total_preorder cmp (set xs) \<Longrightarrow> sorted_wrt (\<lambda>a b. cmp a b \<le> 0) (qsort cmp xs)"
begin

lemma qsort_set: "total_preorder cmp (set xs) \<Longrightarrow> set (qsort cmp xs) = set xs"
  using qsort_mset mset_eq_setD by blast

lemma qsort_length: "total_preorder cmp (set xs) \<Longrightarrow> length (qsort cmp xs) = length xs"
  using qsort_mset mset_eq_length by blast

lemma qsort_distinct: "total_preorder cmp (set xs) \<Longrightarrow> distinct xs \<Longrightarrow> distinct (qsort cmp xs)"
  using qsort_mset mset_eq_imp_distinct_iff by blast

end

fun insert_by :: "('a \<Rightarrow> 'a \<Rightarrow> int) \<Rightarrow> 'a \<Rightarrow> 'a list \<Rightarrow> 'a list" where
  "insert_by cmp x [] = [x]"
| "insert_by cmp x (y # ys) = (if cmp x y \<le> 0 then x # y # ys else y # insert_by cmp x ys)"

definition insertion_sort :: "'a qsort" where
  "insertion_sort cmp xs = foldr (insert_by cmp) xs []"

lemma mset_insert_by: "mset (insert_by cmp x ys) = add_mset x (mset ys)"
  by (induction ys) auto

lemma set_insert_by: "set (insert_by cmp x ys) = insert x (set ys)"
  using mset_insert_by[of cmp x ys] by (metis set_mset_mset set_mset_add_mset_insert)

lemma mset_insertion_sort: "mset (foldr (insert_by cmp) xs []) = mset xs"
  by (induction xs) (auto simp: mset_insert_by)

lemma sorted_insert_by:
  "total_preorder cmp A \<Longrightarrow> x \<in> A \<Longrightarrow> set ys \<subseteq> A \<Longrightarrow> sorted_wrt (\<lambda>a b. cmp a b \<le> 0) ys \<Longrightarrow>
     sorted_wrt (\<lambda>a b. cmp a b \<le> 0) (insert_by cmp x ys)"
proof (induction ys)
  case (Cons y ys)
  show ?case
  proof (cases "cmp x y \<le> 0")
    case True
    moreover have "cmp x z \<le> 0" if "z \<in> set ys" for z
      using Cons.prems True that unfolding total_preorder_def by (metis in_mono list.set_intros sorted_wrt.simps(2))
    ultimately show ?thesis using Cons.prems by auto
  next
    case False
    then have "cmp y x \<le> 0" using Cons.prems unfolding total_preorder_def by (metis in_mono list.set_intros(1))
    then show ?thesis using Cons False by (auto simp: set_insert_by)
  qed
qed simp

lemma sorted_insertion_sort:
  "total_preorder cmp A \<Longrightarrow> set xs \<subseteq> A \<Longrightarrow> sorted_wrt (\<lambda>a b. cmp a b \<le> 0) (foldr (insert_by cmp) xs [])"
proof (induction xs)
  case (Cons x xs)
  have "set (foldr (insert_by cmp) xs []) = set xs" by (rule mset_eq_setD[OF mset_insertion_sort])
  then have "set (foldr (insert_by cmp) xs []) \<subseteq> A" using Cons.prems(2) by simp
  moreover have "x \<in> A" "set xs \<subseteq> A" using Cons.prems(2) by simp_all
  ultimately show ?case using sorted_insert_by[OF Cons.prems(1)] Cons.IH[OF Cons.prems(1)] by simp
qed simp

interpretation isort: qsort_spec insertion_sort
proof
  fix cmp :: "'a \<Rightarrow> 'a \<Rightarrow> int" and xs :: "'a list"
  assume t: "total_preorder cmp (set xs)"
  show "mset (insertion_sort cmp xs) = mset xs" by (simp add: insertion_sort_def mset_insertion_sort)
  show "sorted_wrt (\<lambda>a b. cmp a b \<le> 0) (insertion_sort cmp xs)"
    unfolding insertion_sort_def by (rule sorted_insertion_sort[OF t]) simp
qed


section \<open>Synchronising with the running interface\<close>

datatype sync_error = RetrieveFailed | PeerListAllocation | PeerAllocation

text \<open>One pass of the loop over the sorted array: the peers put in front of the file's list so far, and
  the file's peers.\<close>

definition sync_step ::
  "(nat \<Rightarrow> bool) \<Rightarrow> wgpeer list \<Rightarrow> peer_origin list \<Rightarrow> wgpeer list \<times> wgpeer list \<Rightarrow> nat \<Rightarrow> sync_error + (wgpeer list \<times> wgpeer list)" where
  "sync_step oom rs ps st i =
     (let (front, fs) = st; n = length ps; key = (\<lambda>o1. public_key (origin_peer fs rs o1))
      in if from_file (ps ! i) then Inr st
         else if i = n - 1 \<or> \<not> from_file (ps ! (i + 1)) \<or> memcmp (key (ps ! i)) (key (ps ! (i + 1))) \<noteq> 0 then
           (if oom i then Inl PeerAllocation
            else Inr (new_peer\<lparr> p_flags := WGPEER_REMOVE_ME, public_key := key (ps ! i) \<rparr> # front, fs))
         else
           (let r = origin_peer fs rs (ps ! i); j = po_peer (ps ! (i + 1));
                same = (i < n - 1 \<and> from_file (ps ! (i + 1)) \<and> memcmp (key (ps ! i)) (key (ps ! (i + 1))) = 0);
                fs = (if same \<and> flag_test (p_flags r) WGPEER_HAS_PRESHARED_KEY \<and>
                         \<not> flag_test (p_flags (fs ! j)) WGPEER_HAS_PRESHARED_KEY
                      then fs[j := (fs ! j)\<lparr> preshared_key := zero_key,
                                p_flags := set_flag WGPEER_HAS_PRESHARED_KEY (p_flags (fs ! j)) \<rparr>]
                      else fs);
                fs = (if same \<and> persistent_keepalive_interval r \<noteq> 0 \<and>
                         \<not> flag_test (p_flags (fs ! j)) WGPEER_HAS_PERSISTENT_KEEPALIVE_INTERVAL
                      then fs[j := (fs ! j)\<lparr> persistent_keepalive_interval := 0,
                                p_flags := set_flag WGPEER_HAS_PERSISTENT_KEEPALIVE_INTERVAL (p_flags (fs ! j)) \<rparr>]
                      else fs)
            in Inr (front, fs)))"

fun sync_loop ::
  "(nat \<Rightarrow> bool) \<Rightarrow> wgpeer list \<Rightarrow> peer_origin list \<Rightarrow> wgpeer list \<times> wgpeer list \<Rightarrow> nat list \<Rightarrow> sync_error + (wgpeer list \<times> wgpeer list)" where
  "sync_loop oom rs ps st [] = Inr st"
| "sync_loop oom rs ps st (i # is) =
     (case sync_step oom rs ps st i of Inl e \<Rightarrow> Inl e | Inr st' \<Rightarrow> sync_loop oom rs ps st' is)"

definition origins :: "wgpeer list \<Rightarrow> wgpeer list \<Rightarrow> peer_origin list" where
  "origins fs rs = map (\<lambda>i. \<lparr> po_peer = i, from_file = True \<rparr>) [0..<length fs] @
                   map (\<lambda>i. \<lparr> po_peer = i, from_file = False \<rparr>) [0..<length rs]"

definition sync_conf ::
  "peer_origin qsort \<Rightarrow> (string \<Rightarrow> int + wgdevice) \<Rightarrow> bool \<Rightarrow> (nat \<Rightarrow> bool) \<Rightarrow> wgdevice \<Rightarrow> sync_error + wgdevice" where
  "sync_conf qsort ipc_get_device list_oom oom file =
     (if peers file = [] then Inr file
      else case ipc_get_device (name file) of
        Inl _ \<Rightarrow> Inl RetrieveFailed
      | Inr runtime \<Rightarrow>
          if peers runtime = [] then Inr file
          else
            let file = file\<lparr> d_flags := clear_flag WGDEVICE_REPLACE_PEERS (d_flags file) \<rparr>
            in if list_oom then Inl PeerListAllocation
               else
                 let ps = qsort (peer_cmp (peers file) (peers runtime)) (origins (peers file) (peers runtime))
                 in (case sync_loop oom (peers runtime) ps ([], peers file) [0..<length ps] of
                       Inl e \<Rightarrow> Inl e
                     | Inr (front, fs) \<Rightarrow> Inr (file\<lparr> peers := front @ fs \<rparr>)))"


section \<open>The sorted array\<close>

lemma memcmp_lex:
  "length xs = length ys \<Longrightarrow> (memcmp xs ys < 0 \<longleftrightarrow> xs < ys) \<and> (memcmp xs ys = 0 \<longleftrightarrow> xs = ys)"
proof (induction xs ys rule: list_induct2)
  case (Cons x xs y ys)
  then show ?case by (cases "x = y") (auto simp: word_less_def word_uint_eq_iff)
qed simp

lemma memcmp_le: "length xs = length ys \<Longrightarrow> memcmp xs ys \<le> 0 \<longleftrightarrow> xs \<le> ys"
  using memcmp_lex[of xs ys] by (auto simp: le_less)

definition keys_ok :: "wgpeer list \<Rightarrow> bool" where
  "keys_ok ps \<longleftrightarrow> (\<forall>p \<in> set ps. length (public_key p) = WG_KEY_LEN)"

text \<open>The key of an array element, and the references that are in range.\<close>

definition okey :: "wgpeer list \<Rightarrow> wgpeer list \<Rightarrow> peer_origin \<Rightarrow> wgkey" where
  "okey fs rs o1 = public_key (origin_peer fs rs o1)"

lemma set_origins:
  "o1 \<in> set (origins fs rs) \<longleftrightarrow> (if from_file o1 then po_peer o1 < length fs else po_peer o1 < length rs)"
  by (cases o1) (auto simp: origins_def)

lemma distinct_origins: "distinct (origins fs rs)"
  by (auto simp: origins_def distinct_map inj_on_def)

lemma okey_length:
  "keys_ok fs \<Longrightarrow> keys_ok rs \<Longrightarrow> o1 \<in> set (origins fs rs) \<Longrightarrow> length (okey fs rs o1) = WG_KEY_LEN"
  by (auto simp: set_origins okey_def origin_peer_def keys_ok_def split: if_splits)

lemma peer_cmp_le:
  assumes "keys_ok fs" "keys_ok rs" "a \<in> set (origins fs rs)" "b \<in> set (origins fs rs)"
  shows "peer_cmp fs rs a b \<le> 0 \<longleftrightarrow>
    okey fs rs a < okey fs rs b \<or> okey fs rs a = okey fs rs b \<and> (from_file a \<longrightarrow> from_file b)"
proof -
  have l: "length (okey fs rs a) = length (okey fs rs b)" using assms okey_length by simp
  show ?thesis
    using memcmp_lex[OF l] by (auto simp: peer_cmp_def okey_def[symmetric] Let_def of_bool_def)
qed

lemma peer_cmp_total:
  assumes "keys_ok fs" "keys_ok rs"
  shows "total_preorder (peer_cmp fs rs) (set (origins fs rs))"
  unfolding total_preorder_def using peer_cmp_le[OF assms] by (auto intro: less_trans)

text \<open>The array after sorting.\<close>

definition array_ok :: "wgpeer list \<Rightarrow> wgpeer list \<Rightarrow> peer_origin list \<Rightarrow> bool" where
  "array_ok fs rs ps \<longleftrightarrow> set ps = set (origins fs rs) \<and> distinct ps \<and>
     sorted_wrt (\<lambda>a b. okey fs rs a < okey fs rs b \<or> okey fs rs a = okey fs rs b \<and> (from_file a \<longrightarrow> from_file b)) ps"

lemma array_okI:
  assumes "qsort_spec qsort" "keys_ok fs" "keys_ok rs"
  shows "array_ok fs rs (qsort (peer_cmp fs rs) (origins fs rs))"
proof -
  note T = peer_cmp_total[OF assms(2,3)]
  have s: "set (qsort (peer_cmp fs rs) (origins fs rs)) = set (origins fs rs)"
    by (rule qsort_spec.qsort_set[OF assms(1) T])
  have "sorted_wrt (\<lambda>a b. peer_cmp fs rs a b \<le> 0) (qsort (peer_cmp fs rs) (origins fs rs))"
    by (rule qsort_spec.qsort_sorted[OF assms(1) T])
  then show ?thesis
    unfolding array_ok_def
    using s qsort_spec.qsort_distinct[OF assms(1) T distinct_origins] peer_cmp_le[OF assms(2,3)]
    by (auto elim!: sorted_wrt_mono_rel[rotated])
qed

text \<open>A file peer follows the runtime peer at index \<open>i\<close> and has its key.\<close>

definition matched :: "wgpeer list \<Rightarrow> wgpeer list \<Rightarrow> peer_origin list \<Rightarrow> nat \<Rightarrow> bool" where
  "matched fs rs ps i \<longleftrightarrow> i + 1 < length ps \<and> from_file (ps ! (i + 1)) \<and> okey fs rs (ps ! i) = okey fs rs (ps ! (i + 1))"

lemma matched_iff:
  assumes "array_ok fs rs ps" "distinct (map public_key rs)" "i < length ps" "\<not> from_file (ps ! i)"
  shows "matched fs rs ps i \<longleftrightarrow> okey fs rs (ps ! i) \<in> public_key ` set fs"
proof
  assume m: "matched fs rs ps i"
  then have "ps ! (i + 1) \<in> set (origins fs rs)" using assms(1) nth_mem by (auto simp: matched_def array_ok_def)
  then have "po_peer (ps ! (i + 1)) < length fs" using m by (simp add: matched_def set_origins)
  moreover have "okey fs rs (ps ! i) = public_key (fs ! po_peer (ps ! (i + 1)))"
    using m by (simp add: matched_def okey_def origin_peer_def)
  ultimately show "okey fs rs (ps ! i) \<in> public_key ` set fs" by simp
next
  let ?R = "\<lambda>a b. okey fs rs a < okey fs rs b \<or> okey fs rs a = okey fs rs b \<and> (from_file a \<longrightarrow> from_file b)"
  assume "okey fs rs (ps ! i) \<in> public_key ` set fs"
  then obtain j where j: "j < length fs" "public_key (fs ! j) = okey fs rs (ps ! i)" by (auto simp: in_set_conv_nth)
  let ?f = "\<lparr> po_peer = j, from_file = True \<rparr>"
  have "?f \<in> set ps" using assms(1) j(1) by (simp add: array_ok_def set_origins)
  then obtain k where k: "k < length ps" "ps ! k = ?f" by (auto simp: in_set_conv_nth)
  have kf: "okey fs rs ?f = okey fs rs (ps ! i)" using j(2) by (simp add: okey_def origin_peer_def)
  have srt: "?R (ps ! a) (ps ! b)" if "a < b" "b < length ps" for a b
    using assms(1) that unfolding array_ok_def sorted_wrt_iff_nth_less by blast
  have "k \<noteq> i" using k assms(4) by auto
  moreover have "\<not> k < i" using srt[of k i] assms(3,4) k kf by auto
  ultimately have ik: "i < k" by simp
  then have i1: "i + 1 < length ps" using k(1) by simp
  have ke: "okey fs rs (ps ! (i + 1)) = okey fs rs (ps ! i)"
  proof (cases "k = i + 1")
    case True
    then show ?thesis using k(2) kf by simp
  next
    case False
    then have "?R (ps ! i) (ps ! (i + 1))" "?R (ps ! (i + 1)) (ps ! k)" using srt ik k(1) i1 by auto
    then show ?thesis using k(2) kf by auto
  qed
  have "from_file (ps ! (i + 1))"
  proof (rule ccontr)
    assume nf: "\<not> from_file (ps ! (i + 1))"
    have "ps ! i \<in> set (origins fs rs)" "ps ! (i + 1) \<in> set (origins fs rs)"
      using assms(1,3) i1 nth_mem by (auto simp: array_ok_def)
    then have r: "po_peer (ps ! i) < length rs" "po_peer (ps ! (i + 1)) < length rs"
      using assms(4) nf by (auto simp: set_origins)
    moreover have "map public_key rs ! po_peer (ps ! i) = map public_key rs ! po_peer (ps ! (i + 1))"
      using ke assms(4) nf r by (simp add: okey_def origin_peer_def)
    ultimately have "po_peer (ps ! i) = po_peer (ps ! (i + 1))"
      using assms(2) by (simp add: distinct_conv_nth) metis
    then have "ps ! i = ps ! (i + 1)" using assms(4) nf by (cases "ps ! i"; cases "ps ! (i + 1)") auto
    then show False using assms(1,3) i1 by (auto simp: array_ok_def distinct_conv_nth)
  qed
  then show "matched fs rs ps i" using ke i1 by (simp add: matched_def)
qed


section \<open>The effect of the loop\<close>

definition removal :: "wgkey \<Rightarrow> wgpeer" where
  "removal k = new_peer\<lparr> p_flags := WGPEER_REMOVE_ME, public_key := k \<rparr>"

text \<open>What the file's peer \<open>f\<close> becomes when the runtime peer \<open>r\<close> has its key.\<close>

definition reset_peer :: "wgpeer \<Rightarrow> wgpeer \<Rightarrow> wgpeer" where
  "reset_peer r f =
     (let f = (if flag_test (p_flags r) WGPEER_HAS_PRESHARED_KEY \<and> \<not> flag_test (p_flags f) WGPEER_HAS_PRESHARED_KEY
               then f\<lparr> preshared_key := zero_key, p_flags := set_flag WGPEER_HAS_PRESHARED_KEY (p_flags f) \<rparr> else f)
      in if persistent_keepalive_interval r \<noteq> 0 \<and> \<not> flag_test (p_flags f) WGPEER_HAS_PERSISTENT_KEEPALIVE_INTERVAL
         then f\<lparr> persistent_keepalive_interval := 0,
                p_flags := set_flag WGPEER_HAS_PERSISTENT_KEEPALIVE_INTERVAL (p_flags f) \<rparr> else f)"

lemma reset_peer_key [simp]: "public_key (reset_peer r f) = public_key f"
  by (simp add: reset_peer_def Let_def)

lemma list_update_twice: "j < length xs \<Longrightarrow> (xs[j := a])[j := b] = xs[j := b]" "j < length xs \<Longrightarrow> xs[j := a] ! j = a"
  by simp_all

lemma okey_cong:
  "map public_key fs' = map public_key fs \<Longrightarrow> o1 \<in> set (origins fs rs) \<Longrightarrow> okey fs' rs o1 = okey fs rs o1"
proof -
  assume m: "map public_key fs' = map public_key fs" and "o1 \<in> set (origins fs rs)"
  then have "from_file o1 \<Longrightarrow> po_peer o1 < length fs" by (simp add: set_origins)
  moreover have "length fs' = length fs" using m by (metis length_map)
  ultimately show ?thesis using m by (auto simp: okey_def origin_peer_def) (metis nth_map)
qed

lemma sync_step_eq:
  assumes a: "array_ok fs0 rs ps" and k: "keys_ok fs0" "keys_ok rs" and i: "i < length ps"
    and m: "map public_key fs = map public_key fs0"
  shows "sync_step oom rs ps (front, fs) i =
    (if from_file (ps ! i) then Inr (front, fs)
     else if matched fs0 rs ps i then
       Inr (front, fs[po_peer (ps ! (i + 1)) := reset_peer (rs ! po_peer (ps ! i)) (fs ! po_peer (ps ! (i + 1)))])
     else if oom i then Inl PeerAllocation else Inr (removal (okey fs0 rs (ps ! i)) # front, fs))"
proof -
  have mem: "x < length ps \<Longrightarrow> ps ! x \<in> set (origins fs0 rs)" for x using a nth_mem by (auto simp: array_ok_def)
  have key: "x < length ps \<Longrightarrow> public_key (origin_peer fs rs (ps ! x)) = okey fs0 rs (ps ! x)" for x
    using okey_cong[OF m mem] by (simp add: okey_def)
  have len: "length fs = length fs0" using m by (metis length_map)
  have cmp: "memcmp (okey fs0 rs (ps ! i)) (okey fs0 rs (ps ! (i + 1))) = 0 \<longleftrightarrow>
      okey fs0 rs (ps ! i) = okey fs0 rs (ps ! (i + 1))" if "i + 1 < length ps"
    using memcmp_lex okey_length[OF k mem[OF i]] okey_length[OF k mem[OF that]] by simp
  show ?thesis
  proof (cases "from_file (ps ! i)")
    case True
    then show ?thesis by (simp add: sync_step_def)
  next
    case nf: False
    show ?thesis
    proof (cases "matched fs0 rs ps i")
      case False
      then have "i = length ps - 1 \<or> \<not> from_file (ps ! (i + 1)) \<or>
          memcmp (okey fs0 rs (ps ! i)) (okey fs0 rs (ps ! (i + 1))) \<noteq> 0 \<and> i + 1 < length ps"
        using cmp i by (cases "i + 1 < length ps") (auto simp: matched_def)
      then show ?thesis using nf False i key[OF i] key[of "i + 1"]
        by (auto simp: sync_step_def removal_def Let_def)
    next
      case True
      then have i1: "i + 1 < length ps" "from_file (ps ! (i + 1))" and e: "okey fs0 rs (ps ! i) = okey fs0 rs (ps ! (i + 1))"
        by (auto simp: matched_def)
      let ?j = "po_peer (ps ! (i + 1))"
      have j: "?j < length fs" using mem[OF i1(1)] i1(2) len by (simp add: set_origins)
      have r: "origin_peer fs rs (ps ! i) = rs ! po_peer (ps ! i)" using nf by (simp add: origin_peer_def)
      have c: "memcmp (public_key (origin_peer fs rs (ps ! i))) (public_key (origin_peer fs rs (ps ! (i + 1)))) = 0"
        using key[OF i] key[OF i1(1)] cmp[OF i1(1)] e by simp
      have le: "i \<noteq> length ps - 1" "i < length ps - 1" using i1(1) by auto
      show ?thesis
        unfolding sync_step_def Let_def prod.case c using nf True i1(2) le j
        by (simp add: r reset_peer_def Let_def)
    qed
  qed
qed

lemma sync_loop_snoc:
  "sync_loop oom rs ps st (is @ [i]) =
     (case sync_loop oom rs ps st is of Inl e \<Rightarrow> Inl e | Inr st' \<Rightarrow> sync_step oom rs ps st' i)"
  by (induction "is" arbitrary: st) (auto split: sum.splits)

definition hits :: "wgpeer list \<Rightarrow> wgpeer list \<Rightarrow> peer_origin list \<Rightarrow> nat \<Rightarrow> nat \<Rightarrow> bool" where
  "hits fs rs ps i j \<longleftrightarrow> \<not> from_file (ps ! i) \<and> matched fs rs ps i \<and> po_peer (ps ! (i + 1)) = j"

lemma hits_unique:
  assumes "array_ok fs rs ps" "hits fs rs ps i j" "hits fs rs ps i' j"
  shows "i = i'"
proof -
  have "ps ! (i + 1) = ps ! (i' + 1)"
    using assms(2,3) by (cases "ps ! (i + 1)"; cases "ps ! (i' + 1)") (auto simp: hits_def matched_def)
  then show ?thesis using assms by (auto simp: array_ok_def hits_def matched_def distinct_conv_nth)
qed

definition leftover :: "wgpeer list \<Rightarrow> wgpeer list \<Rightarrow> peer_origin list \<Rightarrow> nat \<Rightarrow> nat list" where
  "leftover fs rs ps m = filter (\<lambda>i. \<not> from_file (ps ! i) \<and> \<not> matched fs rs ps i) [0..<m]"

lemma sync_loop_upto:
  assumes a: "array_ok fs0 rs ps" and k: "keys_ok fs0" "keys_ok rs" and oom: "\<forall>i. \<not> oom i"
  shows "m \<le> length ps \<Longrightarrow> \<exists>fs. sync_loop oom rs ps ([], fs0) [0..<m] =
      Inr (rev (map (\<lambda>i. removal (okey fs0 rs (ps ! i))) (leftover fs0 rs ps m)), fs) \<and>
    map public_key fs = map public_key fs0 \<and>
    (\<forall>j<length fs0. (\<forall>i<m. hits fs0 rs ps i j \<longrightarrow> fs ! j = reset_peer (rs ! po_peer (ps ! i)) (fs0 ! j)) \<and>
      ((\<forall>i<m. \<not> hits fs0 rs ps i j) \<longrightarrow> fs ! j = fs0 ! j))"
proof (induction m)
  case 0
  show ?case by (simp add: leftover_def)
next
  case (Suc m)
  then obtain fs where IH: "sync_loop oom rs ps ([], fs0) [0..<m] =
        Inr (rev (map (\<lambda>i. removal (okey fs0 rs (ps ! i))) (leftover fs0 rs ps m)), fs)"
      "map public_key fs = map public_key fs0"
      "\<And>j i. j < length fs0 \<Longrightarrow> i < m \<Longrightarrow> hits fs0 rs ps i j \<Longrightarrow> fs ! j = reset_peer (rs ! po_peer (ps ! i)) (fs0 ! j)"
      "\<And>j. j < length fs0 \<Longrightarrow> \<forall>i<m. \<not> hits fs0 rs ps i j \<Longrightarrow> fs ! j = fs0 ! j" by auto
  have m: "m < length ps" using Suc.prems by simp
  have len: "length fs = length fs0" using IH(2) by (metis length_map)
  let ?j = "po_peer (ps ! (m + 1))"
  note S = sync_step_eq[OF a k m IH(2), of oom]
  have L: "sync_loop oom rs ps ([], fs0) [0..<Suc m] =
      sync_step oom rs ps (rev (map (\<lambda>i. removal (okey fs0 rs (ps ! i))) (leftover fs0 rs ps m)), fs) m"
    using IH(1) by (simp add: sync_loop_snoc)
  show ?case
  proof (cases "\<not> from_file (ps ! m) \<and> matched fs0 rs ps m")
    case False
    then have "sync_loop oom rs ps ([], fs0) [0..<Suc m] =
      Inr (rev (map (\<lambda>i. removal (okey fs0 rs (ps ! i))) (leftover fs0 rs ps (Suc m))), fs)"
      unfolding L S using oom by (auto simp: leftover_def)
    moreover have "\<not> hits fs0 rs ps m j" for j using False by (auto simp: hits_def)
    ultimately show ?thesis using IH(2-4) by (intro exI[of _ fs]) (auto simp: less_Suc_eq)
  next
    case True
    let ?fs = "fs[?j := reset_peer (rs ! po_peer (ps ! m)) (fs ! ?j)]"
    have h: "hits fs0 rs ps m ?j" using True by (simp add: hits_def)
    have "ps ! (m + 1) \<in> set (origins fs0 rs)" using a True nth_mem by (auto simp: matched_def array_ok_def)
    then have j: "?j < length fs0" using True by (simp add: matched_def set_origins)
    have before: "\<forall>i<m. \<not> hits fs0 rs ps i ?j" using hits_unique[OF a h] by auto
    then have fj: "fs ! ?j = fs0 ! ?j" using IH(4) j by blast
    have "sync_loop oom rs ps ([], fs0) [0..<Suc m] =
      Inr (rev (map (\<lambda>i. removal (okey fs0 rs (ps ! i))) (leftover fs0 rs ps (Suc m))), ?fs)"
      unfolding L S using True by (simp add: leftover_def)
    moreover have "map public_key ?fs = map public_key fs0"
      using IH(2) by (metis list_update_id map_update reset_peer_key)
    moreover have "(\<forall>i<Suc m. hits fs0 rs ps i j \<longrightarrow> ?fs ! j = reset_peer (rs ! po_peer (ps ! i)) (fs0 ! j)) \<and>
      ((\<forall>i<Suc m. \<not> hits fs0 rs ps i j) \<longrightarrow> ?fs ! j = fs0 ! j)" if jl: "j < length fs0" for j
    proof (cases "j = ?j")
      case True
      have "?fs ! ?j = reset_peer (rs ! po_peer (ps ! m)) (fs0 ! ?j)" using fj j len by simp
      moreover have "i = m" if "hits fs0 rs ps i ?j" for i using hits_unique[OF a that h] .
      ultimately show ?thesis using True h by blast
    next
      case False
      then have "?fs ! j = fs ! j" "\<not> hits fs0 rs ps m j" by (auto simp: hits_def)
      then show ?thesis using IH(3)[OF jl] IH(4)[OF jl] less_Suc_eq by metis
    qed
    ultimately show ?thesis by blast
  qed
qed


section \<open>What the kernel makes of a device\<close>

text \<open>The peers the kernel holds, by public key, with the preshared key (zero for none) and the keepalive
  interval. The rules are those of the comments of \<^verbatim>\<open>uapi/linux/linux/wireguard.h\<close>: a device may replace
  all peers, a peer may be removed, and an attribute that is not given is left alone.\<close>

type_synonym kernel_peers = "wgkey \<Rightarrow> (wgkey \<times> u16) option"

definition kernel_peer :: "(wgkey \<times> u16) option \<Rightarrow> wgpeer \<Rightarrow> wgkey \<times> u16" where
  "kernel_peer old p =
     (let (psk, interval) = (case old of None \<Rightarrow> (zero_key, 0) | Some x \<Rightarrow> x)
      in (if flag_test (p_flags p) WGPEER_HAS_PRESHARED_KEY then preshared_key p else psk,
          if flag_test (p_flags p) WGPEER_HAS_PERSISTENT_KEEPALIVE_INTERVAL
          then persistent_keepalive_interval p else interval))"

definition kernel_set :: "kernel_peers \<Rightarrow> wgpeer \<Rightarrow> kernel_peers" where
  "kernel_set k p =
     (if flag_test (p_flags p) WGPEER_REMOVE_ME then k(public_key p := None)
      else k(public_key p \<mapsto> kernel_peer (k (public_key p)) p))"

definition kernel_apply :: "kernel_peers \<Rightarrow> wgdevice \<Rightarrow> kernel_peers" where
  "kernel_apply k d =
     foldl kernel_set (if flag_test (d_flags d) WGDEVICE_REPLACE_PEERS then Map.empty else k) (peers d)"

definition kernel_view :: "wgpeer list \<Rightarrow> kernel_peers" where
  "kernel_view rs key = map_option
     (\<lambda>r. (if flag_test (p_flags r) WGPEER_HAS_PRESHARED_KEY then preshared_key r else zero_key,
           persistent_keepalive_interval r)) (find (\<lambda>r. public_key r = key) rs)"

lemma removal_simps [simp]:
  "public_key (removal k) = k" "flag_test (p_flags (removal k)) WGPEER_REMOVE_ME"
  by (simp_all add: removal_def WGPEER_REMOVE_ME_def flag_simps)

lemma kernel_removals: "foldl kernel_set k (map removal ks) = (\<lambda>x. if x \<in> set ks then None else k x)"
proof (induction ks arbitrary: k)
  case (Cons a ks)
  have "kernel_set k (removal a) = k(a := None)" by (simp add: kernel_set_def)
  then show ?case using Cons by (auto simp: fun_eq_iff)
qed simp

lemma kernel_upserts:
  assumes "\<forall>p \<in> set ps. \<not> flag_test (p_flags p) WGPEER_REMOVE_ME" "distinct (map public_key ps)"
  shows "(x \<notin> public_key ` set ps \<longrightarrow> foldl kernel_set k ps x = k x) \<and>
    (\<forall>p \<in> set ps. x = public_key p \<longrightarrow> foldl kernel_set k ps x = Some (kernel_peer (k x) p))"
  using assms
proof (induction ps arbitrary: k)
  case (Cons p ps)
  let ?k = "k(public_key p \<mapsto> kernel_peer (k (public_key p)) p)"
  have f: "foldl kernel_set k (p # ps) = foldl kernel_set ?k ps" using Cons.prems by (simp add: kernel_set_def)
  have n: "public_key p \<notin> public_key ` set ps" using Cons.prems(2) by auto
  have IH: "x \<notin> public_key ` set ps \<Longrightarrow> foldl kernel_set ?k ps x = ?k x"
    "\<And>q. q \<in> set ps \<Longrightarrow> x = public_key q \<Longrightarrow> foldl kernel_set ?k ps x = Some (kernel_peer (?k x) q)"
    using Cons.IH[of ?k] Cons.prems by (simp_all only: list.set_intros set_simps insert_iff list.map distinct.simps simp_thms) blast+
  show ?case unfolding f
  proof (intro conjI impI ballI)
    assume "x \<notin> public_key ` set (p # ps)"
    then show "foldl kernel_set ?k ps x = k x" using IH(1) by auto
  next
    fix q assume q: "q \<in> set (p # ps)" "x = public_key q"
    show "foldl kernel_set ?k ps x = Some (kernel_peer (k x) q)"
    proof (cases "x = public_key p")
      case True
      then have "q = p" using q n by (metis image_eqI set_ConsD)
      then show ?thesis using IH(1) True n by simp
    next
      case False
      then have "q \<in> set ps" using q by auto
      then show ?thesis using IH(2)[OF _ q(2)] False by simp
    qed
  qed
qed simp

lemma kernel_upsert_in:
  assumes "\<forall>p \<in> set ps. \<not> flag_test (p_flags p) WGPEER_REMOVE_ME" "distinct (map public_key ps)" "p \<in> set ps" "x = public_key p"
  shows "foldl kernel_set k ps x = Some (kernel_peer (k x) p)"
  using kernel_upserts[OF assms(1,2)] assms(3,4) by blast

lemma flag_psk_ka:
  "flag_test (f OR WGPEER_HAS_PRESHARED_KEY) WGPEER_HAS_PERSISTENT_KEEPALIVE_INTERVAL = flag_test f WGPEER_HAS_PERSISTENT_KEEPALIVE_INTERVAL"
  "flag_test (f OR WGPEER_HAS_PERSISTENT_KEEPALIVE_INTERVAL) WGPEER_HAS_PRESHARED_KEY = flag_test f WGPEER_HAS_PRESHARED_KEY"
  "flag_test (f OR WGPEER_HAS_PRESHARED_KEY) WGPEER_HAS_PRESHARED_KEY"
  "flag_test (f OR WGPEER_HAS_PERSISTENT_KEEPALIVE_INTERVAL) WGPEER_HAS_PERSISTENT_KEEPALIVE_INTERVAL"
  "flag_test (f OR WGPEER_HAS_PRESHARED_KEY) WGPEER_REMOVE_ME = flag_test f WGPEER_REMOVE_ME"
  "flag_test (f OR WGPEER_HAS_PERSISTENT_KEEPALIVE_INTERVAL) WGPEER_REMOVE_ME = flag_test f WGPEER_REMOVE_ME"
  by (simp_all add: flag_defs flag_simps)

lemma reset_peer_remove: "flag_test (p_flags (reset_peer r f)) WGPEER_REMOVE_ME = flag_test (p_flags f) WGPEER_REMOVE_ME"
  by (simp add: reset_peer_def Let_def flag_psk_ka)

text \<open>On top of the runtime peer, the amended peer of the file has the effect of the peer of the file on
  its own.\<close>

lemma kernel_reset_peer:
  "kernel_peer (Some (if flag_test (p_flags r) WGPEER_HAS_PRESHARED_KEY then preshared_key r else zero_key,
       persistent_keepalive_interval r)) (reset_peer r f) = kernel_peer None f"
  by (auto simp: kernel_peer_def reset_peer_def Let_def flag_psk_ka)

lemma kernel_view_Some:
  assumes "distinct (map public_key rs)" "r \<in> set rs"
  shows "kernel_view rs (public_key r) = Some (if flag_test (p_flags r) WGPEER_HAS_PRESHARED_KEY then preshared_key r else zero_key,
       persistent_keepalive_interval r)"
proof -
  have "find (\<lambda>q. public_key q = public_key r) rs = Some r"
    using assms by (induction rs) (auto simp: image_iff)
  then show ?thesis by (simp add: kernel_view_def)
qed

lemma kernel_view_None: "key \<notin> public_key ` set rs \<Longrightarrow> kernel_view rs key = None"
  unfolding kernel_view_def by (induction rs) auto

lemma sync_front_keys:
  assumes a: "array_ok fs rs ps" and d: "distinct (map public_key rs)"
  shows "set (map (\<lambda>i. okey fs rs (ps ! i)) (leftover fs rs ps (length ps))) = public_key ` set rs - public_key ` set fs"
proof
  show "set (map (\<lambda>i. okey fs rs (ps ! i)) (leftover fs rs ps (length ps))) \<subseteq> public_key ` set rs - public_key ` set fs"
  proof
    fix x assume "x \<in> set (map (\<lambda>i. okey fs rs (ps ! i)) (leftover fs rs ps (length ps)))"
    then obtain i where i: "i < length ps" "\<not> from_file (ps ! i)" "\<not> matched fs rs ps i" "x = okey fs rs (ps ! i)"
      by (auto simp: leftover_def)
    have "ps ! i \<in> set (origins fs rs)" using a i(1) nth_mem by (auto simp: array_ok_def)
    then have "x \<in> public_key ` set rs" using i(2,4) by (auto simp: set_origins okey_def origin_peer_def)
    then show "x \<in> public_key ` set rs - public_key ` set fs" using matched_iff[OF a d i(1,2)] i(3,4) by simp
  qed
  show "public_key ` set rs - public_key ` set fs \<subseteq> set (map (\<lambda>i. okey fs rs (ps ! i)) (leftover fs rs ps (length ps)))"
  proof
    fix x assume x: "x \<in> public_key ` set rs - public_key ` set fs"
    then obtain j where j: "j < length rs" "x = public_key (rs ! j)" by (auto simp: in_set_conv_nth)
    then have "\<lparr> po_peer = j, from_file = False \<rparr> \<in> set ps" using a by (simp add: array_ok_def set_origins)
    then obtain i where i: "i < length ps" "ps ! i = \<lparr> po_peer = j, from_file = False \<rparr>" by (auto simp: in_set_conv_nth)
    then have k: "okey fs rs (ps ! i) = x" using j by (simp add: okey_def origin_peer_def)
    then have "i \<in> set (leftover fs rs ps (length ps))"
      using matched_iff[OF a d i(1)] i x by (auto simp: leftover_def)
    then show "x \<in> set (map (\<lambda>i. okey fs rs (ps ! i)) (leftover fs rs ps (length ps)))"
      unfolding set_map using k by blast
  qed
qed

lemma sync_hit:
  assumes a: "array_ok fs rs ps" and d: "distinct (map public_key rs)" "distinct (map public_key fs)"
    and j: "j < length fs" and r: "r \<in> set rs" "public_key r = public_key (fs ! j)"
  obtains i where "i < length ps" "hits fs rs ps i j" "rs ! po_peer (ps ! i) = r"
proof -
  obtain l where l: "l < length rs" "rs ! l = r" using r(1) by (auto simp: in_set_conv_nth)
  then have "\<lparr> po_peer = l, from_file = False \<rparr> \<in> set ps" using a by (simp add: array_ok_def set_origins)
  then obtain i where i: "i < length ps" "ps ! i = \<lparr> po_peer = l, from_file = False \<rparr>" by (auto simp: in_set_conv_nth)
  have k: "okey fs rs (ps ! i) = public_key (fs ! j)" using i l r by (simp add: okey_def origin_peer_def)
  then have m: "matched fs rs ps i" using matched_iff[OF a d(1) i(1)] i(2) j by simp
  then have f: "from_file (ps ! (i + 1))" "i + 1 < length ps" "okey fs rs (ps ! (i + 1)) = public_key (fs ! j)"
    using k by (auto simp: matched_def)
  have "ps ! (i + 1) \<in> set (origins fs rs)" using a f(2) nth_mem by (auto simp: array_ok_def)
  then have "po_peer (ps ! (i + 1)) < length fs" using f(1) by (simp add: set_origins)
  moreover have "map public_key fs ! po_peer (ps ! (i + 1)) = map public_key fs ! j"
    using calculation f(1,3) j by (simp add: okey_def origin_peer_def)
  ultimately have "po_peer (ps ! (i + 1)) = j" using nth_eq_iff_index_eq[OF d(2)] j by (metis length_map)
  then show thesis using that[of i] i l m by (simp add: hits_def)
qed

lemma sync_miss:
  assumes a: "array_ok fs rs ps" and j: "j < length fs" and r: "public_key (fs ! j) \<notin> public_key ` set rs"
    and i: "i < length ps"
  shows "\<not> hits fs rs ps i j"
proof
  assume h: "hits fs rs ps i j"
  have "ps ! i \<in> set (origins fs rs)" using a i nth_mem by (auto simp: array_ok_def)
  then have "po_peer (ps ! i) < length rs" using h by (simp add: hits_def set_origins)
  moreover have "public_key (rs ! po_peer (ps ! i)) = public_key (fs ! j)"
    using h by (auto simp: hits_def matched_def okey_def origin_peer_def)
  ultimately show False using r by (metis image_eqI nth_mem)
qed

lemma kernel_sync:
  assumes a: "array_ok fs0 rs ps" and d: "distinct (map public_key rs)" "distinct (map public_key fs0)"
    and nr: "\<forall>p \<in> set fs0. \<not> flag_test (p_flags p) WGPEER_REMOVE_ME"
    and m: "map public_key fs = map public_key fs0"
    and eff: "\<forall>j<length fs0. (\<forall>i<length ps. hits fs0 rs ps i j \<longrightarrow> fs ! j = reset_peer (rs ! po_peer (ps ! i)) (fs0 ! j)) \<and>
      ((\<forall>i<length ps. \<not> hits fs0 rs ps i j) \<longrightarrow> fs ! j = fs0 ! j)"
    and ks: "set ks = public_key ` set rs - public_key ` set fs0"
  shows "foldl kernel_set (kernel_view rs) (map removal ks @ fs) = foldl kernel_set Map.empty fs0"
proof
  fix x
  let ?k = "\<lambda>x. if x \<in> set ks then None else kernel_view rs x"
  have len: "length fs = length fs0" using m by (metis length_map)
  have key: "public_key (fs ! j) = public_key (fs0 ! j)" if "j < length fs0" for j using m that len by (metis nth_map)
  have each: "(\<exists>r \<in> set rs. public_key r = public_key (fs0 ! j) \<and> fs ! j = reset_peer r (fs0 ! j)) \<or>
      public_key (fs0 ! j) \<notin> public_key ` set rs \<and> fs ! j = fs0 ! j" if j: "j < length fs0" for j
  proof (cases "public_key (fs0 ! j) \<in> public_key ` set rs")
    case True
    then obtain r where r: "r \<in> set rs" "public_key r = public_key (fs0 ! j)" by auto
    obtain i where "i < length ps" "hits fs0 rs ps i j" "rs ! po_peer (ps ! i) = r"
      by (rule sync_hit[OF a d j r])
    then show ?thesis using eff j r by blast
  next
    case False
    then show ?thesis using eff j sync_miss[OF a j False] by blast
  qed
  have nr': "\<forall>p \<in> set fs. \<not> flag_test (p_flags p) WGPEER_REMOVE_ME"
  proof
    fix p assume "p \<in> set fs"
    then obtain j where "j < length fs0" "p = fs ! j" using len by (auto simp: in_set_conv_nth)
    then show "\<not> flag_test (p_flags p) WGPEER_REMOVE_ME" using each[of j] nr by (auto simp: reset_peer_remove)
  qed
  have d': "distinct (map public_key fs)" using d(2) m by simp
  have set: "public_key ` set fs = public_key ` set fs0" using m by (metis set_map)
  have L: "foldl kernel_set (kernel_view rs) (map removal ks @ fs) x = foldl kernel_set ?k fs x"
    by (simp add: kernel_removals)
  show "foldl kernel_set (kernel_view rs) (map removal ks @ fs) x = foldl kernel_set Map.empty fs0 x"
  proof (cases "x \<in> public_key ` set fs0")
    case False
    then have "foldl kernel_set Map.empty fs0 x = None" using kernel_upserts[OF nr d(2), of x Map.empty] by simp
    moreover have "foldl kernel_set ?k fs x = ?k x" using kernel_upserts[OF nr' d', of x ?k] False set by simp
    moreover have "?k x = None" using False ks kernel_view_None[of x rs] by auto
    ultimately show ?thesis unfolding L by simp
  next
    case True
    then obtain j where j: "j < length fs0" "x = public_key (fs0 ! j)" by (auto simp: in_set_conv_nth)
    have "foldl kernel_set Map.empty fs0 x = Some (kernel_peer None (fs0 ! j))"
      by (rule kernel_upsert_in[OF nr d(2) _ j(2)]) (use j in simp)
    moreover have "foldl kernel_set ?k fs x = Some (kernel_peer (?k x) (fs ! j))"
      by (rule kernel_upsert_in[OF nr' d']) (use j len key[OF j(1)] in simp_all)
    moreover have "?k x = kernel_view rs x" using True ks by simp
    moreover have "kernel_peer (kernel_view rs x) (fs ! j) = kernel_peer None (fs0 ! j)"
      using each[OF j(1)]
    proof (elim disjE bexE conjE)
      fix r assume "r \<in> set rs" "public_key r = public_key (fs0 ! j)" "fs ! j = reset_peer r (fs0 ! j)"
      then show ?thesis using kernel_view_Some[OF d(1), of r] kernel_reset_peer[of r "fs0 ! j"] j(2) by simp
    next
      assume "public_key (fs0 ! j) \<notin> public_key ` set rs" "fs ! j = fs0 ! j"
      then show ?thesis using kernel_view_None[of x rs] j(2) by simp
    qed
    ultimately show ?thesis unfolding L by simp
  qed
qed


definition keyed_peer :: "u8 \<Rightarrow> wgpeer" where
  "keyed_peer b = new_peer\<lparr> public_key := replicate 32 b, p_flags := WGPEER_HAS_PUBLIC_KEY \<rparr>"


end
