(* ===== verification/Setconf.thy ===== *)
theory Setconf
  imports Syncconf
begin

text \<open>
  Model of the commands of \<^verbatim>\<open>wireguard-tools/src/setconf.c\<close> and \<^verbatim>\<open>set.c\<close>: \<^verbatim>\<open>setconf\<close>, \<^verbatim>\<open>addconf\<close>,
  \<^verbatim>\<open>syncconf\<close> and \<^verbatim>\<open>set\<close>, from the arguments to the device handed to the kernel.
\<close>

section \<open>The commands\<close>

text \<open>The lines \<^verbatim>\<open>getline\<close> delivers: each up to and including a newline, the last one perhaps without.\<close>

abbreviation newline :: char where "newline \<equiv> CHR 0x0A"

function getlines :: "string \<Rightarrow> string list" where
  "getlines s = (if s = [] then []
     else case strchr s newline of None \<Rightarrow> [s] | Some i \<Rightarrow> take (i + 1) s # getlines (drop (i + 1) s))"
  by pat_completeness auto
termination
  by (relation "measure length") (auto simp: strchr_Some)

declare getlines.simps [simp del]

fun config_read_lines :: "env \<Rightarrow> config_ctx \<Rightarrow> string list \<Rightarrow> config_error + config_ctx" where
  "config_read_lines env ctx [] = Inr ctx"
| "config_read_lines env ctx (l # ls) =
     (case config_read_line env ctx (cstr l) of Inl e \<Rightarrow> Inl e | Inr ctx' \<Rightarrow> config_read_lines env ctx' ls)"

text \<open>The part of \<^verbatim>\<open>setconf_main\<close> that reads the file.\<close>

definition config_read_file :: "env \<Rightarrow> bool \<Rightarrow> string \<Rightarrow> config_error + wgdevice" where
  "config_read_file env addconf contents =
     (case config_read_init env addconf of
        Inl e \<Rightarrow> Inl e
      | Inr ctx \<Rightarrow> (case config_read_lines env ctx (getlines contents) of
            Inl e \<Rightarrow> Inl e
          | Inr ctx \<Rightarrow> config_read_finish ctx))"

text \<open>The kernel interface and the other parameters of the commands.\<close>

record ipc =
  ipc_get_device :: "string \<Rightarrow> int + wgdevice"
  ipc_set_device :: "wgdevice \<Rightarrow> int"
  conf_fopen :: "string \<Rightarrow> string option"
  peer_qsort :: "peer_origin qsort"
  list_alloc_fails :: bool
  peer_alloc_fails :: "nat \<Rightarrow> bool"

text \<open>The exit status and the device handed to \<^verbatim>\<open>ipc_set_device\<close>; \<open>None\<close> if the command does not return.\<close>

type_synonym command = "(int \<times> wgdevice option) option"

fun failed :: "config_error \<Rightarrow> command" where
  "failed DoesNotReturn = None"
| "failed _ = Some (1, None)"

definition submit :: "ipc \<Rightarrow> wgdevice \<Rightarrow> command" where
  "submit ipc dev = Some (if ipc_set_device ipc dev \<noteq> 0 then 1 else 0, Some dev)"

definition set_name :: "string \<Rightarrow> wgdevice \<Rightarrow> wgdevice" where
  "set_name interface dev = dev\<lparr> name := take (IFNAMSIZ - 1) interface \<rparr>"

definition setconf_main :: "env \<Rightarrow> ipc \<Rightarrow> string list \<Rightarrow> command" where
  "setconf_main env ipc argv =
     (if length argv \<noteq> 3 then Some (1, None)
      else case conf_fopen ipc (argv ! 2) of
        None \<Rightarrow> Some (1, None)
      | Some contents \<Rightarrow>
          (case config_read_file env (argv ! 0 = ''addconf'') contents of
             Inl e \<Rightarrow> failed e
           | Inr dev \<Rightarrow>
               let dev = set_name (argv ! 1) dev
               in if argv ! 0 = ''syncconf'' then
                    (case sync_conf (peer_qsort ipc) (ipc_get_device ipc) (list_alloc_fails ipc) (peer_alloc_fails ipc) dev of
                       Inl _ \<Rightarrow> Some (1, None)
                     | Inr dev \<Rightarrow> submit ipc dev)
                  else submit ipc dev))"

definition set_main :: "env \<Rightarrow> ipc \<Rightarrow> string list \<Rightarrow> command" where
  "set_main env ipc argv =
     (if length argv < 3 then Some (1, None)
      else case config_read_cmd env (drop 2 argv) of
        Inl e \<Rightarrow> failed e
      | Inr dev \<Rightarrow> submit ipc (set_name (argv ! 1) dev))"

abbreviation replaces_peers :: "wgdevice \<Rightarrow> bool" where
  "replaces_peers d \<equiv> flag_test (d_flags d) WGDEVICE_REPLACE_PEERS"

lemma replaces_peers_or:
  "flag_test (f OR WGDEVICE_HAS_LISTEN_PORT) WGDEVICE_REPLACE_PEERS = flag_test f WGDEVICE_REPLACE_PEERS"
  "flag_test (f OR WGDEVICE_HAS_FWMARK) WGDEVICE_REPLACE_PEERS = flag_test f WGDEVICE_REPLACE_PEERS"
  "flag_test (f OR WGDEVICE_HAS_PRIVATE_KEY) WGDEVICE_REPLACE_PEERS = flag_test f WGDEVICE_REPLACE_PEERS"
  by (simp_all add: flag_defs flag_simps)

lemma parse_port_flags: "parse_port env fl v = Inr (p, fl') \<Longrightarrow> fl' = set_flag WGDEVICE_HAS_LISTEN_PORT fl"
  by (auto simp: parse_port_def split: if_splits gai_result.splits option.splits)

lemma parse_fwmark_flags: "parse_fwmark env fl v = Inr (m, fl') \<Longrightarrow> fl' = set_flag WGDEVICE_HAS_FWMARK fl"
  by (auto simp: parse_fwmark_def Let_def split: if_splits prod.splits)

lemma process_device_line_replaces:
  "process_device_line env dev line = Inr dev' \<Longrightarrow> replaces_peers dev' = replaces_peers dev"
  by (auto simp: process_device_line_def replaces_peers_or dest!: parse_port_flags parse_fwmark_flags
      split: option.splits sum.splits prod.splits bool.splits)

lemma config_read_line_replaces:
  "config_read_line env ctx line = Inr ctx' \<Longrightarrow> replaces_peers (device ctx') = replaces_peers (device ctx)"
  by (auto simp: config_read_line_def process_line_def process_peer_header_def
      dest: process_device_line_replaces split: if_splits option.splits sum.splits prod.splits)

lemma config_read_lines_ok:
  "config_read_lines env ctx ls = Inr ctx' \<Longrightarrow> ctx_ok ctx \<Longrightarrow>
     ctx_ok ctx' \<and> replaces_peers (device ctx') = replaces_peers (device ctx)"
proof (induction ls arbitrary: ctx)
  case (Cons l ls)
  then obtain ctx1 where 1: "config_read_line env ctx (cstr l) = Inr ctx1" "config_read_lines env ctx1 ls = Inr ctx'"
    by (auto split: sum.splits)
  show ?case
    using Cons.IH[OF 1(2)] config_read_line_ok(1)[OF Cons.prems(2) 1(1)] config_read_line_replaces[OF 1(1)] by simp
qed simp

lemma config_read_file_ok:
  assumes "config_read_file env addconf contents = Inr dev"
  shows "wf_device dev" "\<forall>p \<in> set (peers dev). flag_test (p_flags p) WGPEER_HAS_PUBLIC_KEY" "replaces_peers dev = (\<not> addconf)"
proof -
  obtain ctx ctx' where c: "config_read_init env addconf = Inr ctx"
    "config_read_lines env ctx (getlines contents) = Inr ctx'" "config_read_finish ctx' = Inr dev"
    using assms by (auto simp: config_read_file_def split: sum.splits)
  have ok: "ctx_ok ctx'" "replaces_peers (device ctx') = replaces_peers (device ctx)"
    using config_read_lines_ok[OF c(2) config_read_init_ok[OF c(1)]] by auto
  have dev: "dev = device ctx'" "\<forall>p \<in> set (peers dev). flag_test (p_flags p) WGPEER_HAS_PUBLIC_KEY"
    using c(3) by (auto simp: config_read_finish_def list_ex_iff split: if_splits)
  show "wf_device dev" using ok(1) dev(1) by (simp add: ctx_ok_def)
  show "\<forall>p \<in> set (peers dev). flag_test (p_flags p) WGPEER_HAS_PUBLIC_KEY" by (rule dev(2))
  have "replaces_peers (device ctx) = (\<not> addconf)"
    using c(1) by (auto simp: config_read_init_def new_device_def flag_defs flag_simps split: if_splits)
  then show "replaces_peers dev = (\<not> addconf)" using ok(2) dev(1) by simp
qed

lemma wf_set_name: "wf_device dev \<Longrightarrow> wf_device (set_name n dev)"
  by (simp add: wf_device_def set_name_def)

text \<open>C15. Whatever a configuration file holds, a device that \<^verbatim>\<open>setconf\<close> or \<^verbatim>\<open>addconf\<close> hands to the kernel is
  well formed, names the interface within its 15 characters and has a public key in every peer;
  \<^verbatim>\<open>setconf\<close> always asks to replace the present peers and \<^verbatim>\<open>addconf\<close> never does.\<close>

theorem setconf_device_sound:
  assumes "setconf_main env ipc [cmd, interface, path] = Some (status, Some dev)" "cmd \<noteq> ''syncconf''"
  shows "wf_device dev \<and> name dev = take 15 interface \<and>
    (\<forall>p \<in> set (peers dev). flag_test (p_flags p) WGPEER_HAS_PUBLIC_KEY) \<and>
    (flag_test (d_flags dev) WGDEVICE_REPLACE_PEERS \<longleftrightarrow> cmd \<noteq> ''addconf'')"
proof -
  have f: "failed e \<noteq> Some (status, Some dev)" for e by (cases e) auto
  obtain contents d where d: "config_read_file env (cmd = ''addconf'') contents = Inr d" "dev = set_name interface d"
    using assms f by (auto simp: setconf_main_def submit_def Let_def split: option.splits sum.splits)
  note F = config_read_file_ok[OF d(1)]
  show ?thesis unfolding d(2) using F wf_set_name[OF F(1)] by (simp add: set_name_def)
qed

theorem setconf_device_sound_witness:
  "\<exists>dev. setconf_main plain_env \<lparr> ipc_get_device = \<lambda>_. Inl 1, ipc_set_device = \<lambda>_. 0, conf_fopen = \<lambda>_. Some [],
        peer_qsort = insertion_sort, list_alloc_fails = False, peer_alloc_fails = \<lambda>_. False \<rparr>
      [''addconf'', ''wg0'', ''wg0.conf''] = Some (0, Some dev) \<and>
    \<not> flag_test (d_flags dev) WGDEVICE_REPLACE_PEERS"
proof -
  let ?ipc = "\<lparr> ipc_get_device = \<lambda>_. Inl 1, ipc_set_device = \<lambda>_. 0, conf_fopen = \<lambda>_. Some [],
        peer_qsort = insertion_sort, list_alloc_fails = False, peer_alloc_fails = \<lambda>_. False \<rparr>"
  have "\<exists>dev. setconf_main plain_env ?ipc [''addconf'', ''wg0'', ''wg0.conf''] = Some (0, Some dev)"
    by (simp add: setconf_main_def config_read_file_def config_read_init_def plain_env_def getlines.simps
        config_read_finish_def new_device_def submit_def)
  then show ?thesis using setconf_device_sound[of plain_env ?ipc "''addconf''" "''wg0''" "''wg0.conf''"] by auto
qed

end
