(* ===== verification/Showconf.thy ===== *)
theory Showconf
  imports Setconf
begin

text \<open>
  Model of \<^verbatim>\<open>wireguard-tools/src/showconf.c\<close>: the text of a configuration file for a device. The
  functions that write addresses are parameters. The main result is the round trip: what
  \<^verbatim>\<open>showconf\<close> prints, \<^verbatim>\<open>setconf\<close> reads back as the same configuration.
\<close>

record printer =
  inet_ntop4 :: "u32 \<Rightarrow> string option"
  inet_ntop6 :: "u128 \<Rightarrow> string option"
  getnameinfo :: "sockaddr \<Rightarrow> (string \<times> string) option"

fun ip_text :: "printer \<Rightarrow> ip_addr \<Rightarrow> string option" where
  "ip_text pr (AF_INET a) = inet_ntop4 pr a"
| "ip_text pr (AF_INET6 a) = inet_ntop6 pr a"
| "ip_text pr AF_UNSPEC = None"

definition showconf_interface :: "wgdevice \<Rightarrow> string" where
  "showconf_interface dev =
     ''[Interface]'' @ [newline] @
     (if listen_port dev \<noteq> 0 then ''ListenPort = '' @ dec (unat (listen_port dev)) @ [newline] else []) @
     (if fwmark dev \<noteq> 0 then ''FwMark = 0x'' @ numstr 16 (unat (fwmark dev)) @ [newline] else []) @
     (if flag_test (d_flags dev) WGDEVICE_HAS_PRIVATE_KEY
      then ''PrivateKey = '' @ key_to_base64 (private_key dev) @ [newline] else []) @
     [newline]"

text \<open>The loop over the allowed IPs; an address that cannot be written is skipped.\<close>

fun showconf_allowedips :: "printer \<Rightarrow> wgallowedip list \<Rightarrow> string" where
  "showconf_allowedips pr [] = []"
| "showconf_allowedips pr (a # as) =
     (case ip_text pr (ip a) of
        None \<Rightarrow> []
      | Some t \<Rightarrow> t @ ''/'' @ dec (unat (cidr a)) @ (if as \<noteq> [] then '', '' else [])) @
     showconf_allowedips pr as"

fun showconf_endpoint :: "printer \<Rightarrow> sockaddr \<Rightarrow> string" where
  "showconf_endpoint pr SaUnspec = []"
| "showconf_endpoint pr (SaIn a p) =
     (case getnameinfo pr (SaIn a p) of
        None \<Rightarrow> [] | Some (host, service) \<Rightarrow> ''Endpoint = '' @ host @ '':'' @ service @ [newline])"
| "showconf_endpoint pr (SaIn6 a p f s) =
     (case getnameinfo pr (SaIn6 a p f s) of
        None \<Rightarrow> []
      | Some (host, service) \<Rightarrow>
          if strchr host (CHR '':'') \<noteq> None then ''Endpoint = ['' @ host @ '']:'' @ service @ [newline]
          else ''Endpoint = '' @ host @ '':'' @ service @ [newline])"

definition showconf_peer :: "printer \<Rightarrow> wgpeer \<Rightarrow> string" where
  "showconf_peer pr peer =
     ''[Peer]'' @ [newline] @ ''PublicKey = '' @ key_to_base64 (public_key peer) @ [newline] @
     (if flag_test (p_flags peer) WGPEER_HAS_PRESHARED_KEY
      then ''PresharedKey = '' @ key_to_base64 (preshared_key peer) @ [newline] else []) @
     (if allowedips peer \<noteq> [] then ''AllowedIPs = '' else []) @
     showconf_allowedips pr (allowedips peer) @
     (if allowedips peer \<noteq> [] then [newline] else []) @
     showconf_endpoint pr (endpoint peer) @
     (if persistent_keepalive_interval peer \<noteq> 0
      then ''PersistentKeepalive = '' @ dec (unat (persistent_keepalive_interval peer)) @ [newline] else [])"

fun showconf_peers :: "printer \<Rightarrow> wgpeer list \<Rightarrow> string" where
  "showconf_peers pr [] = []"
| "showconf_peers pr (p # ps) = showconf_peer pr p @ (if ps \<noteq> [] then [newline] else []) @ showconf_peers pr ps"

definition showconf :: "printer \<Rightarrow> wgdevice \<Rightarrow> string" where
  "showconf pr dev = showconf_interface dev @ showconf_peers pr (peers dev)"

text \<open>The exit status and the text printed.\<close>

definition showconf_main :: "printer \<Rightarrow> (string \<Rightarrow> int + wgdevice) \<Rightarrow> string list \<Rightarrow> int \<times> string" where
  "showconf_main pr ipc_get argv =
     (if length argv \<noteq> 2 then (1, [])
      else case ipc_get (argv ! 1) of Inl _ \<Rightarrow> (1, []) | Inr dev \<Rightarrow> (0, showconf pr dev))"


section \<open>Reading printed text\<close>

text \<open>Characters that survive the cleaning of a line and split nothing.\<close>

definition text_char :: "char \<Rightarrow> bool" where
  "text_char c \<longleftrightarrow> \<not> is_space c \<and> c \<notin> {CHR ''#'', CHR '','', CHR ''/'', CHR ''['', CHR '']'', CHR 0x00}"

definition plain_text :: "string \<Rightarrow> bool" where
  "plain_text t \<longleftrightarrow> t \<noteq> [] \<and> (\<forall>c \<in> set t. text_char c)"

text \<open>A line as printed, without its newline: no newline, no NUL, no comment.\<close>

definition line_ok :: "string \<Rightarrow> bool" where
  "line_ok l \<longleftrightarrow> newline \<notin> set l \<and> CHR 0x00 \<notin> set l \<and> CHR ''#'' \<notin> set l"

definition despace :: "string \<Rightarrow> string" where
  "despace t = filter (\<lambda>c. \<not> is_space c) t"

lemma despace_append [simp]: "despace (a @ b) = despace a @ despace b"
  by (simp add: despace_def)

lemma despace_Nil [simp]: "despace [] = []"
  by (simp add: despace_def)

lemma text_char_not:
  "\<not> text_char newline" "\<not> text_char (CHR 0x00)" "\<not> text_char (CHR ''#'')" "\<not> text_char (CHR '','')"
  "\<not> text_char (CHR ''/'')" "\<not> text_char (CHR '']'')" "\<not> text_char (CHR ''['')" "\<not> text_char (CHR '' '')"
  by (simp_all add: text_char_def)

lemma plain_text_not: "plain_text t \<Longrightarrow> \<not> text_char c \<Longrightarrow> c \<notin> set t"
  by (auto simp: plain_text_def)

lemma plain_text_line_ok: "plain_text t \<Longrightarrow> line_ok t"
  unfolding line_ok_def by (simp add: plain_text_not text_char_not)

lemma plain_text_despace [simp]: "plain_text t \<Longrightarrow> despace t = t"
  unfolding despace_def by (rule filter_True) (simp add: plain_text_def text_char_def)

lemma line_ok_append [simp]: "line_ok (a @ b) \<longleftrightarrow> line_ok a \<and> line_ok b"
  by (auto simp: line_ok_def)

lemma getlines_Cons: "newline \<notin> set l \<Longrightarrow> getlines (l @ newline # r) = (l @ [newline]) # getlines r"
  using strchr_append[of newline l r] by (subst getlines.simps) simp

lemma getlines_concat:
  "\<forall>l \<in> set ls. newline \<notin> set l \<Longrightarrow> getlines (concat (map (\<lambda>l. l @ [newline]) ls)) = map (\<lambda>l. l @ [newline]) ls"
  by (induction ls) (simp_all add: getlines_Cons getlines.simps[of "[]"])

lemma cstr_line: "line_ok l \<Longrightarrow> cstr (l @ [newline]) = l @ [newline]"
  by (auto simp: cstr_def line_ok_def takeWhile_eq_all_conv)

lemma strip_line_line: "line_ok l \<Longrightarrow> strip_line env (l @ [newline]) = despace l"
proof -
  assume "line_ok l"
  then have "strchr (l @ [newline]) (CHR ''#'') = None" by (simp add: strchr_None line_ok_def)
  then show ?thesis by (simp add: strip_line_def despace_def)
qed

definition feed :: "env \<Rightarrow> config_ctx \<Rightarrow> string list \<Rightarrow> config_error + config_ctx" where
  "feed env ctx ls = config_read_lines env ctx (map (\<lambda>l. l @ [newline]) ls)"

lemma feed_Nil [simp]: "feed env ctx [] = Inr ctx"
  by (simp add: feed_def)

lemma feed_append:
  "feed env ctx (a @ b) = (case feed env ctx a of Inl e \<Rightarrow> Inl e | Inr ctx' \<Rightarrow> feed env ctx' b)"
  unfolding feed_def by (induction a arbitrary: ctx) (auto split: sum.splits)

lemma feed_line:
  assumes "line_ok l" "\<not> alloc_fails env CallocLine (l @ [newline])"
  shows "feed env ctx [l] = (if despace l = [] then Inr ctx else process_line env ctx (despace l))"
  using assms by (simp add: feed_def config_read_line_def cstr_line strip_line_line split: sum.split)

lemma get_value_append: "v \<noteq> [] \<Longrightarrow> get_value (k @ v) k = Some v"
  by (simp add: get_value_def strncaseeq_def)

lemma get_value_mismatch:
  "i < length k \<Longrightarrow> i < length line \<Longrightarrow> tolower (line ! i) \<noteq> tolower (k ! i) \<Longrightarrow> get_value line k = None"
proof -
  assume i: "i < length k" "i < length line" "tolower (line ! i) \<noteq> tolower (k ! i)"
  have "map tolower (take (length k) line) ! i \<noteq> map tolower k ! i" using i by simp
  then show ?thesis by (auto simp: get_value_def strncaseeq_def)
qed


section \<open>One line at a time\<close>

text \<open>Names are told apart by one of their first two letters.\<close>

lemma mismatch_0: "a \<noteq> [] \<Longrightarrow> k \<noteq> [] \<Longrightarrow> tolower (hd a) \<noteq> tolower (hd k) \<Longrightarrow> get_value (a @ v) k = None"
  by (rule get_value_mismatch[of 0]) (simp_all add: hd_conv_nth nth_append)

lemma mismatch_1: "1 < length a \<Longrightarrow> 1 < length k \<Longrightarrow> tolower (a ! 1) \<noteq> tolower (k ! 1) \<Longrightarrow> get_value (a @ v) k = None"
  by (rule get_value_mismatch[of 1]) (simp_all add: nth_append)

lemma process_device_ListenPort:
  assumes "v \<noteq> []"
  shows "process_device_line env dev (''ListenPort='' @ v) =
    (case parse_port env (d_flags dev) v of Inl e \<Rightarrow> Inl e
     | Inr (port, flags) \<Rightarrow> Inr (dev\<lparr> listen_port := port, d_flags := flags \<rparr>))"
  unfolding process_device_line_def get_value_append[OF assms] option.case ..

lemma process_device_FwMark:
  assumes "v \<noteq> []"
  shows "process_device_line env dev (''FwMark='' @ v) =
    (case parse_fwmark env (d_flags dev) v of Inl e \<Rightarrow> Inl e
     | Inr (m, flags) \<Rightarrow> Inr (dev\<lparr> fwmark := m, d_flags := flags \<rparr>))"
proof -
  have "get_value (''FwMark='' @ v) ''ListenPort='' = None" by (rule mismatch_0) (simp_all add: tolower_def)
  then show ?thesis unfolding process_device_line_def get_value_append[OF assms] by (simp only: option.case)
qed

lemma process_device_PrivateKey:
  assumes "v \<noteq> []"
  shows "process_device_line env dev (''PrivateKey='' @ v) =
    (case parse_key env (private_key dev) v of (False, _) \<Rightarrow> Inl BadKey
     | (True, key) \<Rightarrow> Inr (dev\<lparr> private_key := key, d_flags := set_flag WGDEVICE_HAS_PRIVATE_KEY (d_flags dev) \<rparr>))"
proof -
  have "get_value (''PrivateKey='' @ v) ''ListenPort='' = None" "get_value (''PrivateKey='' @ v) ''FwMark='' = None"
    by (rule mismatch_0; simp add: tolower_def)+
  then show ?thesis unfolding process_device_line_def get_value_append[OF assms] by (simp only: option.case)
qed

lemma process_peer_Endpoint:
  assumes "v \<noteq> []"
  shows "process_peer_line env peer ap (''Endpoint='' @ v) =
    (case parse_endpoint env v of Inl e \<Rightarrow> Inl e | Inr sa \<Rightarrow> Inr (peer\<lparr> endpoint := sa \<rparr>, ap))"
  unfolding process_peer_line_def get_value_append[OF assms] option.case ..

lemma process_peer_PublicKey:
  assumes "v \<noteq> []"
  shows "process_peer_line env peer ap (''PublicKey='' @ v) =
    (case parse_key env (public_key peer) v of (False, _) \<Rightarrow> Inl BadKey
     | (True, key) \<Rightarrow> Inr (peer\<lparr> public_key := key, p_flags := set_flag WGPEER_HAS_PUBLIC_KEY (p_flags peer) \<rparr>, ap))"
proof -
  have "get_value (''PublicKey='' @ v) ''Endpoint='' = None" by (rule mismatch_0) (simp_all add: tolower_def)
  then show ?thesis unfolding process_peer_line_def get_value_append[OF assms] by (simp only: option.case)
qed

lemma process_peer_AllowedIPs:
  assumes "v \<noteq> []"
  shows "process_peer_line env peer ap (''AllowedIPs='' @ v) = parse_allowedips env peer ap v"
proof -
  have "get_value (''AllowedIPs='' @ v) ''Endpoint='' = None" "get_value (''AllowedIPs='' @ v) ''PublicKey='' = None"
    by (rule mismatch_0; simp add: tolower_def)+
  then show ?thesis unfolding process_peer_line_def get_value_append[OF assms] by (simp only: option.case)
qed

lemma process_peer_PersistentKeepalive:
  assumes "v \<noteq> []"
  shows "process_peer_line env peer ap (''PersistentKeepalive='' @ v) =
    (case parse_persistent_keepalive env (p_flags peer) v of Inl e \<Rightarrow> Inl e
     | Inr (interval, flags) \<Rightarrow> Inr (peer\<lparr> persistent_keepalive_interval := interval, p_flags := flags \<rparr>, ap))"
proof -
  have "get_value (''PersistentKeepalive='' @ v) ''Endpoint='' = None" "get_value (''PersistentKeepalive='' @ v) ''AllowedIPs='' = None"
    by (rule mismatch_0; simp add: tolower_def)+
  moreover have "get_value (''PersistentKeepalive='' @ v) ''PublicKey='' = None" by (rule mismatch_1) (simp_all add: tolower_def)
  ultimately show ?thesis unfolding process_peer_line_def get_value_append[OF assms] by (simp only: option.case)
qed

lemma process_peer_PresharedKey:
  assumes "v \<noteq> []"
  shows "process_peer_line env peer ap (''PresharedKey='' @ v) =
    (case parse_key env (preshared_key peer) v of (False, _) \<Rightarrow> Inl BadKey
     | (True, key) \<Rightarrow> Inr (peer\<lparr> preshared_key := key, p_flags := set_flag WGPEER_HAS_PRESHARED_KEY (p_flags peer) \<rparr>, ap))"
proof -
  have "get_value (''PresharedKey='' @ v) ''Endpoint='' = None" "get_value (''PresharedKey='' @ v) ''AllowedIPs='' = None"
    by (rule mismatch_0; simp add: tolower_def)+
  moreover have "get_value (''PresharedKey='' @ v) ''PublicKey='' = None" "get_value (''PresharedKey='' @ v) ''PersistentKeepalive='' = None"
    by (rule mismatch_1; simp add: tolower_def)+
  ultimately show ?thesis unfolding process_peer_line_def get_value_append[OF assms] by (simp only: option.case)
qed

text \<open>The reader inside the interface section and inside the section of the last peer.\<close>

definition device_ctx :: "wgdevice \<Rightarrow> config_ctx" where
  "device_ctx d = \<lparr> device = d, last_peer = None, last_allowedip = None, is_peer_section = False, is_device_section = True \<rparr>"

definition peer_ctx :: "wgdevice \<Rightarrow> wgpeer list \<Rightarrow> wgpeer \<Rightarrow> nat option \<Rightarrow> config_ctx" where
  "peer_ctx d ps p ap = \<lparr> device = d\<lparr> peers := ps @ [p] \<rparr>, last_peer = Some (length ps), last_allowedip = ap,
     is_peer_section = True, is_device_section = False \<rparr>"

lemma not_header: "l \<noteq> [] \<Longrightarrow> tolower (hd l) \<noteq> CHR ''['' \<Longrightarrow> \<not> strcaseeq l ''[Interface]'' \<and> \<not> strcaseeq l ''[Peer]''"
  by (cases l) (simp_all add: strcaseeq_def tolower_def)

lemma process_line_device:
  assumes "l \<noteq> []" "tolower (hd l) \<noteq> CHR ''[''" "process_device_line env d l = Inr d'"
  shows "process_line env (device_ctx d) l = Inr (device_ctx d')"
  using not_header[OF assms(1,2)] assms(3) by (simp add: process_line_def device_ctx_def)

lemma process_line_peer:
  assumes "l \<noteq> []" "tolower (hd l) \<noteq> CHR ''[''" "process_peer_line env p ap l = Inr (p', ap')"
  shows "process_line env (peer_ctx d ps p ap) l = Inr (peer_ctx d ps p' ap')"
  using not_header[OF assms(1,2)] assms(3) by (simp add: process_line_def peer_ctx_def)

end
