(* ===== verification/Inet.thy ===== *)
theory Inet
  imports Showconf
begin

text \<open>
  Numeric addresses as text: the dotted quad of an IPv4 address, the eight hexadecimal groups of an
  IPv6 address, and a resolver that knows only numeric hosts and services. These give a concrete
  instance of the C library the commands are proved against.
\<close>

text \<open>The digits of a number in a fixed number of places, most significant first.\<close>

fun places :: "nat \<Rightarrow> nat \<Rightarrow> nat \<Rightarrow> nat list" where
  "places b 0 n = []"
| "places b (Suc k) n = places b k (n div b) @ [n mod b]"

definition unplaces :: "nat \<Rightarrow> nat list \<Rightarrow> nat" where
  "unplaces b = foldl (\<lambda>n d. n * b + d) 0"

lemma length_places [simp]: "length (places b k n) = k"
  by (induction k arbitrary: n) auto

lemma places_less: "0 < b \<Longrightarrow> d \<in> set (places b k n) \<Longrightarrow> d < b"
  by (induction k arbitrary: n) auto

lemma unplaces_places: "0 < b \<Longrightarrow> n < b ^ k \<Longrightarrow> unplaces b (places b k n) = n"
proof (induction k arbitrary: n)
  case (Suc k)
  then have "n div b < b ^ k" by (simp add: less_mult_imp_div_less mult.commute)
  then show ?case using Suc by (simp add: unplaces_def)
qed (simp add: unplaces_def)

text \<open>Text of \<^term>\<open>k\<close> groups of digits, each to base \<^term>\<open>r\<close> and below \<^term>\<open>b\<close>, with a separator.\<close>

definition groups_ntop :: "nat \<Rightarrow> char \<Rightarrow> nat \<Rightarrow> nat \<Rightarrow> nat \<Rightarrow> string" where
  "groups_ntop r sep b k n = join_with sep (map (numstr r) (places b k n))"

definition group_ok :: "nat \<Rightarrow> nat \<Rightarrow> string \<Rightarrow> bool" where
  "group_ok r b t \<longleftrightarrow> t \<noteq> [] \<and> list_all (\<lambda>c. digit_val c < r) t \<and> numval r t < b"

definition groups_pton :: "nat \<Rightarrow> char \<Rightarrow> nat \<Rightarrow> nat \<Rightarrow> string \<Rightarrow> nat option" where
  "groups_pton r sep b k s =
     (let ts = strsep_tokens sep s
      in if length ts = k \<and> list_all (group_ok r b) ts then Some (unplaces b (map (numval r) ts)) else None)"

lemma join_with_set: "set (join_with d ts) \<subseteq> insert d (\<Union>(set ` set ts))"
  by (induction d ts rule: join_with.induct) auto

lemma join_with_sep: "2 \<le> length ts \<Longrightarrow> d \<in> set (join_with d ts)"
  by (induction d ts rule: join_with.induct) auto

lemma hd_join_with: "ts \<noteq> [] \<Longrightarrow> hd ts \<noteq> [] \<Longrightarrow> hd (join_with d ts) = hd (hd ts) \<and> join_with d ts \<noteq> []"
  by (induction d ts rule: join_with.induct) auto

lemma groups_ntop_set:
  assumes "2 \<le> r" "c \<in> set (groups_ntop r sep b k n)"
  shows "c = sep \<or> (\<exists>m. c \<in> set (numstr r m))"
  using subsetD[OF join_with_set assms(2)[unfolded groups_ntop_def]] by auto

lemma groups_roundtrip:
  assumes "2 \<le> r" "r \<le> 36" "0 < b" "0 < k" "n < b ^ k" "36 \<le> digit_val sep"
  shows "groups_pton r sep b k (groups_ntop r sep b k n) = Some n"
proof -
  let ?ts = "map (numstr r) (places b k n)"
  have d: "digit_val c < r" if "c \<in> set (numstr r m)" for c m using numstr_digit_val[OF assms(1,2) that] .
  have "?ts \<noteq> []" using assms(4) by (metis length_0_conv length_map length_places less_numeral_extra(3))
  moreover have "\<forall>t \<in> set ?ts. sep \<notin> set t" using d assms(2,6) by fastforce
  ultimately have t: "strsep_tokens sep (groups_ntop r sep b k n) = ?ts"
    unfolding groups_ntop_def by (rule strsep_tokens_join)
  have "list_all (group_ok r b) ?ts"
    using places_less[OF assms(3)] d numval_numstr[OF assms(1,2)] by (auto simp: list_all_iff group_ok_def)
  moreover have "map (numval r) ?ts = places b k n" using numval_numstr[OF assms(1,2)] by (simp add: comp_def)
  ultimately show ?thesis using unplaces_places[OF assms(3,5)] by (simp add: groups_pton_def t)
qed

lemma groups_ntop_hd:
  assumes "2 \<le> r" "r \<le> 36" "0 < k"
  shows "groups_ntop r sep b k n \<noteq> []" "48 \<le> code (hd (groups_ntop r sep b k n))"
proof -
  let ?ts = "map (numstr r) (places b k n)"
  have ne: "places b k n \<noteq> []" using assms(3) by (metis length_0_conv length_places less_numeral_extra(3))
  then have h: "hd ?ts = numstr r (hd (places b k n))" by (rule hd_map)
  then have "hd (join_with sep ?ts) = hd (hd ?ts) \<and> join_with sep ?ts \<noteq> []" using hd_join_with[of ?ts sep] ne by simp
  moreover have "hd (hd ?ts) \<in> set (numstr r (hd (places b k n)))" unfolding h by simp
  ultimately show "groups_ntop r sep b k n \<noteq> []" "48 \<le> code (hd (groups_ntop r sep b k n))"
    using numstr_code[OF assms(1,2)] unfolding groups_ntop_def by fastforce+
qed

lemma groups_ntop_plain:
  assumes "2 \<le> r" "r \<le> 36" "0 < k" "text_char sep"
  shows "plain_text (groups_ntop r sep b k n)"
proof -
  have "text_char c" if "c \<in> set (numstr r m)" for c m
    using numstr_code[OF assms(1,2) that] by (auto simp: text_char_def)
  then show ?thesis
    using groups_ntop_set[OF assms(1)] groups_ntop_hd(1)[OF assms(1-3)] assms(4) unfolding plain_text_def by blast
qed

lemma unat_below: "unat (w :: 'a::len word) < 2 ^ LENGTH('a)"
  by (rule unsigned_less)

text \<open>IPv4 and IPv6.\<close>

definition ntop4 :: "u32 \<Rightarrow> string" where
  "ntop4 a = groups_ntop 10 (CHR ''.'') 256 4 (unat a)"

definition pton4 :: "string \<Rightarrow> u32 option" where
  "pton4 s = map_option of_nat (groups_pton 10 (CHR ''.'') 256 4 s)"

definition ntop6 :: "u128 \<Rightarrow> string" where
  "ntop6 a = groups_ntop 16 (CHR '':'') 65536 8 (unat a)"

definition pton6 :: "string \<Rightarrow> u128 option" where
  "pton6 s = map_option of_nat (groups_pton 16 (CHR '':'') 65536 8 s)"

lemma sep_digit_val: "digit_val (CHR ''.'') = 36" "digit_val (CHR '':'') = 36"
  by (simp_all add: digit_val_def)

lemma pton4_ntop4: "pton4 (ntop4 a) = Some a"
proof -
  have "unat a < 256 ^ 4" using unat_below[of a] by simp
  then show ?thesis using groups_roundtrip[of 10 256 4 "unat a" "CHR ''.''"] sep_digit_val by (simp add: pton4_def ntop4_def)
qed

lemma pton6_ntop6: "pton6 (ntop6 a) = Some a"
proof -
  have "unat a < 65536 ^ 8" using unat_below[of a] by simp
  then show ?thesis using groups_roundtrip[of 16 65536 8 "unat a" "CHR '':''"] sep_digit_val by (simp add: pton6_def ntop6_def)
qed

lemma ntop4_text: "plain_text (ntop4 a)" "hd (ntop4 a) \<notin> {CHR ''+'', CHR ''-''}" "CHR '':'' \<notin> set (ntop4 a)"
proof -
  show "plain_text (ntop4 a)" unfolding ntop4_def by (rule groups_ntop_plain) (simp_all add: text_char_def)
  show "hd (ntop4 a) \<notin> {CHR ''+'', CHR ''-''}"
    using groups_ntop_hd(2)[of 10 4 "CHR ''.''" 256 "unat a"] unfolding ntop4_def by auto
  show "CHR '':'' \<notin> set (ntop4 a)"
    using groups_ntop_set[of 10 "CHR '':''"] dec_is_digit[of "CHR '':''"] unfolding ntop4_def by fastforce
qed

lemma ntop6_text: "plain_text (ntop6 a)" "hd (ntop6 a) \<notin> {CHR ''+'', CHR ''-''}" "CHR '':'' \<in> set (ntop6 a)"
proof -
  show "plain_text (ntop6 a)" unfolding ntop6_def by (rule groups_ntop_plain) (simp_all add: text_char_def)
  show "hd (ntop6 a) \<notin> {CHR ''+'', CHR ''-''}"
    using groups_ntop_hd(2)[of 16 8 "CHR '':''" 65536 "unat a"] unfolding ntop6_def by auto
  show "CHR '':'' \<in> set (ntop6 a)"
    unfolding ntop6_def groups_ntop_def by (rule join_with_sep) simp
qed

lemma pton4_colon: "CHR '':'' \<in> set s \<Longrightarrow> pton4 s = None"
proof -
  assume c: "CHR '':'' \<in> set s"
  have "\<not> list_all (group_ok 10 256) (strsep_tokens (CHR ''.'') s)"
  proof
    assume "list_all (group_ok 10 256) (strsep_tokens (CHR ''.'') s)"
    then have "c \<in> set t \<Longrightarrow> digit_val c < 10" if "t \<in> set (strsep_tokens (CHR ''.'') s)" for t c
      using that by (auto simp: list_all_iff group_ok_def)
    moreover have "\<exists>t \<in> set (strsep_tokens (CHR ''.'') s). CHR '':'' \<in> set t"
      using join_with_set[of "CHR ''.''" "strsep_tokens (CHR ''.'') s"] c by (auto simp: join_strsep_tokens)
    ultimately show False using sep_digit_val(2) by fastforce
  qed
  then show "pton4 s = None" by (simp add: pton4_def groups_pton_def Let_def)
qed

text \<open>A resolver for numeric hosts and services, and an environment with it.\<close>

definition numeric_port :: "string \<Rightarrow> u16 option" where
  "numeric_port s = (if all_digits s \<and> numval 10 s < 65536 then Some (of_nat (numval 10 s)) else None)"

definition numeric_gai :: "string \<Rightarrow> string \<Rightarrow> gai_result" where
  "numeric_gai h s = (case numeric_port s of
     None \<Rightarrow> GaiError EAI_NONAME
   | Some p \<Rightarrow> (case pton4 h of
       Some a \<Rightarrow> GaiAddr (SaIn a p)
     | None \<Rightarrow> (case pton6 h of Some b \<Rightarrow> GaiAddr (SaIn6 b p 0 0) | None \<Rightarrow> GaiError EAI_NONAME)))"

fun numeric_name :: "sockaddr \<Rightarrow> (string \<times> string) option" where
  "numeric_name (SaIn a p) = Some (ntop4 a, dec (unat p))"
| "numeric_name (SaIn6 b p f s) = (if s = 0 then Some (ntop6 b, dec (unat p)) else None)"
| "numeric_name SaUnspec = None"

definition numeric_env :: env where
  "numeric_env = plain_env\<lparr> inet_pton4 := pton4, inet_pton6 := pton6,
     gai_passive := (\<lambda>s. case numeric_port s of None \<Rightarrow> GaiError EAI_NONAME | Some p \<Rightarrow> GaiAddr (SaIn 0 p)),
     gai := (\<lambda>h s _. numeric_gai h s) \<rparr>"

definition numeric_printer :: printer where
  "numeric_printer = \<lparr> inet_ntop4 = (\<lambda>a. Some (ntop4 a)), inet_ntop6 = (\<lambda>a. Some (ntop6 a)), getnameinfo = numeric_name \<rparr>"

lemma unat_u16: "unat (n::u16) < 65536"
  using unat_below[of n] by simp

lemma unat_u32: "unat (n::u32) \<le> 2 ^ 32 - 1"
  using unat_below[of n] by simp

lemma all_digits_dec: "all_digits (dec n)"
  using dec_is_digit by (simp add: all_digits_def)

lemma numeric_port_dec: "n < 65536 \<Longrightarrow> numeric_port (dec n) = Some (of_nat n)"
  by (simp add: numeric_port_def all_digits_dec numval_numstr)

lemma numeric_gai_name:
  "numeric_gai (ntop4 a) (dec (unat p)) = GaiAddr (SaIn a p)"
  "numeric_gai (ntop6 b) (dec (unat p)) = GaiAddr (SaIn6 b p 0 0)"
  using numeric_port_dec[OF unat_u16, of p] ntop6_text(3)
  by (simp_all add: numeric_gai_def pton4_ntop4 pton6_ntop6 pton4_colon)

end
