(* ===== verification/Roundtrip.thy ===== *)
theory Roundtrip
  imports Inet
begin

text \<open>
  The round trip between \<^verbatim>\<open>showconf\<close> and \<^verbatim>\<open>setconf\<close>. The locale states what both commands rely on of the
  C library: that text written for an address or a port is read back as that address or port, and
  of which characters it is made.
\<close>

locale config_world =
  fixes env :: env and pr :: printer
  assumes memory: "\<not> alloc_fails env site v"
    and wide: "33 \<le> long_bits env"
    and retries: "\<exists>r. parse_dns_retries env = Inr r"
    and ntop4: "inet_ntop4 pr a = Some t \<Longrightarrow>
      inet_pton4 env t = Some a \<and> plain_text t \<and> hd t \<notin> {CHR ''+'', CHR ''-''} \<and> CHR '':'' \<notin> set t"
    and ntop6: "inet_ntop6 pr b = Some t \<Longrightarrow>
      inet_pton6 env t = Some b \<and> plain_text t \<and> hd t \<notin> {CHR ''+'', CHR ''-''} \<and> CHR '':'' \<in> set t"
    and name4: "getnameinfo pr (SaIn a p) = Some (h, s) \<Longrightarrow>
      gai env h s 0 = GaiAddr (SaIn a p) \<and> plain_text h \<and> CHR '':'' \<notin> set h \<and> all_digits s"
    and name6: "getnameinfo pr (SaIn6 b p 0 sc) = Some (h, s) \<Longrightarrow>
      gai env h s 0 = GaiAddr (SaIn6 b p 0 sc) \<and> plain_text h \<and> all_digits s"
    and service: "n < 65536 \<Longrightarrow> \<exists>sa. gai_passive env (dec n) = GaiAddr sa \<and> sockaddr_port sa = Some (of_nat n)"

text \<open>The lines printed for a peer and for a device, without their newlines.\<close>

definition endpoint_lines :: "printer \<Rightarrow> sockaddr \<Rightarrow> string list" where
  "endpoint_lines pr sa = (case sa of SaUnspec \<Rightarrow> [] | _ \<Rightarrow> (case getnameinfo pr sa of
      None \<Rightarrow> []
    | Some (h, s) \<Rightarrow>
        [''Endpoint = '' @ (case sa of SaIn6 _ _ _ _ \<Rightarrow>
            if strchr h (CHR '':'') \<noteq> None then ''['' @ h @ '']:'' @ s else h @ '':'' @ s
          | _ \<Rightarrow> h @ '':'' @ s)]))"

definition peer_lines :: "printer \<Rightarrow> wgpeer \<Rightarrow> string list" where
  "peer_lines pr p = [''[Peer]'', ''PublicKey = '' @ key_to_base64 (public_key p)] @
     (if flag_test (p_flags p) WGPEER_HAS_PRESHARED_KEY then [''PresharedKey = '' @ key_to_base64 (preshared_key p)] else []) @
     (if allowedips p \<noteq> [] then [''AllowedIPs = '' @ showconf_allowedips pr (allowedips p)] else []) @
     endpoint_lines pr (endpoint p) @
     (if persistent_keepalive_interval p \<noteq> 0
      then [''PersistentKeepalive = '' @ dec (unat (persistent_keepalive_interval p))] else [])"

fun peers_lines :: "printer \<Rightarrow> wgpeer list \<Rightarrow> string list" where
  "peers_lines pr [] = []"
| "peers_lines pr (p # ps) = peer_lines pr p @ (if ps \<noteq> [] then [[]] else []) @ peers_lines pr ps"

definition interface_lines :: "wgdevice \<Rightarrow> string list" where
  "interface_lines d = [''[Interface]''] @
     (if listen_port d \<noteq> 0 then [''ListenPort = '' @ dec (unat (listen_port d))] else []) @
     (if fwmark d \<noteq> 0 then [''FwMark = 0x'' @ numstr 16 (unat (fwmark d))] else []) @
     (if flag_test (d_flags d) WGDEVICE_HAS_PRIVATE_KEY then [''PrivateKey = '' @ key_to_base64 (private_key d)] else []) @
     [[]]"

abbreviation unlines :: "string list \<Rightarrow> string" where
  "unlines ls \<equiv> concat (map (\<lambda>l. l @ [newline]) ls)"

lemma showconf_endpoint_lines: "showconf_endpoint pr sa = unlines (endpoint_lines pr sa)"
  by (cases sa) (auto simp: endpoint_lines_def split: option.split)

lemma showconf_allowedips_Nil: "showconf_allowedips pr [] = []"
  by simp

lemma showconf_peer_lines: "showconf_peer pr p = unlines (peer_lines pr p)"
  by (simp add: showconf_peer_def peer_lines_def showconf_endpoint_lines)

lemma showconf_peers_lines: "showconf_peers pr ps = unlines (peers_lines pr ps)"
  by (induction ps) (simp_all add: showconf_peer_lines)

lemma showconf_lines: "showconf pr d = unlines (interface_lines d @ peers_lines pr (peers d))"
  by (simp add: showconf_def showconf_interface_def interface_lines_def showconf_peers_lines)

text \<open>What is printable: well-formed, addresses that can be written, no IPv6 flow label.\<close>

definition printable_peer :: "printer \<Rightarrow> wgpeer \<Rightarrow> bool" where
  "printable_peer pr p \<longleftrightarrow> wf_peer p \<and> (\<forall>a \<in> set (allowedips p). ip_text pr (ip a) \<noteq> None) \<and>
     (case endpoint p of SaIn6 _ _ f _ \<Rightarrow> f = 0 | _ \<Rightarrow> True)"

definition printable :: "printer \<Rightarrow> wgdevice \<Rightarrow> bool" where
  "printable pr d \<longleftrightarrow> length (private_key d) = WG_KEY_LEN \<and> list_all (printable_peer pr) (peers d)"

text \<open>What is read back: the configuration, with the flags that say which parts are given.\<close>

definition printed_endpoint :: "printer \<Rightarrow> sockaddr \<Rightarrow> sockaddr" where
  "printed_endpoint pr sa = (if endpoint_lines pr sa = [] then SaUnspec else sa)"

definition reread_peer :: "printer \<Rightarrow> wgpeer \<Rightarrow> wgpeer" where
  "reread_peer pr p = new_peer\<lparr>
     p_flags := WGPEER_REPLACE_ALLOWEDIPS OR WGPEER_HAS_PUBLIC_KEY
       OR (if flag_test (p_flags p) WGPEER_HAS_PRESHARED_KEY then WGPEER_HAS_PRESHARED_KEY else 0)
       OR (if persistent_keepalive_interval p \<noteq> 0 then WGPEER_HAS_PERSISTENT_KEEPALIVE_INTERVAL else 0),
     public_key := public_key p,
     preshared_key := (if flag_test (p_flags p) WGPEER_HAS_PRESHARED_KEY then preshared_key p else zero_key),
     endpoint := printed_endpoint pr (endpoint p),
     persistent_keepalive_interval := persistent_keepalive_interval p,
     allowedips := map (\<lambda>a. a\<lparr> a_flags := 0 \<rparr>) (allowedips p) \<rparr>"

definition reread_device :: "printer \<Rightarrow> wgdevice \<Rightarrow> wgdevice" where
  "reread_device pr d = new_device\<lparr>
     d_flags := WGDEVICE_REPLACE_PEERS OR WGDEVICE_HAS_PRIVATE_KEY OR WGDEVICE_HAS_FWMARK OR WGDEVICE_HAS_LISTEN_PORT,
     private_key := (if flag_test (d_flags d) WGDEVICE_HAS_PRIVATE_KEY then private_key d else zero_key),
     fwmark := fwmark d, listen_port := listen_port d, peers := map (reread_peer pr) (peers d) \<rparr>"

lemma tolower_bracket: "tolower c = CHR ''['' \<longleftrightarrow> c = CHR ''[''"
proof (cases "65 \<le> code c \<and> code c \<le> 90")
  case True
  have "char_of (code c + 32) \<noteq> CHR ''[''"
  proof
    assume "char_of (code c + 32) = CHR ''[''"
    then have "code (char_of (code c + 32)) = code (CHR ''['')" by (rule arg_cong)
    then show False using True by (simp add: of_char_of)
  qed
  then show ?thesis using True by (auto simp: tolower_def)
next
  case False
  then have "tolower c = c" unfolding tolower_def by (rule if_not_P)
  then show ?thesis by simp
qed

lemma dec_plain: "plain_text (dec n)"
proof -
  have "text_char c" if "is_digit c" for c using that by (auto simp: text_char_def)
  then show ?thesis using dec_is_digit by (simp add: plain_text_def)
qed

text \<open>Text that survives the cleaning of a line.\<close>

definition clean :: "string \<Rightarrow> bool" where
  "clean t \<longleftrightarrow> (\<forall>c \<in> set t. \<not> is_space c \<and> c \<noteq> CHR ''#'' \<and> c \<noteq> CHR 0x00)"

lemma clean_append [simp]: "clean (a @ b) \<longleftrightarrow> clean a \<and> clean b"
  by (auto simp: clean_def)

lemma clean_despace [simp]: "clean t \<Longrightarrow> despace t = t"
  unfolding despace_def by (rule filter_True) (simp add: clean_def)

lemma clean_line_ok: "clean t \<Longrightarrow> line_ok t"
proof -
  assume "clean t"
  then have "c \<in> set t \<Longrightarrow> \<not> is_space c \<and> c \<noteq> CHR ''#'' \<and> c \<noteq> CHR 0x00" for c unfolding clean_def by blast
  from this[of newline] this[of "CHR ''#''"] this[of "CHR 0x00"] show ?thesis unfolding line_ok_def by auto
qed

lemma plain_clean: "plain_text t \<Longrightarrow> clean t"
  unfolding plain_text_def clean_def text_char_def by blast

lemma clean_codes: "(\<And>c. c \<in> set t \<Longrightarrow> 36 \<le> code c) \<Longrightarrow> clean t"
proof -
  assume *: "\<And>c. c \<in> set t \<Longrightarrow> 36 \<le> code c"
  have "\<not> is_space c \<and> c \<noteq> CHR ''#'' \<and> c \<noteq> CHR 0x00" if "36 \<le> code c" for c using that by auto
  then show ?thesis using * unfolding clean_def by blast
qed

lemma encode_base64_codes: "c \<in> set (encode_base64 x y z) \<Longrightarrow> 43 \<le> code c"
proof -
  assume c: "c \<in> set (encode_base64 x y z)"
  have e: "43 \<le> code (encode_base64_char v)" if "0 \<le> v" "v < 64" for v
  proof -
    have "(of_char (encode_base64_char v) :: int) = b64_code v"
      using b64_code_range[OF that] by (simp add: encode_base64_char_code[OF that] of_char_of)
    then have "int (code (encode_base64_char v)) = b64_code v" by (simp add: of_nat_of_char)
    then show ?thesis using b64_code_range[OF that] by linarith
  qed
  obtain p q r s where "base64_input x y z = [p, q, r, s]" "0 \<le> p" "p < 64" "0 \<le> q" "q < 64" "0 \<le> r" "r < 64" "0 \<le> s" "s < 64"
    by (rule base64_input_join) blast
  then show ?thesis using c e by (auto simp: encode_base64_def)
qed

lemma key_to_base64_clean: "clean (key_to_base64 k)"
proof (rule clean_codes)
  fix c assume c: "c \<in> set (key_to_base64 k)"
  have "43 \<le> code c \<or> c = CHR ''=''"
    using c encode_base64_codes unfolding key_to_base64_eq
    by (auto dest!: set_update_subset_insert[THEN subsetD])
  then show "36 \<le> code c" by auto
qed

lemma key_to_base64_not_Nil [simp]: "key_to_base64 k \<noteq> []"
  using length_key_to_base64[of k] by auto

lemma numstr_clean: "2 \<le> b \<Longrightarrow> b \<le> 36 \<Longrightarrow> clean (numstr b n)"
  by (rule clean_codes) (use numstr_code in fastforce)

lemma all_digits_clean: "all_digits s \<Longrightarrow> clean s"
  by (rule clean_codes) (auto simp: all_digits_def)

text \<open>The text of an allowed IP, and of the list once the blanks are gone.\<close>

definition entry_string :: "printer \<Rightarrow> wgallowedip \<Rightarrow> string" where
  "entry_string pr a = the (ip_text pr (ip a)) @ CHR ''/'' # dec (unat (cidr a))"

lemma despace_allowedips:
  "\<forall>a \<in> set as. \<exists>t. ip_text pr (ip a) = Some t \<and> clean t \<Longrightarrow>
     despace (showconf_allowedips pr as) = join_with (CHR '','') (map (entry_string pr) as) \<and> line_ok (showconf_allowedips pr as)"
proof (induction as)
  case (Cons a as)
  then obtain t where t: "ip_text pr (ip a) = Some t" "clean t" by auto
  have d: "clean (dec (unat (cidr a)))" by (simp add: numstr_clean)
  have IH: "despace (showconf_allowedips pr as) = join_with (CHR '','') (map (entry_string pr) as)" "line_ok (showconf_allowedips pr as)"
    using Cons by auto
  have l: "line_ok ''/''" "line_ok '', ''" "despace ''/'' = ''/''" "despace '', '' = '',''" by (simp_all add: line_ok_def despace_def)
  have s: "showconf_allowedips pr (a # as) = t @ ''/'' @ dec (unat (cidr a)) @ (if as \<noteq> [] then '', '' else []) @ showconf_allowedips pr as"
    using t(1) by simp
  have "line_ok (showconf_allowedips pr (a # as))"
    unfolding s using IH(2) l clean_line_ok[OF t(2)] clean_line_ok[OF d] by (simp only: line_ok_append split: if_split) (simp add: line_ok_def)
  moreover have "despace (showconf_allowedips pr (a # as)) =
      t @ ''/'' @ dec (unat (cidr a)) @ (if as \<noteq> [] then '','' else []) @ join_with (CHR '','') (map (entry_string pr) as)"
    unfolding s using IH(1) l t(2) d by (simp only: despace_append clean_despace if_distrib[of despace] despace_Nil)
  moreover have "join_with (CHR '','') (map (entry_string pr) (a # as)) =
      entry_string pr a @ (if as \<noteq> [] then '','' else []) @ join_with (CHR '','') (map (entry_string pr) as)"
    by (cases as) simp_all
  moreover have "entry_string pr a = t @ ''/'' @ dec (unat (cidr a))" using t(1) by (simp add: entry_string_def)
  ultimately show ?case by (simp only: append_assoc simp_thms)
qed (simp add: line_ok_def)

context config_world
begin

lemma feed_clean:
  assumes "line_ok l" "despace l \<noteq> []"
  shows "feed env ctx [l] = process_line env ctx (despace l)"
  using feed_line[OF assms(1) memory] assms(2) by simp

lemma feed_blank: "feed env ctx [[]] = Inr ctx"
  using feed_line[of "[]" env ctx] memory by (simp add: line_ok_def)

lemma ip_text_reads:
  assumes "ip_text pr addr = Some t"
  shows "entry_addr env t = addr" "plain_text t" "hd t \<notin> {CHR ''+'', CHR ''-''}"
proof -
  have "entry_addr env t = addr \<and> plain_text t \<and> hd t \<notin> {CHR ''+'', CHR ''-''}"
  proof (cases addr)
    case (AF_INET a)
    then have "inet_ntop4 pr a = Some t" using assms by simp
    from ntop4[OF this] show ?thesis
      using AF_INET strchr_None[of t "CHR '':''"] by (simp add: entry_addr_def parse_ip_def)
  next
    case (AF_INET6 b)
    then have "inet_ntop6 pr b = Some t" using assms by simp
    from ntop6[OF this] show ?thesis
      using AF_INET6 strchr_None[of t "CHR '':''"] by (auto simp: entry_addr_def parse_ip_def)
  qed (use assms in simp)
  then show "entry_addr env t = addr" "plain_text t" "hd t \<notin> {CHR ''+'', CHR ''-''}" by blast+
qed

lemma parse_cidr_dec: "addr \<noteq> AF_UNSPEC \<Longrightarrow> c \<le> max_cidr addr \<Longrightarrow> parse_cidr env addr (Some (dec c)) = Some c"
proof -
  assume a: "addr \<noteq> AF_UNSPEC" "c \<le> max_cidr addr"
  have "(2::nat) ^ 33 \<le> 2 ^ long_bits env" using wide by (intro power_increasing) auto
  then have "c \<le> 2 ^ long_bits env - 1" using a(2) max_cidr_le[of addr] by simp
  then have "strtoul (long_bits env) 10 (dec c) = (c, [])" using strtoul_dec[of "[]" "long_bits env" c] by simp
  moreover have "is_digit (char_at (dec c) 0)" using dec_is_digit[of "hd (dec c)" c] by (simp add: char_at_def hd_conv_nth)
  ultimately show ?thesis using a by (cases addr) (auto simp: parse_cidr_def)
qed

lemma entry_reads:
  assumes "wf_allowedip a" "ip_text pr (ip a) = Some t"
  shows "entry_error env (entry_string pr a) = None" "entry_allowedip env (entry_string pr a) = a\<lparr> a_flags := 0 \<rparr>"
    "\<not> incremental (entry_string pr a)" "CHR '','' \<notin> set (entry_string pr a)"
proof -
  note T = ip_text_reads[OF assms(2)]
  let ?e = "t @ CHR ''/'' # dec (unat (cidr a))"
  have e: "entry_string pr a = ?e" using assms(2) by (simp add: entry_string_def)
  have t: "t \<noteq> []" using T(2) by (simp add: plain_text_def)
  then have h: "char_at ?e 0 = hd t" by (simp add: char_at_def nth_append hd_conv_nth)
  show inc: "\<not> incremental (entry_string pr a)" using T(3) h by (auto simp: e incremental_def)
  have "strsep (CHR ''/'') ?e = (t, Some (dec (unat (cidr a))))"
    by (rule strsep_append) (simp add: plain_text_not[OF T(2)] text_char_not)
  then have o: "entry_of env ?e = Inr (ip a, unat (cidr a))"
    using assms(1) memory T(1) by (simp add: entry_of_def wf_allowedip_def parse_cidr_dec)
  have f: "entry_flags ?e = 0" using T(3) h by (auto simp: entry_flags_def)
  show "entry_error env (entry_string pr a) = None" "entry_allowedip env (entry_string pr a) = a\<lparr> a_flags := 0 \<rparr>"
    using o inc f by (simp_all add: e entry_error_def entry_allowedip_def entry_text_def)
  show "CHR '','' \<notin> set (entry_string pr a)"
    unfolding e using plain_text_not[OF T(2)] plain_text_not[OF dec_plain] text_char_not by auto
qed

lemma parse_allowedips_reads:
  assumes "\<forall>a \<in> set as. wf_allowedip a \<and> ip_text pr (ip a) \<noteq> None" "as \<noteq> []" "allowedips p = []"
  shows "\<exists>ap. parse_allowedips env p None (join_with (CHR '','') (map (entry_string pr) as)) =
    Inr (p\<lparr> p_flags := set_flag WGPEER_REPLACE_ALLOWEDIPS (p_flags p), allowedips := map (\<lambda>a. a\<lparr> a_flags := 0 \<rparr>) as \<rparr>, ap)"
proof -
  let ?es = "map (entry_string pr) as" let ?v = "join_with (CHR '','') ?es"
  have E: "entry_error env (entry_string pr a) = None" "entry_allowedip env (entry_string pr a) = a\<lparr> a_flags := 0 \<rparr>"
    "\<not> incremental (entry_string pr a)" "CHR '','' \<notin> set (entry_string pr a)" if "a \<in> set as" for a
    using assms(1) that entry_reads by blast+
  have tok: "strsep_tokens (CHR '','') ?v = ?es" by (rule strsep_tokens_join) (use assms(2) E(4) in auto)
  have "first_error env (map (entry_string pr) bs) = None" if "set bs \<subseteq> set as" for bs
    using that by (induction bs) (simp_all add: E(1))
  then have fe: "first_error env ?es = None" by blast
  have inc: "\<not> list_ex incremental ?es" using E(3) by (auto simp: list_ex_iff)
  have me: "map (entry_allowedip env) ?es = map (\<lambda>a. a\<lparr> a_flags := 0 \<rparr>) as" using E(2) by simp
  have "?v \<noteq> []" using assms(2) by (cases as; cases "tl as") (simp_all add: entry_string_def)
  from parse_allowedips_eq[OF _ memory this, of None p] show ?thesis
    using assms(3) by (simp add: tok fe inc me del: map_map)
qed

lemma parse_endpoint_split:
  assumes "split_endpoint v = Inr (h, t)" "gai env h t 0 = GaiAddr sa" "sa \<noteq> SaUnspec"
  shows "parse_endpoint env v = Inr sa"
proof -
  obtain r where r: "parse_dns_retries env = Inr r" using retries by blast
  have "resolve_loop (gai env h t) 0 r 1000000 [] = Some (outcome (gai env h t 0), [])"
    by (rule resolve_loop_stop) (simp add: assms(2) transient_def)
  then show ?thesis using assms memory r by (simp add: parse_endpoint_def)
qed

lemma split_plain:
  assumes "plain_text h" "all_digits t"
  shows "split_endpoint (h @ '':'' @ t) = Inr (h, t)" "split_endpoint (''['' @ h @ '']:'' @ t) = Inr (h, t)"
proof -
  have t: "t \<noteq> []" "CHR '':'' \<notin> set t" "CHR 0x00 \<notin> set t" using assms(2) by (auto simp: all_digits_def)
  have "hd h \<noteq> CHR ''[''" using plain_text_not[OF assms(1), of "CHR ''[''"] assms(1)
    by (cases h) (auto simp: text_char_not plain_text_def)
  then show "split_endpoint (h @ '':'' @ t) = Inr (h, t)" using split_endpoint_plain[OF t(2,1,3), of h] by simp
  have "CHR '']'' \<notin> set h" using plain_text_not[OF assms(1)] text_char_not by blast
  from split_endpoint_bracket[OF this t(1,3)] show "split_endpoint (''['' @ h @ '']:'' @ t) = Inr (h, t)" by simp
qed

lemma endpoint_reads:
  assumes "endpoint_lines pr sa = l # ls" "case sa of SaIn6 _ _ f _ \<Rightarrow> f = 0 | _ \<Rightarrow> True"
  shows "ls = [] \<and> (\<exists>v. v \<noteq> [] \<and> l = ''Endpoint = '' @ v \<and> clean v \<and> parse_endpoint env v = Inr sa)"
proof -
  obtain h t where n: "getnameinfo pr sa = Some (h, t)" "sa \<noteq> SaUnspec"
    using assms(1) by (auto simp: endpoint_lines_def split: sockaddr.splits option.splits)
  have g: "gai env h t 0 = GaiAddr sa" "plain_text h" "all_digits t"
    using n assms(2) name4 name6 by (cases sa; auto)+
  have c: "clean h" "clean t" "clean ''['' " "clean '']:''" "clean '':''"
    using plain_clean[OF g(2)] all_digits_clean[OF g(3)] by (simp_all add: clean_def)
  note P = split_plain[OF g(2,3), THEN parse_endpoint_split, OF g(1) n(2)]
  show ?thesis
    using assms(1) n P c by (cases sa) (auto simp: endpoint_lines_def simp del: append.simps split: if_splits)
qed

lemma feed_peer_line:
  assumes "clean v" "line_ok k" "despace k = k'" "k' \<noteq> []" "hd k' \<noteq> CHR ''[''"
    "process_peer_line env p ap (k' @ v) = Inr (p', ap')"
  shows "feed env (peer_ctx d ps p ap) [k @ v] = Inr (peer_ctx d ps p' ap')"
proof -
  have "feed env (peer_ctx d ps p ap) [k @ v] = process_line env (peer_ctx d ps p ap) (k' @ v)"
    using feed_clean[of "k @ v"] assms(1-4) clean_line_ok[OF assms(1)] by simp
  then show ?thesis using process_line_peer[of "k' @ v" env p ap p' ap' d ps] assms(4-6) by (simp add: tolower_bracket)
qed

lemma feed_device_line:
  assumes "clean v" "line_ok k" "despace k = k'" "k' \<noteq> []" "hd k' \<noteq> CHR ''[''"
    "process_device_line env d (k' @ v) = Inr d'"
  shows "feed env (device_ctx d) [k @ v] = Inr (device_ctx d')"
proof -
  have "feed env (device_ctx d) [k @ v] = process_line env (device_ctx d) (k' @ v)"
    using feed_clean[of "k @ v"] assms(1-4) clean_line_ok[OF assms(1)] by simp
  then show ?thesis using process_line_device[of "k' @ v" env d d'] assms(4-6) by (simp add: tolower_bracket)
qed

lemma keepalive_reads:
  "parse_persistent_keepalive env fl (dec (unat (n::u16))) = Inr (n, set_flag WGPEER_HAS_PERSISTENT_KEEPALIVE_INTERVAL fl)"
proof -
  have "unat n \<le> 65535" using unat_u16[of n] by simp
  moreover have "\<not> strcaseeq (dec (unat n)) ''off''"
    using strcaseeq_off_not_digit all_digits_first[OF all_digits_dec] by blast
  ultimately show ?thesis using wide all_digits_dec
    by (subst parse_persistent_keepalive_eq) (simp_all add: numval_numstr)
qed

lemma feed_PublicKey:
  "length (public_key p) = WG_KEY_LEN \<Longrightarrow> length k = WG_KEY_LEN \<Longrightarrow>
   feed env (peer_ctx d ps p ap) [''PublicKey = '' @ key_to_base64 k] =
     Inr (peer_ctx d ps (p\<lparr> public_key := k, p_flags := set_flag WGPEER_HAS_PUBLIC_KEY (p_flags p) \<rparr>) ap)"
  by (rule feed_peer_line[where k' = "''PublicKey=''", OF key_to_base64_clean])
    (simp_all only: process_peer_PublicKey[OF key_to_base64_not_Nil] parse_key_base64 prod.case bool.case,
     simp_all add: line_ok_def despace_def)

lemma feed_PresharedKey:
  "length (preshared_key p) = WG_KEY_LEN \<Longrightarrow> length k = WG_KEY_LEN \<Longrightarrow>
   feed env (peer_ctx d ps p ap) [''PresharedKey = '' @ key_to_base64 k] =
     Inr (peer_ctx d ps (p\<lparr> preshared_key := k, p_flags := set_flag WGPEER_HAS_PRESHARED_KEY (p_flags p) \<rparr>) ap)"
  by (rule feed_peer_line[where k' = "''PresharedKey=''", OF key_to_base64_clean])
    (simp_all only: process_peer_PresharedKey[OF key_to_base64_not_Nil] parse_key_base64 prod.case bool.case,
     simp_all add: line_ok_def despace_def)

lemma feed_Keepalive:
  "feed env (peer_ctx d ps p ap) [''PersistentKeepalive = '' @ dec (unat (n::u16))] =
     Inr (peer_ctx d ps (p\<lparr> persistent_keepalive_interval := n,
        p_flags := set_flag WGPEER_HAS_PERSISTENT_KEEPALIVE_INTERVAL (p_flags p) \<rparr>) ap)"
  by (rule feed_peer_line[where k' = "''PersistentKeepalive=''"])
    (simp_all only: process_peer_PersistentKeepalive[OF numstr_not_Nil] keepalive_reads sum.case prod.case,
     simp_all add: line_ok_def despace_def numstr_clean)

lemma feed_AllowedIPs:
  assumes "\<forall>a \<in> set as. wf_allowedip a \<and> ip_text pr (ip a) \<noteq> None" "as \<noteq> []" "allowedips p = []"
  shows "\<exists>ap. feed env (peer_ctx d ps p None) [''AllowedIPs = '' @ showconf_allowedips pr as] =
    Inr (peer_ctx d ps (p\<lparr> p_flags := set_flag WGPEER_REPLACE_ALLOWEDIPS (p_flags p),
       allowedips := map (\<lambda>a. a\<lparr> a_flags := 0 \<rparr>) as \<rparr>) ap)"
proof -
  let ?l = "''AllowedIPs = '' @ showconf_allowedips pr as" and ?v = "join_with (CHR '','') (map (entry_string pr) as)"
  have "\<forall>a \<in> set as. \<exists>t. ip_text pr (ip a) = Some t \<and> clean t"
    using assms(1) ip_text_reads(2) plain_clean by blast
  from despace_allowedips[OF this]
  have l: "line_ok ?l" "despace ?l = ''AllowedIPs='' @ ?v" by (simp_all only: line_ok_append despace_append) (simp_all add: line_ok_def despace_def)
  have v: "?v \<noteq> []" using assms(2) by (cases as; cases "tl as") (simp_all add: entry_string_def)
  obtain ap where ap: "parse_allowedips env p None ?v =
      Inr (p\<lparr> p_flags := set_flag WGPEER_REPLACE_ALLOWEDIPS (p_flags p), allowedips := map (\<lambda>a. a\<lparr> a_flags := 0 \<rparr>) as \<rparr>, ap)"
    using parse_allowedips_reads[OF assms] by blast
  have "feed env (peer_ctx d ps p None) [?l] = process_line env (peer_ctx d ps p None) (''AllowedIPs='' @ ?v)"
    using feed_clean[OF l(1)] l(2) by simp
  moreover have "process_line env (peer_ctx d ps p None) (''AllowedIPs='' @ ?v) =
      Inr (peer_ctx d ps (p\<lparr> p_flags := set_flag WGPEER_REPLACE_ALLOWEDIPS (p_flags p), allowedips := map (\<lambda>a. a\<lparr> a_flags := 0 \<rparr>) as \<rparr>) ap)"
    by (rule process_line_peer) (simp_all only: process_peer_AllowedIPs[OF v] ap, simp_all add: tolower_bracket)
  ultimately show ?thesis by metis
qed

lemma feed_Endpoint:
  assumes "case sa of SaIn6 _ _ f _ \<Rightarrow> f = 0 | _ \<Rightarrow> True" "endpoint p = SaUnspec"
  shows "feed env (peer_ctx d ps p ap) (endpoint_lines pr sa) =
    Inr (peer_ctx d ps (p\<lparr> endpoint := printed_endpoint pr sa \<rparr>) ap)"
proof (cases "endpoint_lines pr sa")
  case Nil
  have "p\<lparr> endpoint := SaUnspec \<rparr> = p" using assms(2) by (cases p) simp
  then show ?thesis using Nil by (simp add: printed_endpoint_def)
next
  case (Cons l ls)
  obtain v where v: "v \<noteq> []" "l = ''Endpoint = '' @ v" "clean v" "parse_endpoint env v = Inr sa" and ls: "ls = []"
    using endpoint_reads[OF Cons assms(1)] by blast
  have "feed env (peer_ctx d ps p ap) [''Endpoint = '' @ v] = Inr (peer_ctx d ps (p\<lparr> endpoint := sa \<rparr>) ap)"
    by (rule feed_peer_line[where k' = "''Endpoint=''", OF v(3)])
      (simp_all only: process_peer_Endpoint[OF v(1)] v(4) sum.case, simp_all add: line_ok_def despace_def)
  then show ?thesis using Cons ls v(2) by (simp add: printed_endpoint_def)
qed

end

text \<open>The reader after a section: the peers read so far, and the pointer to the last of them.\<close>

definition section_end :: "wgdevice \<Rightarrow> wgpeer list \<Rightarrow> config_ctx \<Rightarrow> bool" where
  "section_end d ps ctx \<longleftrightarrow> device ctx = d\<lparr> peers := ps \<rparr> \<and> ptr_ok (last_peer ctx) ps"

lemma section_end_peer: "section_end d (ps @ [p]) (peer_ctx d ps p ap)"
  by (simp add: section_end_def peer_ctx_def ptr_ok_Some)

context config_world
begin

lemma feed_header:
  assumes "section_end d ps ctx"
  shows "feed env ctx [''[Peer]''] = Inr (peer_ctx d ps (new_peer\<lparr> p_flags := WGPEER_REPLACE_ALLOWEDIPS \<rparr>) None)"
proof -
  have s: "device ctx = d\<lparr> peers := ps \<rparr>" "ptr_ok (last_peer ctx) ps" using assms by (auto simp: section_end_def)
  have n: "next_ptr (last_peer ctx) = Some (length ps)"
    using s(2) by (cases "last_peer ctx") (auto simp: next_ptr_def ptr_ok_Some)
  have "\<not> strcaseeq ''[Peer]'' ''[Interface]''" "strcaseeq ''[Peer]'' ''[Peer]''"
    by (simp_all add: strcaseeq_def)
  moreover have "line_ok ''[Peer]''" "despace ''[Peer]'' = ''[Peer]''" by (simp_all add: line_ok_def despace_def)
  ultimately have "feed env ctx [''[Peer]''] = process_peer_header env ctx ''[Peer]''"
    using feed_clean[of "''[Peer]''"] by (simp add: process_line_def)
  then show ?thesis
    using s n memory by (cases ctx) (simp add: process_peer_header_def peer_ctx_def tail.link_appends)
qed

lemma feed_peer:
  assumes "section_end d ps ctx" "printable_peer pr p"
  shows "\<exists>ap. feed env ctx (peer_lines pr p) = Inr (peer_ctx d ps (reread_peer pr p) ap)"
proof -
  have wf: "length (public_key p) = WG_KEY_LEN" "length (preshared_key p) = WG_KEY_LEN"
    "\<forall>a \<in> set (allowedips p). wf_allowedip a \<and> ip_text pr (ip a) \<noteq> None"
    "case endpoint p of SaIn6 _ _ f _ \<Rightarrow> f = 0 | _ \<Rightarrow> True"
    using assms(2) by (auto simp: printable_peer_def wf_peer_def list_all_iff)
  let ?psk = "flag_test (p_flags p) WGPEER_HAS_PRESHARED_KEY" and ?ka = "persistent_keepalive_interval p \<noteq> 0"
  define p1 where "p1 = new_peer\<lparr> p_flags := WGPEER_REPLACE_ALLOWEDIPS OR WGPEER_HAS_PUBLIC_KEY, public_key := public_key p \<rparr>"
  define p2 where "p2 = (if ?psk then p1\<lparr> preshared_key := preshared_key p, p_flags := set_flag WGPEER_HAS_PRESHARED_KEY (p_flags p1) \<rparr> else p1)"
  define p3 where "p3 = (if allowedips p \<noteq> [] then p2\<lparr> p_flags := set_flag WGPEER_REPLACE_ALLOWEDIPS (p_flags p2),
       allowedips := map (\<lambda>a. a\<lparr> a_flags := 0 \<rparr>) (allowedips p) \<rparr> else p2)"
  define p4 where "p4 = p3\<lparr> endpoint := printed_endpoint pr (endpoint p) \<rparr>"
  define p5 where "p5 = (if ?ka then p4\<lparr> persistent_keepalive_interval := persistent_keepalive_interval p,
        p_flags := set_flag WGPEER_HAS_PERSISTENT_KEEPALIVE_INTERVAL (p_flags p4) \<rparr> else p4)"
  have e: "p5 = reread_peer pr p"
    by (auto simp: p5_def p4_def p3_def p2_def p1_def reread_peer_def new_peer_def or.assoc or.commute or.left_commute)
  have f0: "feed env ctx [''[Peer]''] = Inr (peer_ctx d ps (new_peer\<lparr> p_flags := WGPEER_REPLACE_ALLOWEDIPS \<rparr>) None)"
    by (rule feed_header[OF assms(1)])
  have f1: "feed env (peer_ctx d ps (new_peer\<lparr> p_flags := WGPEER_REPLACE_ALLOWEDIPS \<rparr>) None)
      [''PublicKey = '' @ key_to_base64 (public_key p)] = Inr (peer_ctx d ps p1 None)"
    by (subst feed_PublicKey) (use wf(1) in \<open>simp_all add: p1_def new_peer_def\<close>)
  have f2: "feed env (peer_ctx d ps p1 None) (if ?psk then [''PresharedKey = '' @ key_to_base64 (preshared_key p)] else [])
      = Inr (peer_ctx d ps p2 None)"
    using feed_PresharedKey[of p1 "preshared_key p" d ps None] wf(2) by (simp add: p2_def) (simp add: p1_def new_peer_def)
  have n2: "allowedips p2 = []" "endpoint p3 = SaUnspec" by (simp_all add: p3_def p2_def p1_def new_peer_def)
  obtain ap where f3: "feed env (peer_ctx d ps p2 None)
      (if allowedips p \<noteq> [] then [''AllowedIPs = '' @ showconf_allowedips pr (allowedips p)] else []) = Inr (peer_ctx d ps p3 ap)"
    using feed_AllowedIPs[OF wf(3) _ n2(1), of d ps] unfolding p3_def by (cases "allowedips p = []") auto
  have f4: "feed env (peer_ctx d ps p3 ap) (endpoint_lines pr (endpoint p)) = Inr (peer_ctx d ps p4 ap)"
    unfolding p4_def by (rule feed_Endpoint[OF wf(4) n2(2)])
  have f5: "feed env (peer_ctx d ps p4 ap) (if ?ka then [''PersistentKeepalive = '' @ dec (unat (persistent_keepalive_interval p))] else [])
      = Inr (peer_ctx d ps p5 ap)"
    using feed_Keepalive[of d ps p4 ap "persistent_keepalive_interval p"] by (simp add: p5_def)
  have l: "peer_lines pr p = [''[Peer]''] @ [''PublicKey = '' @ key_to_base64 (public_key p)] @
     (if ?psk then [''PresharedKey = '' @ key_to_base64 (preshared_key p)] else []) @
     (if allowedips p \<noteq> [] then [''AllowedIPs = '' @ showconf_allowedips pr (allowedips p)] else []) @
     endpoint_lines pr (endpoint p) @
     (if ?ka then [''PersistentKeepalive = '' @ dec (unat (persistent_keepalive_interval p))] else [])"
    by (simp only: peer_lines_def append.simps)
  have "feed env ctx (peer_lines pr p) = Inr (peer_ctx d ps (reread_peer pr p) ap)"
    unfolding l feed_append f0 sum.case f1 f2 f3 f4 f5 e ..
  then show ?thesis ..
qed

lemma feed_peers:
  "section_end d ps ctx \<Longrightarrow> list_all (printable_peer pr) qs \<Longrightarrow>
     \<exists>ctx'. feed env ctx (peers_lines pr qs) = Inr ctx' \<and> section_end d (ps @ map (reread_peer pr) qs) ctx'"
proof (induction qs arbitrary: ps ctx)
  case (Cons q qs)
  obtain ap where 1: "feed env ctx (peer_lines pr q) = Inr (peer_ctx d ps (reread_peer pr q) ap)"
    using feed_peer[OF Cons.prems(1)] Cons.prems(2) by auto
  let ?c = "peer_ctx d ps (reread_peer pr q) ap"
  have 2: "feed env ?c (if qs \<noteq> [] then [[]] else []) = Inr ?c" by (simp add: feed_blank)
  obtain ctx' where 3: "feed env ?c (peers_lines pr qs) = Inr ctx'" "section_end d ((ps @ [reread_peer pr q]) @ map (reread_peer pr) qs) ctx'"
    using Cons.IH[OF section_end_peer[of d ps "reread_peer pr q" ap]] Cons.prems(2) by fastforce
  have "feed env ctx (peers_lines pr (q # qs)) = Inr ctx'"
    unfolding peers_lines.simps feed_append 1 sum.case 2 3(1) ..
  then show ?case using 3(2) by auto
qed simp

lemma port_reads: "parse_port env fl (dec (unat (n::u16))) = Inr (n, set_flag WGDEVICE_HAS_LISTEN_PORT fl)"
proof -
  obtain sa where "gai_passive env (dec (unat n)) = GaiAddr sa" "sockaddr_port sa = Some (of_nat (unat n))"
    using service[OF unat_u16] by blast
  then show ?thesis by (simp add: parse_port_def)
qed

lemma fwmark_reads: "parse_fwmark env fl (''0x'' @ numstr 16 (unat (m::u32))) = Inr (m, set_flag WGDEVICE_HAS_FWMARK fl)"
proof -
  let ?h = "numstr 16 (unat m)"
  have "all_hex ?h" using numstr_digit_val[of 16] by (auto simp: all_hex_def)
  moreover have "numval 16 ?h = unat m" by (simp add: numval_numstr)
  moreover have "\<not> strcaseeq (''0x'' @ ?h) ''off''" "\<not> all_digits (''0x'' @ ?h)"
    by (simp_all add: strcaseeq_def tolower_def all_digits_def)
  ultimately show ?thesis using parse_fwmark_eq[OF wide, of fl "''0x'' @ ?h"] unat_u32[of m] by simp
qed

lemma feed_ListenPort:
  "feed env (device_ctx d) [''ListenPort = '' @ dec (unat (n::u16))] =
     Inr (device_ctx (d\<lparr> listen_port := n, d_flags := set_flag WGDEVICE_HAS_LISTEN_PORT (d_flags d) \<rparr>))"
  by (rule feed_device_line[where k' = "''ListenPort=''"])
    (simp_all only: process_device_ListenPort[OF numstr_not_Nil] port_reads sum.case prod.case,
     simp_all add: line_ok_def despace_def numstr_clean)

lemma feed_FwMark:
  "feed env (device_ctx d) [''FwMark = 0x'' @ numstr 16 (unat (m::u32))] =
     Inr (device_ctx (d\<lparr> fwmark := m, d_flags := set_flag WGDEVICE_HAS_FWMARK (d_flags d) \<rparr>))"
proof -
  define v where "v = ''0x'' @ numstr 16 (unat m)"
  have v: "clean v" "v \<noteq> []" unfolding v_def by (simp_all only: clean_append) (simp_all add: clean_def[of "''0x''"] numstr_clean)
  have p: "process_device_line env d (''FwMark='' @ v) = Inr (d\<lparr> fwmark := m, d_flags := set_flag WGDEVICE_HAS_FWMARK (d_flags d) \<rparr>)"
    unfolding process_device_FwMark[OF v(2)] unfolding v_def fwmark_reads by simp
  have "feed env (device_ctx d) [''FwMark = '' @ v] =
     Inr (device_ctx (d\<lparr> fwmark := m, d_flags := set_flag WGDEVICE_HAS_FWMARK (d_flags d) \<rparr>))"
    by (rule feed_device_line[where k' = "''FwMark=''", OF v(1) _ _ _ _ p]) (simp_all add: line_ok_def despace_def)
  then show ?thesis by (simp add: v_def)
qed

lemma feed_PrivateKey:
  "length (private_key d) = WG_KEY_LEN \<Longrightarrow> length k = WG_KEY_LEN \<Longrightarrow>
   feed env (device_ctx d) [''PrivateKey = '' @ key_to_base64 k] =
     Inr (device_ctx (d\<lparr> private_key := k, d_flags := set_flag WGDEVICE_HAS_PRIVATE_KEY (d_flags d) \<rparr>))"
  by (rule feed_device_line[where k' = "''PrivateKey=''", OF key_to_base64_clean])
    (simp_all only: process_device_PrivateKey[OF key_to_base64_not_Nil] parse_key_base64 prod.case bool.case,
     simp_all add: line_ok_def despace_def)

lemma feed_Interface:
  assumes "last_peer ctx = None" "last_allowedip ctx = None"
  shows "feed env ctx [''[Interface]''] = Inr (device_ctx (device ctx))"
proof -
  have "strcaseeq ''[Interface]'' ''[Interface]''" by (simp add: strcaseeq_def)
  moreover have "line_ok ''[Interface]''" "despace ''[Interface]'' = ''[Interface]''" by (simp_all add: line_ok_def despace_def)
  ultimately show ?thesis
    using feed_clean[of "''[Interface]''"] assms by (cases ctx) (simp add: process_line_def device_ctx_def)
qed

lemma feed_interface:
  assumes "last_peer ctx = None" "last_allowedip ctx = None" "length (private_key d) = WG_KEY_LEN"
    and "device ctx = new_device\<lparr> d_flags := WGDEVICE_REPLACE_PEERS OR WGDEVICE_HAS_PRIVATE_KEY OR WGDEVICE_HAS_FWMARK OR WGDEVICE_HAS_LISTEN_PORT \<rparr>"
  shows "feed env ctx (interface_lines d) = Inr (device_ctx ((reread_device pr d)\<lparr> peers := [] \<rparr>))"
proof -
  let ?priv = "flag_test (d_flags d) WGDEVICE_HAS_PRIVATE_KEY"
  define d1 where "d1 = (if listen_port d \<noteq> 0 then (device ctx)\<lparr> listen_port := listen_port d,
      d_flags := set_flag WGDEVICE_HAS_LISTEN_PORT (d_flags (device ctx)) \<rparr> else device ctx)"
  define d2 where "d2 = (if fwmark d \<noteq> 0 then d1\<lparr> fwmark := fwmark d, d_flags := set_flag WGDEVICE_HAS_FWMARK (d_flags d1) \<rparr> else d1)"
  define d3 where "d3 = (if ?priv then d2\<lparr> private_key := private_key d, d_flags := set_flag WGDEVICE_HAS_PRIVATE_KEY (d_flags d2) \<rparr> else d2)"
  have e: "d3 = (reread_device pr d)\<lparr> peers := [] \<rparr>"
    by (auto simp: d3_def d2_def d1_def reread_device_def assms(4) new_device_def or.assoc or.commute or.left_commute)
  have f1: "feed env (device_ctx (device ctx)) (if listen_port d \<noteq> 0 then [''ListenPort = '' @ dec (unat (listen_port d))] else []) = Inr (device_ctx d1)"
    using feed_ListenPort[of "device ctx" "listen_port d"] by (simp add: d1_def)
  have f2: "feed env (device_ctx d1) (if fwmark d \<noteq> 0 then [''FwMark = 0x'' @ numstr 16 (unat (fwmark d))] else []) = Inr (device_ctx d2)"
    using feed_FwMark[of d1 "fwmark d"] by (simp add: d2_def)
  have "length (private_key d2) = WG_KEY_LEN" by (simp add: d2_def d1_def assms(4) new_device_def)
  then have f3: "feed env (device_ctx d2) (if ?priv then [''PrivateKey = '' @ key_to_base64 (private_key d)] else []) = Inr (device_ctx d3)"
    using feed_PrivateKey[of d2 "private_key d"] assms(3) by (simp add: d3_def)
  show ?thesis
    unfolding interface_lines_def feed_append feed_Interface[OF assms(1,2)] sum.case f1 f2 f3 feed_blank e ..
qed

lemma reread_peer_public: "flag_test (p_flags (reread_peer pr p)) WGPEER_HAS_PUBLIC_KEY"
  by (simp add: reread_peer_def flag_test_or) (simp add: flag_defs flag_simps)

lemma literal_line_ok:
  "line_ok ''[Interface]''" "line_ok ''[Peer]''" "line_ok ''ListenPort = ''" "line_ok ''FwMark = 0x''" "line_ok ''PrivateKey = ''"
  "line_ok ''PublicKey = ''" "line_ok ''PresharedKey = ''" "line_ok ''AllowedIPs = ''" "line_ok ''Endpoint = ''"
  "line_ok ''PersistentKeepalive = ''" "line_ok []"
  by (simp_all add: line_ok_def)

lemmas key_line_ok = clean_line_ok[OF key_to_base64_clean]

lemma peer_lines_ok:
  assumes "printable_peer pr p" "l \<in> set (peer_lines pr p)"
  shows "line_ok l"
proof -
  have wf: "\<forall>a \<in> set (allowedips p). wf_allowedip a \<and> ip_text pr (ip a) \<noteq> None"
    "case endpoint p of SaIn6 _ _ f _ \<Rightarrow> f = 0 | _ \<Rightarrow> True"
    using assms(1) by (auto simp: printable_peer_def wf_peer_def list_all_iff)
  have "\<forall>a \<in> set (allowedips p). \<exists>t. ip_text pr (ip a) = Some t \<and> clean t"
    using wf(1) ip_text_reads(2) plain_clean by blast
  then have a: "line_ok (showconf_allowedips pr (allowedips p))" using despace_allowedips by blast
  have e: "line_ok x" if "x \<in> set (endpoint_lines pr (endpoint p))" for x
    using that endpoint_reads[OF _ wf(2)] literal_line_ok(9) clean_line_ok
    by (cases "endpoint_lines pr (endpoint p)") (simp, metis line_ok_append set_ConsD empty_iff list.set(1))
  have n: "line_ok (dec m)" for m by (simp add: clean_line_ok numstr_clean)
  consider "l = ''[Peer]''" | "l = ''PublicKey = '' @ key_to_base64 (public_key p)"
    | "l = ''PresharedKey = '' @ key_to_base64 (preshared_key p)" | "l = ''AllowedIPs = '' @ showconf_allowedips pr (allowedips p)"
    | "l \<in> set (endpoint_lines pr (endpoint p))" | "l = ''PersistentKeepalive = '' @ dec (unat (persistent_keepalive_interval p))"
    using assms(2) unfolding peer_lines_def by (auto simp del: append.simps split: if_splits)
  then show ?thesis by cases (simp_all only: line_ok_append literal_line_ok key_line_ok a e n simp_thms)
qed

lemma peers_lines_ok: "list_all (printable_peer pr) ps \<Longrightarrow> l \<in> set (peers_lines pr ps) \<Longrightarrow> line_ok l"
  by (induction ps) (auto simp: peer_lines_ok literal_line_ok split: if_splits)

lemma interface_lines_ok: "l \<in> set (interface_lines d) \<Longrightarrow> line_ok l"
proof -
  assume "l \<in> set (interface_lines d)"
  then consider "l = ''[Interface]''" | "l = ''ListenPort = '' @ dec (unat (listen_port d))"
    | "l = ''FwMark = 0x'' @ numstr 16 (unat (fwmark d))" | "l = ''PrivateKey = '' @ key_to_base64 (private_key d)" | "l = []"
    unfolding interface_lines_def by (auto simp del: append.simps split: if_splits)
  moreover have "line_ok (numstr 10 m)" "line_ok (numstr 16 m)" for m by (simp_all add: clean_line_ok numstr_clean)
  ultimately show ?thesis by cases (simp_all only: line_ok_append literal_line_ok key_line_ok simp_thms)
qed

lemma config_reads_showconf:
  assumes "printable pr d"
  shows "config_read_file env False (showconf pr d) = Inr (reread_device pr d)"
proof -
  let ?ls = "interface_lines d @ peers_lines pr (peers d)"
  have p: "length (private_key d) = WG_KEY_LEN" "list_all (printable_peer pr) (peers d)" using assms by (auto simp: printable_def)
  have "newline \<notin> set l" if "l \<in> set ?ls" for l
    using that interface_lines_ok peers_lines_ok[OF p(2)] by (auto simp: line_ok_def)
  then have g: "getlines (showconf pr d) = map (\<lambda>l. l @ [newline]) ?ls"
    unfolding showconf_lines by (intro getlines_concat) blast
  obtain ctx where c: "config_read_init env False = Inr ctx" "last_peer ctx = None" "last_allowedip ctx = None"
    "device ctx = new_device\<lparr> d_flags := WGDEVICE_REPLACE_PEERS OR WGDEVICE_HAS_PRIVATE_KEY OR WGDEVICE_HAS_FWMARK OR WGDEVICE_HAS_LISTEN_PORT \<rparr>"
    using memory by (simp add: config_read_init_def)
  let ?d = "reread_device pr d"
  have "section_end ?d [] (device_ctx (?d\<lparr> peers := [] \<rparr>))" by (simp add: section_end_def device_ctx_def)
  from feed_peers[OF this p(2)] obtain ctx' where
    c': "feed env (device_ctx (?d\<lparr> peers := [] \<rparr>)) (peers_lines pr (peers d)) = Inr ctx'"
      "section_end ?d (map (reread_peer pr) (peers d)) ctx'" by auto
  have "feed env ctx ?ls = Inr ctx'"
    unfolding feed_append feed_interface[OF c(2,3) p(1) c(4)] sum.case c'(1) ..
  moreover have "device ctx' = ?d" using c'(2) by (simp add: section_end_def reread_device_def)
  moreover have "config_read_finish ctx' = Inr ?d"
    using calculation(2) reread_peer_public by (simp add: config_read_finish_def list_ex_iff reread_device_def)
  ultimately show ?thesis unfolding config_read_file_def g feed_def by (simp add: c(1))
qed

end

text \<open>C1. What \<^verbatim>\<open>wg showconf\<close> prints for a device, \<^verbatim>\<open>wg setconf\<close> reads back as the same configuration: keys,
  port, mark, and for every peer its keys, endpoint, keepalive interval and allowed IPs in order.
  The hypotheses say that text written for addresses and ports by the C library is read back by it.\<close>

theorem showconf_setconf_roundtrip:
  assumes "config_world env pr" "printable pr d"
  shows "config_read_file env False (showconf pr d) = Inr (reread_device pr d)"
  by (rule config_world.config_reads_showconf[OF assms])

interpretation numeric: config_world numeric_env numeric_printer
proof
  fix n :: nat
  assume "n < 65536"
  then show "\<exists>sa. gai_passive numeric_env (dec n) = GaiAddr sa \<and> sockaddr_port sa = Some (of_nat n)"
    by (simp add: numeric_env_def numeric_port_dec)
next
  fix b p sc h s
  assume "getnameinfo numeric_printer (SaIn6 b p 0 sc) = Some (h, s)"
  then show "gai numeric_env h s 0 = GaiAddr (SaIn6 b p 0 sc) \<and> plain_text h \<and> all_digits s"
    by (auto simp: numeric_printer_def numeric_env_def numeric_gai_name ntop6_text all_digits_dec split: if_splits)
qed (auto simp: numeric_printer_def numeric_env_def plain_env_def numeric_gai_name all_digits_dec
    pton4_ntop4 pton6_ntop6 ntop4_text[simplified] ntop6_text[simplified] parse_dns_retries_def)

definition sample_device :: wgdevice where
  "sample_device = new_device\<lparr> d_flags := WGDEVICE_HAS_PRIVATE_KEY, private_key := replicate 32 7, listen_port := 51820,
     peers := [new_peer\<lparr> public_key := replicate 32 9, persistent_keepalive_interval := 25,
       endpoint := SaIn 0xC0000201 51820,
       allowedips := [\<lparr> ip = AF_INET 0x0A000000, cidr = 8, a_flags = 0 \<rparr>, \<lparr> ip = AF_INET6 1, cidr = 128, a_flags = 0 \<rparr>] \<rparr>] \<rparr>"

theorem showconf_setconf_roundtrip_witness:
  "printable numeric_printer sample_device \<and>
   config_read_file numeric_env False (showconf numeric_printer sample_device) = Inr (reread_device numeric_printer sample_device)"
proof -
  have "printable numeric_printer sample_device"
    by (simp add: printable_def printable_peer_def sample_device_def wf_peer_def wf_allowedip_def new_device_def new_peer_def
        numeric_printer_def)
  then show ?thesis using showconf_setconf_roundtrip[OF numeric.config_world_axioms] by blast
qed

end
