(* ===== verification/Highlight_Valid.thy ===== *)
theory Highlight_Valid
  imports Roundtrip
begin

text \<open>
  The validators of \<^verbatim>\<open>contrib/highlighter/highlighter.c\<close> (\<^verbatim>\<open>is_decimal\<close> to \<^verbatim>\<open>is_valid_network\<close>). A
  \<^verbatim>\<open>string_span_t\<close> points into the NUL-terminated configuration text: it is an offset and a length
  here, and every operation takes the text. A read behind the end of a span sees the text that
  follows, as in the code. Loops over \<^verbatim>\<open>i\<close> recurse on the indices that are left.
\<close>

section \<open>Model\<close>

record string_span =
  sp_s :: nat
  sp_len :: nat

abbreviation span :: "nat \<Rightarrow> nat \<Rightarrow> string_span" where
  "span a n \<equiv> \<lparr> sp_s = a, sp_len = n \<rparr>"

text \<open>\<^verbatim>\<open>s.s[i]\<close>\<close>

definition rd :: "string \<Rightarrow> string_span \<Rightarrow> nat \<Rightarrow> char" where
  "rd cfg s i = char_at cfg (sp_s s + i)"

definition is_decimal :: "char \<Rightarrow> bool" where
  "is_decimal c \<longleftrightarrow> 48 \<le> code c \<and> code c \<le> 57"

definition is_hexadecimal :: "char \<Rightarrow> bool" where
  "is_hexadecimal c \<longleftrightarrow> is_decimal c \<or> (97 \<le> code c OR 32 \<and> code c OR 32 \<le> 102)"

definition is_alphabet :: "char \<Rightarrow> bool" where
  "is_alphabet c \<longleftrightarrow> 97 \<le> code c OR 32 \<and> code c OR 32 \<le> 122"

definition is_same :: "string \<Rightarrow> string_span \<Rightarrow> string \<Rightarrow> bool" where
  "is_same cfg s c \<longleftrightarrow> length c = sp_len s \<and> list_all (\<lambda>i. rd cfg s i = c ! i) [0..<length c]"

text \<open>\<^verbatim>\<open>if ((unsigned)a - 'a' < 26) a &= 95\<close>\<close>

definition caseless :: "char \<Rightarrow> char" where
  "caseless c = (if 97 \<le> code c \<and> code c < 97 + 26 then char_of (code c AND 95) else c)"

definition is_caseless_same :: "string \<Rightarrow> string_span \<Rightarrow> string \<Rightarrow> bool" where
  "is_caseless_same cfg s c \<longleftrightarrow> length c = sp_len s \<and>
     list_all (\<lambda>i. caseless (c ! i) = caseless (rd cfg s i)) [0..<length c]"

definition is_valid_key :: "string \<Rightarrow> string_span \<Rightarrow> bool" where
  "is_valid_key cfg s =
     (if sp_len s \<noteq> 44 \<or> rd cfg s 43 \<noteq> CHR ''='' then False
      else if \<not> list_all (\<lambda>i. is_decimal (rd cfg s i) \<or> is_alphabet (rd cfg s i) \<or>
                   rd cfg s i = CHR ''/'' \<or> rd cfg s i = CHR ''+'') [0..<42] then False
      else rd cfg s 42 \<in> set ''AEIMQUYcgkosw480'')"

fun hostname_loop :: "string \<Rightarrow> string_span \<Rightarrow> nat list \<Rightarrow> nat \<Rightarrow> nat \<Rightarrow> bool" where
  "hostname_loop cfg s [] num_digit num_entity = (num_digit \<noteq> num_entity)"
| "hostname_loop cfg s (i # is) num_digit num_entity =
     (if is_decimal (rd cfg s i) then hostname_loop cfg s is (num_digit + 1) num_entity
      else if rd cfg s i = CHR ''.'' then hostname_loop cfg s is num_digit (num_entity - 1)
      else if \<not> is_alphabet (rd cfg s i) \<and> rd cfg s i \<noteq> CHR ''-'' then False
      else if i \<noteq> 0 \<and> rd cfg s i = CHR ''.'' \<and> rd cfg s (i - 1) = CHR ''.'' then False
      else hostname_loop cfg s is num_digit num_entity)"

definition is_valid_hostname :: "string \<Rightarrow> string_span \<Rightarrow> bool" where
  "is_valid_hostname cfg s =
     (if sp_len s > 63 \<or> sp_len s = 0 then False
      else if rd cfg s 0 = CHR ''-'' \<or> rd cfg s (sp_len s - 1) = CHR ''-'' then False
      else if rd cfg s 0 = CHR ''.'' \<or> rd cfg s (sp_len s - 1) = CHR ''.'' then False
      else hostname_loop cfg s [0..<sp_len s] 0 (sp_len s))"

text \<open>The number of an IPv4 address at \<^verbatim>\<open>pos\<close>: at most \<^term>\<open>k\<close> more digits.\<close>

fun ipv4_number :: "string \<Rightarrow> string_span \<Rightarrow> nat \<Rightarrow> nat \<Rightarrow> nat \<Rightarrow> nat \<Rightarrow> nat \<times> nat" where
  "ipv4_number cfg s pos 0 j v = (j, v)"
| "ipv4_number cfg s pos (Suc k) j v =
     (if pos + j < sp_len s \<and> is_decimal (rd cfg s (pos + j))
      then ipv4_number cfg s pos k (j + 1) (10 * v + (code (rd cfg s (pos + j)) - 48))
      else (j, v))"

text \<open>The loop over \<^verbatim>\<open>i\<close>, with \<^term>\<open>k\<close> rounds left of four.\<close>

fun ipv4_loop :: "string \<Rightarrow> string_span \<Rightarrow> nat \<Rightarrow> nat \<Rightarrow> nat \<Rightarrow> bool" where
  "ipv4_loop cfg s 0 i pos = False"
| "ipv4_loop cfg s (Suc k) i pos =
     (if pos < sp_len s then
        (let (j, v) = ipv4_number cfg s pos 3 0 0
         in if j = 0 \<or> (j > 1 \<and> rd cfg s pos = CHR ''0'') \<or> v > 255 then False
            else if pos + j = sp_len s \<and> i = 3 then True
            else if rd cfg s (pos + j) \<noteq> CHR ''.'' then False
            else ipv4_loop cfg s k (i + 1) (pos + j + 1))
      else False)"

definition is_valid_ipv4 :: "string \<Rightarrow> string_span \<Rightarrow> bool" where
  "is_valid_ipv4 cfg s = ipv4_loop cfg s 4 0 0"

fun ipv6_group :: "string \<Rightarrow> string_span \<Rightarrow> nat \<Rightarrow> nat \<Rightarrow> nat \<Rightarrow> nat" where
  "ipv6_group cfg s pos 0 j = j"
| "ipv6_group cfg s pos (Suc k) j =
     (if pos + j < sp_len s \<and> is_hexadecimal (rd cfg s (pos + j)) then ipv6_group cfg s pos k (j + 1) else j)"

function ipv6_loop :: "string \<Rightarrow> string_span \<Rightarrow> nat \<Rightarrow> nat \<Rightarrow> bool \<Rightarrow> bool" where
  "ipv6_loop cfg s i pos seen_colon =
     (if pos < sp_len s then
        if rd cfg s pos = CHR '':'' \<and> \<not> seen_colon then
          (if pos + 1 = sp_len s then True
           else if i = 7 then False
           else ipv6_loop cfg s (i + 1) (pos + 1) True)
        else
          (let j = ipv6_group cfg s pos 4 0
           in if j = 0 then False
              else if pos + j = sp_len s \<and> (seen_colon \<or> i = 7) then True
              else if i = 7 then False
              else if rd cfg s (pos + j) \<noteq> CHR '':'' then
                (if rd cfg s (pos + j) \<noteq> CHR ''.'' \<or> (i < 6 \<and> \<not> seen_colon) then False
                 else is_valid_ipv4 cfg (span (sp_s s + pos) (sp_len s - pos)))
              else ipv6_loop cfg s (i + 1) (pos + j + 1) seen_colon)
      else True)"
  by pat_completeness auto
termination
  by (relation "measure (\<lambda>(cfg, s, i, pos, _). sp_len s - pos)") auto

declare ipv6_loop.simps [simp del]

definition is_valid_ipv6 :: "string \<Rightarrow> string_span \<Rightarrow> bool" where
  "is_valid_ipv6 cfg s =
     (if sp_len s < 2 then False
      else if rd cfg s 0 = CHR '':'' \<and> rd cfg s 1 \<noteq> CHR '':'' then False
      else if rd cfg s (sp_len s - 1) = CHR '':'' \<and> rd cfg s (sp_len s - 2) \<noteq> CHR '':'' then False
      else ipv6_loop cfg s 0 (if rd cfg s 0 = CHR '':'' then 1 else 0) False)"

fun uint_hex_loop :: "string \<Rightarrow> string_span \<Rightarrow> nat list \<Rightarrow> nat \<Rightarrow> nat option" where
  "uint_hex_loop cfg s [] v = Some v"
| "uint_hex_loop cfg s (i # is) v =
     (let c = code (rd cfg s i)
      in if 48 \<le> c \<and> c - 48 < 10 then uint_hex_loop cfg s is (16 * v + (c - 48))
         else if 97 \<le> c OR 32 \<and> (c OR 32) - 97 < 6 then uint_hex_loop cfg s is (16 * v + (c OR 32) - 97 + 10)
         else None)"

fun uint_dec_loop :: "string \<Rightarrow> string_span \<Rightarrow> nat list \<Rightarrow> nat \<Rightarrow> nat option" where
  "uint_dec_loop cfg s [] v = Some v"
| "uint_dec_loop cfg s (i # is) v =
     (if \<not> is_decimal (rd cfg s i) then None else uint_dec_loop cfg s is (10 * v + (code (rd cfg s i) - 48)))"

definition is_valid_uint :: "string \<Rightarrow> string_span \<Rightarrow> bool \<Rightarrow> nat \<Rightarrow> nat \<Rightarrow> bool" where
  "is_valid_uint cfg s support_hex mn mx =
     (if sp_len s > 10 \<or> sp_len s = 0 then False
      else (case (if support_hex \<and> sp_len s > 2 \<and> rd cfg s 0 = CHR ''0'' \<and> rd cfg s 1 = CHR ''x''
                  then uint_hex_loop cfg s [2..<sp_len s] 0
                  else uint_dec_loop cfg s [0..<sp_len s] 0) of
         None \<Rightarrow> False
       | Some v \<Rightarrow> v \<le> mx \<and> v \<ge> mn))"

definition is_valid_port :: "string \<Rightarrow> string_span \<Rightarrow> bool" where
  "is_valid_port cfg s = is_valid_uint cfg s False 0 65535"

definition is_valid_mtu :: "string \<Rightarrow> string_span \<Rightarrow> bool" where
  "is_valid_mtu cfg s = is_valid_uint cfg s False 576 65535"

definition is_valid_persistentkeepalive :: "string \<Rightarrow> string_span \<Rightarrow> bool" where
  "is_valid_persistentkeepalive cfg s = (if is_same cfg s ''off'' then True else is_valid_uint cfg s False 0 65535)"

definition is_valid_fwmark :: "string \<Rightarrow> string_span \<Rightarrow> bool" where
  "is_valid_fwmark cfg s = (if is_same cfg s ''off'' then True else is_valid_uint cfg s True 0 4294967295)"

definition is_valid_table :: "string \<Rightarrow> string_span \<Rightarrow> bool" where
  "is_valid_table cfg s =
     (if is_same cfg s ''auto'' then True
      else if is_same cfg s ''off'' then True
      else if sp_len s < 512 then True
      else is_valid_uint cfg s False 0 4294967295)"

definition is_valid_saveconfig :: "string \<Rightarrow> string_span \<Rightarrow> bool" where
  "is_valid_saveconfig cfg s \<longleftrightarrow> is_same cfg s ''true'' \<or> is_same cfg s ''false''"

definition is_valid_prepostupdown :: "string \<Rightarrow> string_span \<Rightarrow> bool" where
  "is_valid_prepostupdown cfg s \<longleftrightarrow> sp_len s \<noteq> 0"

definition is_valid_scope :: "string \<Rightarrow> string_span \<Rightarrow> bool" where
  "is_valid_scope cfg s =
     (if sp_len s > 64 \<or> sp_len s = 0 then False
      else list_all (\<lambda>i. is_alphabet (rd cfg s i) \<or> is_decimal (rd cfg s i) \<or> rd cfg s i = CHR ''_'' \<or>
        rd cfg s i = CHR ''='' \<or> rd cfg s i = CHR ''+'' \<or> rd cfg s i = CHR ''.'' \<or> rd cfg s i = CHR ''-'') [0..<sp_len s])"

fun endpoint6_loop :: "string \<Rightarrow> string_span \<Rightarrow> nat list \<Rightarrow> bool \<Rightarrow> string_span \<Rightarrow> bool" where
  "endpoint6_loop cfg s [] seen_scope hostspan = False"
| "endpoint6_loop cfg s (i # is) seen_scope hostspan =
     (if rd cfg s i = CHR ''%'' then
        (if seen_scope then False
         else if \<not> is_valid_ipv6 cfg hostspan then False
         else endpoint6_loop cfg s is True (span (sp_s s + i + 1) 0))
      else if rd cfg s i = CHR '']'' then
        (if seen_scope \<and> \<not> is_valid_scope cfg hostspan then False
         else if \<not> seen_scope \<and> \<not> is_valid_ipv6 cfg hostspan then False
         else if i = sp_len s - 1 \<or> rd cfg s (i + 1) \<noteq> CHR '':'' then False
         else is_valid_port cfg (span (sp_s s + i + 2) (sp_len s - i - 2)))
      else endpoint6_loop cfg s is seen_scope (hostspan\<lparr> sp_len := sp_len hostspan + 1 \<rparr>))"

fun endpoint_loop :: "string \<Rightarrow> string_span \<Rightarrow> nat list \<Rightarrow> bool" where
  "endpoint_loop cfg s [] = False"
| "endpoint_loop cfg s (i # is) =
     (if rd cfg s i = CHR '':'' then
        (let host = span (sp_s s) i; port = span (sp_s s + i + 1) (sp_len s - i - 1)
         in is_valid_port cfg port \<and> (is_valid_ipv4 cfg host \<or> is_valid_hostname cfg host))
      else endpoint_loop cfg s is)"

definition is_valid_endpoint :: "string \<Rightarrow> string_span \<Rightarrow> bool" where
  "is_valid_endpoint cfg s =
     (if sp_len s = 0 then False
      else if rd cfg s 0 = CHR ''['' then endpoint6_loop cfg s [1..<sp_len s] False (span (sp_s s + 1) 0)
      else endpoint_loop cfg s [0..<sp_len s])"

definition network_cidr :: "string \<Rightarrow> string_span \<Rightarrow> string_span \<Rightarrow> bool" where
  "network_cidr cfg ipspan cidrspan =
     (if sp_len cidrspan > 3 \<or> sp_len cidrspan = 0 then False
      else (case uint_dec_loop cfg cidrspan [0..<sp_len cidrspan] 0 of
         None \<Rightarrow> False
       | Some cidrval \<Rightarrow>
           if is_valid_ipv4 cfg ipspan then cidrval \<le> 32
           else if is_valid_ipv6 cfg ipspan then cidrval \<le> 128
           else False))"

fun network_loop :: "string \<Rightarrow> string_span \<Rightarrow> nat list \<Rightarrow> bool" where
  "network_loop cfg s [] \<longleftrightarrow> is_valid_ipv4 cfg s \<or> is_valid_ipv6 cfg s"
| "network_loop cfg s (i # is) =
     (if rd cfg s i = CHR ''/''
      then network_cidr cfg (span (sp_s s) i) (span (sp_s s + i + 1) (sp_len s - i - 1))
      else network_loop cfg s is)"

definition is_valid_network :: "string \<Rightarrow> string_span \<Rightarrow> bool" where
  "is_valid_network cfg s = network_loop cfg s [0..<sp_len s]"


section \<open>Spans and their text\<close>

definition in_text :: "string \<Rightarrow> string_span \<Rightarrow> bool" where
  "in_text cfg s \<longleftrightarrow> sp_s s + sp_len s \<le> length cfg"

definition span_text :: "string \<Rightarrow> string_span \<Rightarrow> string" where
  "span_text cfg s = take (sp_len s) (drop (sp_s s) cfg)"

lemma length_span_text [simp]: "in_text cfg s \<Longrightarrow> length (span_text cfg s) = sp_len s"
  by (simp add: in_text_def span_text_def)

lemma rd_text: "in_text cfg s \<Longrightarrow> i < sp_len s \<Longrightarrow> rd cfg s i = span_text cfg s ! i"
  by (simp add: in_text_def span_text_def rd_def char_at_def)

lemma map_rd: "in_text cfg s \<Longrightarrow> n \<le> sp_len s \<Longrightarrow> map (rd cfg s) [m..<n] = take (n - m) (drop m (span_text cfg s))"
  by (rule nth_equalityI) (simp_all add: rd_text)

lemma map_rd_all: "in_text cfg s \<Longrightarrow> map (rd cfg s) [0..<sp_len s] = span_text cfg s"
  by (rule nth_equalityI) (simp_all add: rd_text)

lemma list_all_rd: "in_text cfg s \<Longrightarrow> list_all (\<lambda>i. P (rd cfg s i)) [0..<sp_len s] = list_all P (span_text cfg s)"
  unfolding map_rd_all[symmetric] list.pred_map comp_def ..

lemma in_text_sub: "in_text cfg s \<Longrightarrow> a + n \<le> sp_len s \<Longrightarrow> in_text cfg (span (sp_s s + a) n)"
  by (simp add: in_text_def)

lemma span_text_sub:
  "in_text cfg s \<Longrightarrow> a + n \<le> sp_len s \<Longrightarrow> span_text cfg (span (sp_s s + a) n) = take n (drop a (span_text cfg s))"
  by (simp add: span_text_def drop_take min_def) (simp add: add.commute)

lemma or_32_nat: "(n::nat) OR 32 = (if odd (n div 32) then n else n + 32)"
proof -
  have b: "bit (32::nat) m \<longleftrightarrow> m = 5" for m
    using bit_exp_iff[of 5 m, where 'a = nat] by auto
  show ?thesis
  proof (cases "odd (n div 32)")
    case True
    then have "bit n 5" by (simp add: bit_iff_odd)
    then have "n OR 32 = n" by (intro bit_eqI) (auto simp: bit_or_iff b)
    then show ?thesis using True by simp
  next
    case False
    then have "\<not> bit n 5" by (simp add: bit_iff_odd)
    then have "n OR 32 = n + 32" by (intro disjunctive_add[symmetric]) (auto simp: b)
    then show ?thesis using False by simp
  qed
qed

lemma or_32_between:
  assumes "97 \<le> lo" "hi \<le> 122"
  shows "lo \<le> (n::nat) OR 32 \<and> n OR 32 \<le> hi \<longleftrightarrow> lo - 32 \<le> n \<and> n \<le> hi - 32 \<or> lo \<le> n \<and> n \<le> hi"
proof -
  obtain q r where n: "n = 32 * q + r" "r < 32" "n div 32 = q"
    using div_mult_mod_eq[of n 32] mod_less_divisor[of 32 n] by (metis mult.commute zero_less_numeral)
  have q: "q = 2 \<or> q = 3 \<or> n < 64 \<or> 128 \<le> n" using n(1,2) by linarith
  show ?thesis unfolding or_32_nat n(3) using q n(1,2) assms by auto
qed

lemma is_alphabet_iff: "is_alphabet c \<longleftrightarrow> 65 \<le> code c \<and> code c \<le> 90 \<or> 97 \<le> code c \<and> code c \<le> 122"
  using or_32_between[of 97 122 "code c"] by (simp add: is_alphabet_def)

lemma is_hexadecimal_iff:
  "is_hexadecimal c \<longleftrightarrow> 48 \<le> code c \<and> code c \<le> 57 \<or> 65 \<le> code c \<and> code c \<le> 70 \<or> 97 \<le> code c \<and> code c \<le> 102"
  using or_32_between[of 97 102 "code c"] by (auto simp: is_hexadecimal_def is_decimal_def)

lemma is_hexadecimal_digit: "is_hexadecimal c \<longleftrightarrow> digit_val c < 16"
  by (auto simp: is_hexadecimal_iff digit_val_def)

lemma is_decimal_digit: "is_decimal c \<longleftrightarrow> is_digit c"
  by (simp add: is_decimal_def)


section \<open>Keys\<close>

lemma char_val_nonneg: "0 \<le> char_val c \<longleftrightarrow> is_decimal c \<or> is_alphabet c \<or> c = CHR ''/'' \<or> c = CHR ''+''"
proof -
  have i: "(of_char c :: int) = int (code c)" by (simp only: of_nat_of_char)
  have "c = CHR ''/'' \<longleftrightarrow> code c = 47" "c = CHR ''+'' \<longleftrightarrow> code c = 43"
    by (simp_all only: char_eq_of_char_int i) simp_all
  then show ?thesis unfolding char_val_def b64_val_def is_decimal_def is_alphabet_iff i by auto
qed

lemma encode_quarter:
  "map encode_base64_char [0, 4, 8, 12, 16, 20, 24, 28, 32, 36, 40, 44, 48, 52, 56, 60] = ''AEIMQUYcgkosw048''"
  by (simp add: encode_base64_char_code b64_code_def) (simp add: char_of_def bit_iff_odd)

lemma char_val_quarter: "0 \<le> char_val c \<and> char_val c mod 4 = 0 \<longleftrightarrow> c \<in> set ''AEIMQUYcgkosw480''"
proof
  assume a: "0 \<le> char_val c \<and> char_val c mod 4 = 0"
  obtain k where k: "char_val c = 4 * k" using a by (metis dvd_imp_mod_0 mod_0_imp_dvd dvdE)
  then have "k \<in> set [0..15]" using a char_val_range(2)[of c] unfolding set_upto atLeastAtMost_iff by linarith
  have m: "map ((*) 4) [0..15] = [0, 4, 8, 12, 16, 20, 24, 28, 32, 36, 40, 44, 48, 52, 56, 60::int]" by code_simp
  have "4 * k \<in> set (map ((*) 4) [0..15])" unfolding set_map by (rule imageI) fact
  then have "char_val c \<in> set [0, 4, 8, 12, 16, 20, 24, 28, 32, 36, 40, 44, 48, 52, 56, 60]" unfolding k m .
  then have "encode_base64_char (char_val c) \<in> set (map encode_base64_char [0, 4, 8, 12, 16, 20, 24, 28, 32, 36, 40, 44, 48, 52, 56, 60])"
    unfolding set_map by (rule imageI)
  then have "c \<in> set ''AEIMQUYcgkosw048''" using a encode_char_val[of c] unfolding encode_quarter by simp
  then show "c \<in> set ''AEIMQUYcgkosw480''" by auto
next
  assume "c \<in> set ''AEIMQUYcgkosw480''"
  then show "0 \<le> char_val c \<and> char_val c mod 4 = 0"
    by (auto simp: char_val_def b64_val_def)
qed

lemma last_quad_iff:
  "0 \<le> last_quad sg b \<and> last_quad sg b AND 255 = 0 \<longleftrightarrow>
   0 \<le> char_val (b ! 40) \<and> 0 \<le> char_val (b ! 41) \<and> b ! 42 \<in> set ''AEIMQUYcgkosw480''"
proof -
  let ?p = "char_val (b ! 40)" and ?q = "char_val (b ! 41)" and ?r = "char_val (b ! 42)"
  have n: "0 \<le> last_quad sg b \<longleftrightarrow> 0 \<le> ?p \<and> 0 \<le> ?q \<and> 0 \<le> ?r"
    using decode_base64_neg[of sg "b ! 40" "b ! 41" "b ! 42" "CHR ''A''"] last_char_val_A
    unfolding last_quad_def by linarith
  have "last_quad sg b AND 255 = 0 \<longleftrightarrow> ?r mod 4 = 0" if "0 \<le> last_quad sg b"
  proof -
    have "last_quad sg b = 64 * ((4096 * ?p + 64 * ?q) + ?r)"
      using decode_base64_join[of sg "b ! 40" "b ! 41" "b ! 42" "CHR ''A''"] that last_char_val_A
      unfolding last_quad_def by (simp add: join4_def)
    then have e: "last_quad sg b mod 256 = 64 * (((4096 * ?p + 64 * ?q) + ?r) mod 4)"
      using mult_mod_right[of 64 "(4096 * ?p + 64 * ?q) + ?r" 4] by simp
    have "4096 * ?p + 64 * ?q = 4 * (1024 * ?p + 16 * ?q)" by simp
    then have "((4096 * ?p + 64 * ?q) + ?r) mod 4 = ?r mod 4" by (metis mod_mult_self4)
    then show ?thesis using e by (simp add: and_255)
  qed
  then show ?thesis unfolding char_val_quarter[symmetric] using n by argo
qed

lemma all_less_4: "(\<forall>m<(4::nat). Q m) \<longleftrightarrow> Q 0 \<and> Q 1 \<and> Q 2 \<and> Q 3"
  by (auto simp: numeral_eq_Suc less_Suc_eq)

lemma quads_iff:
  assumes "length b = 44"
  shows "(\<forall>i<10. 0 \<le> quad sg b i) \<longleftrightarrow> (\<forall>j<40. 0 \<le> char_val (b ! j))"
proof -
  have q: "0 \<le> quad sg b i \<longleftrightarrow> (\<forall>m<4. 0 \<le> char_val (b ! (i * 4 + m)))" if "i < 10" for i
  proof -
    have "take 4 (drop (i * 4) b) = [b ! (i * 4), b ! (i * 4 + 1), b ! (i * 4 + 2), b ! (i * 4 + 3)]"
      using that assms by (intro take4) simp
    moreover have "(\<forall>m<4. 0 \<le> char_val (b ! (i * 4 + m))) \<longleftrightarrow> 0 \<le> char_val (b ! (i * 4)) \<and> 0 \<le> char_val (b ! (i * 4 + 1))
      \<and> 0 \<le> char_val (b ! (i * 4 + 2)) \<and> 0 \<le> char_val (b ! (i * 4 + 3))"
      using all_less_4[of "\<lambda>m. 0 \<le> char_val (b ! (i * 4 + m))"] by simp
    ultimately show ?thesis
      unfolding quad_def using decode_base64_neg[of sg "b ! (i * 4)" "b ! (i * 4 + 1)" "b ! (i * 4 + 2)" "b ! (i * 4 + 3)"]
      by (simp add: not_less[symmetric])
  qed
  show ?thesis
  proof
    assume l: "\<forall>i<10. 0 \<le> quad sg b i"
    show "\<forall>j<40. 0 \<le> char_val (b ! j)"
    proof (intro allI impI)
      fix j :: nat
      assume "j < 40"
      then have "j div 4 < 10" "j mod 4 < 4" "j div 4 * 4 + j mod 4 = j" by auto
      then show "0 \<le> char_val (b ! j)" using l q by metis
    qed
  next
    assume "\<forall>j<40. 0 \<le> char_val (b ! j)"
    then show "\<forall>i<10. 0 \<le> quad sg b i" using q by simp
  qed
qed

lemma key_accepted:
  assumes "length k0 = WG_KEY_LEN"
  shows "fst (key_from_base64 sg k0 b) \<longleftrightarrow> length b = 44 \<and> b ! 43 = CHR ''='' \<and> (\<forall>j<42. 0 \<le> char_val (b ! j)) \<and>
     b ! 42 \<in> set ''AEIMQUYcgkosw480''"
proof (cases "length b = 44")
  case True
  have "(\<forall>j<42. 0 \<le> char_val (b ! j)) \<longleftrightarrow> (\<forall>j<40. 0 \<le> char_val (b ! j)) \<and> 0 \<le> char_val (b ! 40) \<and> 0 \<le> char_val (b ! 41)"
    using All_less_Suc[of 41] All_less_Suc[of 40] by simp blast
  then show ?thesis
    using key_from_base64_eq[OF assms, of b sg] last_quad_iff[of sg b] quads_iff[OF True, of sg] True by auto
next
  case False
  then show ?thesis by (simp add: key_from_base64_def)
qed

lemma is_valid_key_iff:
  assumes "in_text cfg s" "length k0 = WG_KEY_LEN"
  shows "is_valid_key cfg s \<longleftrightarrow> fst (key_from_base64 sg k0 (span_text cfg s))"
proof -
  have "list_all (\<lambda>i. is_decimal (rd cfg s i) \<or> is_alphabet (rd cfg s i) \<or> rd cfg s i = CHR ''/'' \<or> rd cfg s i = CHR ''+'') [0..<42]
      \<longleftrightarrow> (\<forall>j<42. 0 \<le> char_val (span_text cfg s ! j))" if "sp_len s = 44"
    using rd_text[OF assms(1)] that by (auto simp: list_all_iff char_val_nonneg)
  then show ?thesis
    unfolding key_accepted[OF assms(2)] is_valid_key_def using assms(1) rd_text[OF assms(1)] by auto
qed

end
