(* ===== verification/Highlight_Ip.thy ===== *)
theory Highlight_Ip
  imports Highlight_Valid
begin

text \<open>
  What the validators of the highlighter accept, over the text of the span: numbers, host names and
  addresses.
\<close>

section \<open>Numbers\<close>

lemma uint_dec_loop_eq:
  "uint_dec_loop cfg s is v =
     (if list_all (\<lambda>i. is_digit (rd cfg s i)) is then Some (foldl (\<lambda>a c. a * 10 + digit_val c) v (map (rd cfg s) is)) else None)"
  by (induction "is" arbitrary: v) (auto simp: is_decimal_digit digit_val_def mult.commute)

lemma uint_dec_loop_text:
  assumes "in_text cfg s"
  shows "uint_dec_loop cfg s [0..<sp_len s] 0 =
     (if list_all (\<lambda>c. is_digit c) (span_text cfg s) then Some (numval 10 (span_text cfg s)) else None)"
  using uint_dec_loop_eq[of cfg s "[0..<sp_len s]" 0] list_all_rd[OF assms, of "\<lambda>c. is_digit c"] map_rd_all[OF assms]
  by (simp add: numval_def)

lemma uint_hex_loop_eq:
  "uint_hex_loop cfg s is v =
     (if list_all (\<lambda>i. is_hexadecimal (rd cfg s i)) is then Some (foldl (\<lambda>a c. a * 16 + digit_val c) v (map (rd cfg s) is)) else None)"
proof (induction "is" arbitrary: v)
  case (Cons i "is")
  let ?c = "code (rd cfg s i)"
  have b: "97 \<le> ?c OR 32 \<and> (?c OR 32) - 97 < 6 \<longleftrightarrow> 65 \<le> ?c \<and> ?c \<le> 70 \<or> 97 \<le> ?c \<and> ?c \<le> 102"
    using or_32_between[of 97 102 ?c] by auto
  have v: "(?c OR 32) - 97 + 10 = digit_val (rd cfg s i)" if "65 \<le> ?c \<and> ?c \<le> 70 \<or> 97 \<le> ?c \<and> ?c \<le> 102"
  proof -
    have "?c div 32 = 2 \<or> ?c div 32 = 3" using that by auto
    moreover have "?c div 32 = 2 \<Longrightarrow> ?c < 96" "?c div 32 = 3 \<Longrightarrow> 96 \<le> ?c" by linarith+
    ultimately show ?thesis using that unfolding or_32_nat digit_val_def by auto
  qed
  have w: "16 * v + (?c OR 32) - 97 + 10 = v * 16 + digit_val (rd cfg s i)" if "65 \<le> ?c \<and> ?c \<le> 70 \<or> 97 \<le> ?c \<and> ?c \<le> 102"
    using v[OF that] b that by linarith
  show ?case
  proof (cases "48 \<le> ?c \<and> ?c - 48 < 10")
    case True
    then have "is_hexadecimal (rd cfg s i)" "digit_val (rd cfg s i) = ?c - 48" by (auto simp: is_hexadecimal_iff digit_val_def)
    then show ?thesis using True Cons.IH by (simp add: Let_def mult.commute)
  next
    case False
    then have h: "is_hexadecimal (rd cfg s i) \<longleftrightarrow> 65 \<le> ?c \<and> ?c \<le> 70 \<or> 97 \<le> ?c \<and> ?c \<le> 102" by (auto simp: is_hexadecimal_iff)
    show ?thesis using Cons.IH[of "v * 16 + digit_val (rd cfg s i)"] w unfolding uint_hex_loop.simps Let_def if_not_P[OF False] b h[symmetric]
      by (simp add: h[symmetric])
  qed
qed simp

lemma is_valid_dec:
  assumes "in_text cfg s"
  shows "is_valid_uint cfg s False mn mx \<longleftrightarrow> all_digits (span_text cfg s) \<and> sp_len s \<le> 10 \<and>
     mn \<le> numval 10 (span_text cfg s) \<and> numval 10 (span_text cfg s) \<le> mx"
proof -
  have "sp_len s = 0 \<longleftrightarrow> span_text cfg s = []" using length_span_text[OF assms] by (metis length_0_conv)
  then show ?thesis
    unfolding is_valid_uint_def using uint_dec_loop_text[OF assms] by (auto simp: all_digits_def list_all_iff)
qed

section \<open>Decimal numbers without leading zeros\<close>

lemma dec_hd: "1 < length (dec n) \<Longrightarrow> hd (dec n) \<noteq> CHR ''0''"
proof (induction "10::nat" n rule: numstr.induct)
  case (1 n)
  then have n: "\<not> n < 10" by (subst (asm) numstr.simps) (simp split: if_splits)
  have d: "dec n = dec (n div 10) @ [digit_char (n mod 10)]" by (subst numstr.simps) (simp add: n)
  have h: "hd (dec n) = hd (dec (n div 10))" unfolding d by simp
  show ?case
  proof (cases "n div 10 < 10")
    case True
    then have "dec (n div 10) = [digit_char (n div 10)]" by (subst numstr.simps) simp
    moreover have "digit_char (n div 10) \<noteq> CHR ''0''"
    proof
      assume a: "digit_char (n div 10) = CHR ''0''"
      have "code (digit_char (n div 10)) = n div 10 + 48" using code_digit_char[of "n div 10"] True by simp
      then show False using n unfolding a by auto
    qed
    ultimately show ?thesis unfolding h by simp
  next
    case False
    then have "1 < length (dec (n div 10))" by (subst numstr.simps) simp
    then show ?thesis using 1(1) n unfolding h by simp
  qed
qed

lemma digit_char_val: "is_digit c \<Longrightarrow> digit_char (digit_val c) = c"
  by (auto simp: digit_char_def digit_val_def)

lemma dec_canonical: "all_digits t \<Longrightarrow> (1 < length t \<longrightarrow> hd t \<noteq> CHR ''0'') \<Longrightarrow> dec (numval 10 t) = t"
proof (induction t rule: rev_induct)
  case (snoc c t)
  have c: "is_digit c" "digit_val c < 10" using snoc.prems(1) by (auto simp: all_digits_def digit_val_10)
  show ?case
  proof (cases "t = []")
    case True
    then show ?thesis using c digit_char_val[OF c(1)] by (subst numstr.simps) (simp add: numval_def)
  next
    case False
    then have t: "all_digits t" "hd t \<noteq> CHR ''0''" using snoc.prems by (auto simp: all_digits_def)
    then have IH: "dec (numval 10 t) = t" using snoc.IH by blast
    have "numval 10 t \<noteq> 0"
    proof
      assume "numval 10 t = 0"
      then have "t = [digit_char 0]" using IH by (subst (asm) numstr.simps) simp
      then show False using t(2) by (simp add: digit_char_def char_of_def bit_iff_odd)
    qed
    then have "\<not> numval 10 (t @ [c]) < 10" "numval 10 (t @ [c]) div 10 = numval 10 t" "numval 10 (t @ [c]) mod 10 = digit_val c"
      using c(2) by (simp_all add: numval_snoc)
    then show ?thesis using IH digit_char_val[OF c(1)] by (subst numstr.simps) simp
  qed
qed (simp add: all_digits_def)

lemma dec_length_3: "n < 1000 \<Longrightarrow> length (dec n) \<le> 3"
proof -
  assume "n < 1000"
  then have "n div 10 div 10 < 10" by simp
  then have "length (dec (n div 10 div 10)) = 1" by (subst numstr.simps) simp
  then have "length (dec (n div 10)) \<le> 2" by (subst numstr.simps) simp
  then show ?thesis by (subst numstr.simps) simp
qed


section \<open>IPv4\<close>

lemma ipv4_number_run:
  "\<exists>m. ipv4_number cfg s pos k j v = (j + m, foldl (\<lambda>a c. a * 10 + digit_val c) v (map (\<lambda>i. rd cfg s (pos + i)) [j..<j + m])) \<and>
     m \<le> k \<and> (\<forall>i \<in> {j..<j + m}. pos + i < sp_len s \<and> is_digit (rd cfg s (pos + i))) \<and>
     (m < k \<longrightarrow> \<not> (pos + (j + m) < sp_len s \<and> is_digit (rd cfg s (pos + (j + m)))))"
proof (induction k arbitrary: j v)
  case (Suc k)
  show ?case
  proof (cases "pos + j < sp_len s \<and> is_digit (rd cfg s (pos + j))")
    case True
    let ?v = "10 * v + (code (rd cfg s (pos + j)) - 48)"
    obtain m where m: "ipv4_number cfg s pos k (j + 1) ?v = (j + 1 + m, foldl (\<lambda>a c. a * 10 + digit_val c) ?v (map (\<lambda>i. rd cfg s (pos + i)) [j + 1..<j + 1 + m]))"
      "m \<le> k" "\<forall>i \<in> {j + 1..<j + 1 + m}. pos + i < sp_len s \<and> is_digit (rd cfg s (pos + i))"
      "m < k \<longrightarrow> \<not> (pos + (j + 1 + m) < sp_len s \<and> is_digit (rd cfg s (pos + (j + 1 + m))))"
      using Suc.IH[of "j + 1" ?v] by blast
    have v: "?v = v * 10 + digit_val (rd cfg s (pos + j))" using True by (simp add: digit_val_def)
    have l: "[j..<j + Suc m] = j # [j + 1..<j + 1 + m]" by (simp add: upt_conv_Cons)
    have r: "{j..<j + Suc m} = insert j {j + 1..<j + 1 + m}" by auto
    have "ipv4_number cfg s pos (Suc k) j v = (j + Suc m, foldl (\<lambda>a c. a * 10 + digit_val c) v (map (\<lambda>i. rd cfg s (pos + i)) [j..<j + Suc m]))"
      unfolding l using True m(1) v by (simp add: is_decimal_digit)
    moreover have "\<forall>i \<in> {j..<j + Suc m}. pos + i < sp_len s \<and> is_digit (rd cfg s (pos + i))" unfolding r using m(3) True by blast
    moreover have "Suc m < Suc k \<longrightarrow> \<not> (pos + (j + Suc m) < sp_len s \<and> is_digit (rd cfg s (pos + (j + Suc m))))" using m(4) by simp
    ultimately show ?thesis using m(2) by (intro exI[of _ "Suc m"] conjI) simp_all
  next
    case False
    then show ?thesis by (intro exI[of _ 0]) (auto simp: is_decimal_digit)
  qed
qed simp

lemma ipv4_number_text:
  assumes "in_text cfg s" "pos \<le> sp_len s"
  defines "R \<equiv> drop pos (span_text cfg s)"
  shows "\<exists>m. ipv4_number cfg s pos 3 0 0 = (m, numval 10 (take m R)) \<and> m \<le> 3 \<and> m \<le> length R \<and> (\<forall>c \<in> set (take m R). is_digit c) \<and>
     (m < 3 \<longrightarrow> m = length R \<or> \<not> is_digit (R ! m))"
proof -
  obtain m where m: "ipv4_number cfg s pos 3 0 0 = (m, foldl (\<lambda>a c. a * 10 + digit_val c) 0 (map (\<lambda>i. rd cfg s (pos + i)) [0..<m]))"
     "m \<le> 3" "\<forall>i < m. pos + i < sp_len s \<and> is_digit (rd cfg s (pos + i))"
     "m < 3 \<longrightarrow> \<not> (pos + m < sp_len s \<and> is_digit (rd cfg s (pos + m)))"
    using ipv4_number_run[of cfg s pos 3 0 0] by auto
  have len: "length R = sp_len s - pos" using assms(1) by (simp add: R_def)
  have rd: "rd cfg s (pos + i) = R ! i" if "pos + i < sp_len s" for i
    using that assms(1) by (simp add: R_def rd_text)
  have le: "m \<le> length R" using m(3) assms(2) unfolding len by (cases m) auto
  have mp: "map (\<lambda>i. rd cfg s (pos + i)) [0..<m] = take m R"
    using le len rd by (intro nth_equalityI) simp_all
  have d: "is_digit c" if c: "c \<in> set (take m R)" for c
  proof -
    obtain i where "i < m" "c = rd cfg s (pos + i)" using c unfolding mp[symmetric] by auto
    then show ?thesis using m(3) by blast
  qed
  have e: "m < 3 \<longrightarrow> m = length R \<or> \<not> is_digit (R ! m)"
    using m(4) le len rd[of m] by (cases "pos + m < sp_len s") auto
  show ?thesis using m(1,2) mp le d e by (intro exI[of _ m]) (simp add: numval_def)
qed

lemma ipv4_loop_behind: "sp_len s \<le> pos \<Longrightarrow> \<not> ipv4_loop cfg s k i pos"
  by (cases k) simp_all

definition quad_text :: "nat \<Rightarrow> string \<Rightarrow> bool" where
  "quad_text k t \<longleftrightarrow> (\<exists>ns. length ns = k \<and> list_all (\<lambda>n. n < 256) ns \<and> t = join_with (CHR ''.'') (map dec ns))"

lemma quad_text_1: "quad_text (Suc 0) t \<longleftrightarrow> (\<exists>n < 256. t = dec n)"
  by (auto simp: quad_text_def length_Suc_conv)

lemma quad_text_Suc:
  "quad_text (Suc (Suc k)) t \<longleftrightarrow> (\<exists>n < 256. \<exists>r. t = dec n @ CHR ''.'' # r \<and> quad_text (Suc k) r)"
proof
  assume "quad_text (Suc (Suc k)) t"
  then obtain n m ns where "length (m # ns) = Suc k" "n < 256" "list_all (\<lambda>n. n < 256) (m # ns)"
    "t = dec n @ CHR ''.'' # join_with (CHR ''.'') (map dec (m # ns))"
    by (auto simp: quad_text_def length_Suc_conv)
  then show "\<exists>n < 256. \<exists>r. t = dec n @ CHR ''.'' # r \<and> quad_text (Suc k) r" unfolding quad_text_def by blast
next
  assume "\<exists>n < 256. \<exists>r. t = dec n @ CHR ''.'' # r \<and> quad_text (Suc k) r"
  then obtain n ns where n: "n < 256" "length ns = Suc k" "list_all (\<lambda>n. n < 256) ns" "t = dec n @ CHR ''.'' # join_with (CHR ''.'') (map dec ns)"
    unfolding quad_text_def by blast
  then have "t = join_with (CHR ''.'') (map dec (n # ns))" by (cases ns) simp_all
  then show "quad_text (Suc (Suc k)) t" unfolding quad_text_def using n by (intro exI[of _ "n # ns"]) simp
qed

text \<open>A number at the front of a text is found with its whole run of digits.\<close>

lemma number_front:
  assumes "n < 256" "R = dec n @ x" "x = [] \<or> \<not> is_digit (hd x)"
    and "m \<le> 3" "m \<le> length R" "\<forall>c \<in> set (take m R). is_digit c" "m < 3 \<longrightarrow> m = length R \<or> \<not> is_digit (R ! m)"
  shows "m = length (dec n)"
proof (rule ccontr)
  assume ne: "m \<noteq> length (dec n)"
  have l: "length (dec n) \<le> 3" using dec_length_3 assms(1) by simp
  show False
  proof (cases "m < length (dec n)")
    case True
    then have "R ! m = dec n ! m" "m < 3" "m < length R" using l assms(2) by (auto simp: nth_append)
    moreover have "is_digit (dec n ! m)" using True dec_is_digit nth_mem by blast
    ultimately show False using assms(7) by auto
  next
    case False
    then have g: "length (dec n) < m" using ne by simp
    then have "x \<noteq> []" using assms(2,5) by auto
    then have "hd x \<in> set (take m R)" using g assms(2) by (cases x; cases "m - length (dec n)") auto
    then show False using assms(3,6) \<open>x \<noteq> []\<close> by blast
  qed
qed

lemma ipv4_step:
  assumes "in_text cfg s" "pos < sp_len s"
  defines "R \<equiv> drop pos (span_text cfg s)"
  shows "\<exists>m v. ipv4_number cfg s pos 3 0 0 = (m, v) \<and>
    (m \<noteq> 0 \<and> \<not> (m > 1 \<and> rd cfg s pos = CHR ''0'') \<and> \<not> v > 255 \<longrightarrow> v < 256 \<and> R = dec v @ drop m R \<and> m \<le> length R) \<and>
    (\<forall>n x. n < 256 \<and> R = dec n @ x \<and> (x = [] \<or> \<not> is_digit (hd x)) \<longrightarrow>
       m \<noteq> 0 \<and> \<not> (m > 1 \<and> rd cfg s pos = CHR ''0'') \<and> m = length (dec n) \<and> v = n)"
proof -
  obtain m where m: "ipv4_number cfg s pos 3 0 0 = (m, numval 10 (take m R))" "m \<le> 3" "m \<le> length R" "\<forall>c \<in> set (take m R). is_digit c"
     "m < 3 \<longrightarrow> m = length R \<or> \<not> is_digit (R ! m)"
    using ipv4_number_text[OF assms(1), of pos] assms(2) unfolding R_def by auto
  have len: "length R = sp_len s - pos" using assms(1) by (simp add: R_def)
  have h: "rd cfg s pos = hd R" using assms(1,2) len by (simp add: R_def rd_text hd_drop_conv_nth)
  have one: "numval 10 (take m R) < 256 \<and> R = dec (numval 10 (take m R)) @ drop m R"
    if "m \<noteq> 0" "\<not> (m > 1 \<and> rd cfg s pos = CHR ''0'')" "\<not> numval 10 (take m R) > 255"
  proof -
    have "take m R \<noteq> []" using that(1) m(3) by auto
    then have "dec (numval 10 (take m R)) = take m R" using m(3,4) that h by (intro dec_canonical) (auto simp: all_digits_def)
    then show ?thesis using that(3) by simp
  qed
  have two: "m = length (dec n) \<and> take m R = dec n \<and> \<not> (m > 1 \<and> rd cfg s pos = CHR ''0'')"
    if "n < 256" "R = dec n @ x" "x = [] \<or> \<not> is_digit (hd x)" for n x
  proof -
    have e: "m = length (dec n)" using number_front[OF that m(2-5)] .
    then have "take m R = dec n" using that(2) by simp
    moreover have "hd R = hd (dec n)" using that(2) by simp
    ultimately show ?thesis using e h dec_hd[of n] by auto
  qed
  have "m \<noteq> 0 \<and> v = n" if "m = length (dec n)" "take m R = dec n" "v = numval 10 (take m R)" for n v
    using that numval_numstr[of 10 n] by simp
  then show ?thesis using m(1,3) one two by (intro exI[of _ m] exI[of _ "numval 10 (take m R)"]) blast
qed

lemma quad_text_first: "quad_text (Suc k) t \<Longrightarrow> \<exists>n x. n < 256 \<and> t = dec n @ x \<and> (x = [] \<or> \<not> is_digit (hd x))"
  by (cases k) (auto simp: quad_text_1 quad_text_Suc)

lemma quad_text_Nil: "\<not> quad_text (Suc k) []"
  using quad_text_first[of k "[]"] by auto

lemma ipv4_loop_iff:
  assumes "in_text cfg s"
  shows "k + i = 3 \<Longrightarrow> ipv4_loop cfg s (Suc k) i pos \<longleftrightarrow> quad_text (Suc k) (drop pos (span_text cfg s))"
proof (induction k arbitrary: i pos)
  case (0 i pos)
  show ?case
  proof (cases "pos < sp_len s")
    case True
    let ?R = "drop pos (span_text cfg s)"
    obtain m v where st: "ipv4_number cfg s pos 3 0 0 = (m, v)"
      and one: "m \<noteq> 0 \<and> \<not> (m > 1 \<and> rd cfg s pos = CHR ''0'') \<and> \<not> v > 255 \<Longrightarrow> v < 256 \<and> ?R = dec v @ drop m ?R \<and> m \<le> length ?R"
      and two: "\<And>n x. n < 256 \<and> ?R = dec n @ x \<and> (x = [] \<or> \<not> is_digit (hd x)) \<Longrightarrow>
         m \<noteq> 0 \<and> \<not> (m > 1 \<and> rd cfg s pos = CHR ''0'') \<and> m = length (dec n) \<and> v = n"
      using ipv4_step[OF assms True] by blast
    have l: "ipv4_loop cfg s (Suc 0) i pos \<longleftrightarrow> m \<noteq> 0 \<and> \<not> (m > 1 \<and> rd cfg s pos = CHR ''0'') \<and> \<not> v > 255 \<and> pos + m = sp_len s"
      using True st 0 by auto
    have len: "length ?R = sp_len s - pos" using assms by simp
    show ?thesis unfolding l quad_text_1
    proof
      assume c: "m \<noteq> 0 \<and> \<not> (m > 1 \<and> rd cfg s pos = CHR ''0'') \<and> \<not> v > 255 \<and> pos + m = sp_len s"
      then have "drop m ?R = []" using length_span_text[OF assms] by simp
      moreover have "v < 256 \<and> ?R = dec v @ drop m ?R" using one c by blast
      ultimately show "\<exists>n<256. ?R = dec n" by (metis append_Nil2)
    next
      assume "\<exists>n<256. ?R = dec n"
      then obtain n where n: "n < 256" "?R = dec n" by blast
      then show "m \<noteq> 0 \<and> \<not> (m > 1 \<and> rd cfg s pos = CHR ''0'') \<and> \<not> v > 255 \<and> pos + m = sp_len s"
        using two[of n "[]"] len True by auto
    qed
  qed (use assms ipv4_loop_behind quad_text_Nil in simp)
next
  case (Suc k i pos)
  show ?case
  proof (cases "pos < sp_len s")
    case True
    let ?R = "drop pos (span_text cfg s)"
    obtain m v where st: "ipv4_number cfg s pos 3 0 0 = (m, v)"
      and one: "m \<noteq> 0 \<and> \<not> (m > 1 \<and> rd cfg s pos = CHR ''0'') \<and> \<not> v > 255 \<Longrightarrow> v < 256 \<and> ?R = dec v @ drop m ?R \<and> m \<le> length ?R"
      and two: "\<And>n x. n < 256 \<and> ?R = dec n @ x \<and> (x = [] \<or> \<not> is_digit (hd x)) \<Longrightarrow>
         m \<noteq> 0 \<and> \<not> (m > 1 \<and> rd cfg s pos = CHR ''0'') \<and> m = length (dec n) \<and> v = n"
      using ipv4_step[OF assms True] by blast
    have len: "length ?R = sp_len s - pos" using assms by simp
    have IH: "ipv4_loop cfg s (Suc k) (i + 1) (pos + m + 1) \<longleftrightarrow> quad_text (Suc k) (drop (pos + m + 1) (span_text cfg s))"
      using Suc.IH[of "i + 1" "pos + m + 1"] Suc.prems by simp
    have d: "drop (pos + m + 1) (span_text cfg s) = drop (m + 1) ?R" by (simp add: add.commute add.left_commute)
    have l: "ipv4_loop cfg s (Suc (Suc k)) i pos \<longleftrightarrow> m \<noteq> 0 \<and> \<not> (m > 1 \<and> rd cfg s pos = CHR ''0'') \<and> \<not> v > 255 \<and>
        rd cfg s (pos + m) = CHR ''.'' \<and> quad_text (Suc k) (drop (m + 1) ?R)"
      using True st IH[unfolded d] Suc.prems by auto
    show ?thesis unfolding l quad_text_Suc
    proof
      assume c: "m \<noteq> 0 \<and> \<not> (m > 1 \<and> rd cfg s pos = CHR ''0'') \<and> \<not> v > 255 \<and> rd cfg s (pos + m) = CHR ''.'' \<and> quad_text (Suc k) (drop (m + 1) ?R)"
      then have "m + 1 < length ?R" using quad_text_Nil[of k] by (metis drop_all not_less)
      then have "drop m ?R = ?R ! m # drop (m + 1) ?R" using Cons_nth_drop_Suc[of m ?R] by simp
      moreover have "?R ! m = rd cfg s (pos + m)" using \<open>m + 1 < length ?R\<close> len assms by (simp add: rd_text)
      ultimately have "drop m ?R = CHR ''.'' # drop (m + 1) ?R" using c by metis
      then show "\<exists>n<256. \<exists>r. ?R = dec n @ CHR ''.'' # r \<and> quad_text (Suc k) r" using one c by metis
    next
      assume "\<exists>n<256. \<exists>r. ?R = dec n @ CHR ''.'' # r \<and> quad_text (Suc k) r"
      then obtain n r where n: "n < 256" "?R = dec n @ CHR ''.'' # r" "quad_text (Suc k) r" by blast
      then have w: "m \<noteq> 0 \<and> \<not> (m > 1 \<and> rd cfg s pos = CHR ''0'') \<and> m = length (dec n) \<and> v = n"
        using two[of n "CHR ''.'' # r"] by simp
      have "length ?R = length (dec n @ CHR ''.'' # r)" using n(2) by (rule arg_cong)
      then have b: "pos + m < sp_len s" using w len by simp
      then have "rd cfg s (pos + m) = ?R ! m" using assms by (simp add: rd_text)
      also have "\<dots> = CHR ''.''" unfolding n(2) using w by simp
      finally have "rd cfg s (pos + m) = CHR ''.''" .
      moreover have "drop (m + 1) ?R = r" unfolding n(2) using w by simp
      ultimately show "m \<noteq> 0 \<and> \<not> (m > 1 \<and> rd cfg s pos = CHR ''0'') \<and> \<not> v > 255 \<and> rd cfg s (pos + m) = CHR ''.'' \<and> quad_text (Suc k) (drop (m + 1) ?R)"
        using w n by auto
    qed
  qed (use assms ipv4_loop_behind quad_text_Nil in simp)
qed

lemma places_unplaces: "list_all (\<lambda>n. n < b) ns \<Longrightarrow> places b (length ns) (unplaces b ns) = ns"
  by (induction ns rule: rev_induct) (auto simp: unplaces_def)

lemma unplaces_less: "list_all (\<lambda>n. n < b) ns \<Longrightarrow> unplaces b ns < b ^ length ns"
proof (induction ns rule: rev_induct)
  case (snoc n ns)
  then have "unplaces b ns + 1 \<le> b ^ length ns" "n < b" by auto
  then have "(unplaces b ns + 1) * b \<le> b ^ length ns * b" by (simp only: mult_le_mono1)
  then show ?case using \<open>n < b\<close> by (simp add: unplaces_def algebra_simps)
qed (simp add: unplaces_def)

lemma is_valid_ipv4_iff:
  assumes "in_text cfg s"
  shows "is_valid_ipv4 cfg s \<longleftrightarrow> (\<exists>a. span_text cfg s = ntop4 a)"
proof -
  have "is_valid_ipv4 cfg s \<longleftrightarrow> quad_text 4 (span_text cfg s)"
    using ipv4_loop_iff[OF assms, of 3 0 0] by (simp add: is_valid_ipv4_def numeral_eq_Suc)
  also have "\<dots> \<longleftrightarrow> (\<exists>a. span_text cfg s = ntop4 a)"
  proof
    assume "quad_text 4 (span_text cfg s)"
    then obtain ns where ns: "length ns = 4" "list_all (\<lambda>n. n < 256) ns" "span_text cfg s = join_with (CHR ''.'') (map dec ns)"
      unfolding quad_text_def by blast
    have "unplaces 256 ns < 2 ^ 32" using unplaces_less[OF ns(2)] ns(1) by simp
    then have "unat (of_nat (unplaces 256 ns) :: u32) = unplaces 256 ns" by (simp add: unat_of_nat)
    then have "ntop4 (of_nat (unplaces 256 ns)) = span_text cfg s"
      using places_unplaces[OF ns(2)] ns(1,3) by (simp add: ntop4_def groups_ntop_def)
    then show "\<exists>a. span_text cfg s = ntop4 a" by metis
  next
    assume "\<exists>a. span_text cfg s = ntop4 a"
    then obtain a where "span_text cfg s = ntop4 a" by blast
    then show "quad_text 4 (span_text cfg s)" unfolding quad_text_def
      using places_less[of 256 _ 4 "unat a"] by (intro exI[of _ "places 256 4 (unat a)"]) (auto simp: list_all_iff ntop4_def groups_ntop_def)
  qed
  finally show ?thesis .
qed


section \<open>IPv6\<close>

lemma ipv6_group_run:
  assumes "\<forall>i \<in> {j..<j + m}. pos + i < sp_len s \<and> is_hexadecimal (rd cfg s (pos + i))" "m \<le> k"
    and "pos + (j + m) < sp_len s \<Longrightarrow> \<not> is_hexadecimal (rd cfg s (pos + (j + m)))"
  shows "ipv6_group cfg s pos k j = j + m"
  using assms
proof (induction k arbitrary: j m)
  case (Suc k)
  show ?case
  proof (cases m)
    case 0
    then show ?thesis using Suc.prems(3) by auto
  next
    case (Suc m')
    have "ipv6_group cfg s pos k (j + 1) = j + 1 + m'"
      using Suc.prems Suc by (intro Suc.IH) simp_all
    moreover have "pos + j < sp_len s \<and> is_hexadecimal (rd cfg s (pos + j))" using Suc.prems(1) Suc by simp
    ultimately show ?thesis using Suc by simp
  qed
qed simp

lemma hex_group: "c \<in> set (numstr 16 n) \<Longrightarrow> is_hexadecimal c"
  using numstr_digit_val[of 16 c n] by (simp add: is_hexadecimal_digit)

lemma hex_length_4: "n < 65536 \<Longrightarrow> length (numstr 16 n) \<le> 4"
proof -
  assume "n < 65536"
  then have "n div 16 div 16 div 16 < 16" by simp
  then have "length (numstr 16 (n div 16 div 16 div 16)) = 1" by (subst numstr.simps) simp
  then have "length (numstr 16 (n div 16 div 16)) \<le> 2" by (subst numstr.simps) simp
  then have "length (numstr 16 (n div 16)) \<le> 3" by (subst numstr.simps) simp
  then show ?thesis by (subst numstr.simps) simp
qed

lemma colon_hex: "\<not> is_hexadecimal (CHR '':'')"
  by (simp add: is_hexadecimal_iff)

lemma ipv6_group_text:
  assumes "in_text cfg s" "pos \<le> sp_len s" "drop pos (span_text cfg s) = numstr 16 n @ x" "x = [] \<or> \<not> is_hexadecimal (hd x)" "n < 65536"
  shows "ipv6_group cfg s pos 4 0 = length (numstr 16 n)" "pos < sp_len s" "is_hexadecimal (rd cfg s pos)"
    "pos + length (numstr 16 n) + length x = sp_len s"
proof -
  let ?g = "numstr 16 n"
  have len: "sp_len s - pos = length ?g + length x" using assms(1,3) by (metis length_append length_drop length_span_text)
  moreover have "0 < length ?g" by simp
  ultimately show l: "pos + length ?g + length x = sp_len s" and p: "pos < sp_len s" using assms(2) by linarith+
  have rd: "rd cfg s (pos + i) = (?g @ x) ! i" if "pos + i < sp_len s" for i
    using that assms(1) unfolding assms(3)[symmetric] by (simp add: rd_text)
  have h: "is_hexadecimal (rd cfg s (pos + i))" if "i < length ?g" for i
    using that l rd[of i] hex_group[of "?g ! i" n] by (simp add: nth_append)
  show "is_hexadecimal (rd cfg s pos)" using h[of 0] by simp
  have "ipv6_group cfg s pos 4 0 = 0 + length ?g"
  proof (rule ipv6_group_run)
    show "\<forall>i\<in>{0..<0 + length ?g}. pos + i < sp_len s \<and> is_hexadecimal (rd cfg s (pos + i))" using l h by auto
    show "length ?g \<le> 4" by (rule hex_length_4[OF assms(5)])
    assume "pos + (0 + length ?g) < sp_len s"
    then show "\<not> is_hexadecimal (rd cfg s (pos + (0 + length ?g)))"
      using rd[of "length ?g"] assms(4) l by (cases x) auto
  qed
  then show "ipv6_group cfg s pos 4 0 = length ?g" by simp
qed

lemma ipv6_loop_full:
  assumes "in_text cfg s"
  shows "pos \<le> sp_len s \<Longrightarrow> i + length ns = 8 \<Longrightarrow> ns \<noteq> [] \<Longrightarrow> list_all (\<lambda>n. n < 65536) ns \<Longrightarrow>
    drop pos (span_text cfg s) = join_with (CHR '':'') (map (numstr 16) ns) \<Longrightarrow> ipv6_loop cfg s i pos False"
proof (induction ns arbitrary: i pos)
  case (Cons n ns)
  define x where "x = (if ns = [] then [] else CHR '':'' # join_with (CHR '':'') (map (numstr 16) ns))"
  have t: "drop pos (span_text cfg s) = numstr 16 n @ x" using Cons.prems(5) by (cases ns) (auto simp: x_def)
  have "x = [] \<or> \<not> is_hexadecimal (hd x)" using colon_hex by (simp add: x_def)
  from ipv6_group_text[OF assms Cons.prems(1) t this] Cons.prems(4)
  have g: "ipv6_group cfg s pos 4 0 = length (numstr 16 n)" "pos < sp_len s" "is_hexadecimal (rd cfg s pos)"
    "pos + length (numstr 16 n) + length x = sp_len s" by simp_all
  have c: "rd cfg s pos \<noteq> CHR '':''" using g(3) colon_hex by metis
  show ?case
  proof (cases "ns = []")
    case True
    then have "i = 7" "x = []" using Cons.prems(2) by (simp_all add: x_def)
    then show ?thesis using g c by (subst ipv6_loop.simps) simp
  next
    case False
    then have x: "x = CHR '':'' # join_with (CHR '':'') (map (numstr 16) ns)" by (simp add: x_def)
    let ?q = "pos + length (numstr 16 n)"
    have q: "?q < sp_len s" using g(4) x by simp
    then have "rd cfg s ?q = drop pos (span_text cfg s) ! length (numstr 16 n)" using assms by (simp add: rd_text)
    then have r: "rd cfg s ?q = CHR '':''" unfolding t x by simp
    have "drop (?q + 1) (span_text cfg s) = drop (length (numstr 16 n) + 1) (drop pos (span_text cfg s))"
      by (simp add: add.commute)
    then have d: "drop (?q + 1) (span_text cfg s) = join_with (CHR '':'') (map (numstr 16) ns)" unfolding t x by simp
    have "ipv6_loop cfg s (i + 1) (?q + 1) False" using q Cons.prems False d by (intro Cons.IH) simp_all
    moreover have "i \<noteq> 7" using Cons.prems(2) False by (cases ns) auto
    ultimately show ?thesis using g c r q by (subst ipv6_loop.simps) simp
  qed
qed simp

lemma join_with_last: "ts \<noteq> [] \<Longrightarrow> last ts \<noteq> [] \<Longrightarrow> last (join_with d ts) = last (last ts)"
proof (induction d ts rule: join_with.induct)
  case (3 d t u us)
  moreover have "join_with d (u # us) \<noteq> []" using 3 by (cases us) auto
  ultimately show ?case by simp
qed simp_all

lemma is_valid_ipv6_full:
  assumes "in_text cfg s" "span_text cfg s = ntop6 a"
  shows "is_valid_ipv6 cfg s"
proof -
  let ?ns = "places 65536 8 (unat a)"
  have t: "span_text cfg s = join_with (CHR '':'') (map (numstr 16) ?ns)" using assms(2) by (simp add: ntop6_def groups_ntop_def)
  have ne: "?ns \<noteq> []" using length_places[of 65536 8 "unat a"] by (metis list.size(3) zero_neq_numeral)
  have lt: "list_all (\<lambda>n. n < 65536) ?ns" using places_less[of 65536 _ 8 "unat a"] by (simp add: list_all_iff)
  have loop: "ipv6_loop cfg s 0 0 False" using ipv6_loop_full[OF assms(1), of 0 0 ?ns] ne lt t by simp
  have "hd (span_text cfg s) = hd (numstr 16 (hd ?ns))" "span_text cfg s \<noteq> []"
    using hd_join_with[of "map (numstr 16) ?ns" "CHR '':''"] ne unfolding t by (simp_all add: hd_map)
  moreover have "last (span_text cfg s) = last (numstr 16 (last ?ns))"
    using join_with_last[of "map (numstr 16) ?ns" "CHR '':''"] ne unfolding t by (simp add: last_map)
  ultimately have h: "is_hexadecimal (hd (span_text cfg s))" "is_hexadecimal (last (span_text cfg s))" "span_text cfg s \<noteq> []"
    using hex_group[OF hd_in_set] hex_group[OF last_in_set] by simp_all
  have "CHR '':'' \<in> set (span_text cfg s)" using assms(2) ntop6_text(3) by simp
  then have l: "2 \<le> sp_len s"
    using h colon_hex length_span_text[OF assms(1)] by (cases "span_text cfg s"; cases "tl (span_text cfg s)") auto
  have "rd cfg s 0 = hd (span_text cfg s)" "rd cfg s (sp_len s - 1) = last (span_text cfg s)"
    using assms(1) l h(3) by (simp_all add: rd_text hd_conv_nth last_conv_nth)
  then have "rd cfg s 0 \<noteq> CHR '':''" "rd cfg s (sp_len s - 1) \<noteq> CHR '':''" using h colon_hex by metis+
  then show ?thesis using l loop by (simp add: is_valid_ipv6_def)
qed

section \<open>Host names and field names\<close>

lemma hostname_loop_iff:
  "hostname_loop cfg s is nd ne \<longleftrightarrow>
     list_all (\<lambda>i. is_decimal (rd cfg s i) \<or> is_alphabet (rd cfg s i) \<or> rd cfg s i = CHR ''-'' \<or> rd cfg s i = CHR ''.'') is \<and>
     nd + length (filter (\<lambda>i. is_decimal (rd cfg s i)) is) \<noteq> ne - length (filter (\<lambda>i. rd cfg s i = CHR ''.'') is)"
proof (induction "is" arbitrary: nd ne)
  case (Cons i "is")
  have "\<not> is_decimal (CHR ''.'')" by (simp add: is_decimal_def)
  then show ?case using Cons.IH by auto
qed simp

lemma length_filter_two:
  "\<forall>c \<in> set t. \<not> (P c \<and> Q c) \<Longrightarrow> length (filter P t) + length (filter Q t) = length t \<longleftrightarrow> (\<forall>c \<in> set t. P c \<or> Q c)"
proof (induction t)
  case (Cons c t)
  have "length (filter P t) + length (filter Q t) \<le> length t"
    using Cons.prems by (induction t) auto
  then show ?case using Cons by auto
qed simp

definition host_char :: "char \<Rightarrow> bool" where
  "host_char c \<longleftrightarrow> is_digit c \<or> is_alphabet c \<or> c = CHR ''-'' \<or> c = CHR ''.''"

lemma is_valid_hostname_eq:
  assumes "in_text cfg s"
  defines "t \<equiv> span_text cfg s"
  shows "is_valid_hostname cfg s \<longleftrightarrow> t \<noteq> [] \<and> length t \<le> 63 \<and> {hd t, last t} \<inter> {CHR ''-'', CHR ''.''} = {} \<and>
    (\<forall>c \<in> set t. host_char c) \<and> (\<exists>c \<in> set t. \<not> is_digit c \<and> c \<noteq> CHR ''.'')"
proof (cases "t = []")
  case True
  then show ?thesis using length_span_text[OF assms(1)] unfolding t_def is_valid_hostname_def by auto
next
  case False
  have len: "length t = sp_len s" using assms(1) by (simp add: t_def)
  then have n: "sp_len s \<noteq> 0" using False by (metis length_0_conv)
  have e: "rd cfg s 0 = hd t" "rd cfg s (sp_len s - 1) = last t"
    using assms(1) n False len by (simp_all add: t_def rd_text hd_conv_nth last_conv_nth)
  have f: "length (filter (\<lambda>i. P (rd cfg s i)) [0..<sp_len s]) = length (filter P t)" for P
    unfolding t_def map_rd_all[OF assms(1), symmetric] by (simp add: filter_map comp_def)
  have two: "length (filter (\<lambda>c. is_digit c) t) + length (filter (\<lambda>c. c = CHR ''.'') t) = length t \<longleftrightarrow> (\<forall>c \<in> set t. is_digit c \<or> c = CHR ''.'')"
    by (rule length_filter_two) auto
  have loop: "hostname_loop cfg s [0..<sp_len s] 0 (sp_len s) \<longleftrightarrow> (\<forall>c \<in> set t. host_char c) \<and>
      length (filter (\<lambda>c. is_digit c) t) + length (filter (\<lambda>c. c = CHR ''.'') t) \<noteq> length t"
  proof -
    have "length (filter (\<lambda>c. c = CHR ''.'') t) \<le> sp_len s" unfolding len[symmetric] by simp
    then have "length (filter (\<lambda>c. is_digit c) t) \<noteq> sp_len s - length (filter (\<lambda>c. c = CHR ''.'') t) \<longleftrightarrow>
        length (filter (\<lambda>c. is_digit c) t) + length (filter (\<lambda>c. c = CHR ''.'') t) \<noteq> sp_len s" by linarith
    moreover have "list_all (\<lambda>i. is_decimal (rd cfg s i) \<or> is_alphabet (rd cfg s i) \<or> rd cfg s i = CHR ''-'' \<or> rd cfg s i = CHR ''.'') [0..<sp_len s]
        \<longleftrightarrow> (\<forall>c \<in> set t. host_char c)"
      using list_all_rd[OF assms(1), of host_char] by (simp add: host_char_def is_decimal_digit t_def list_all_iff)
    moreover have "filter is_decimal t = filter (\<lambda>c. is_digit c) t" by (rule filter_cong) (simp_all add: is_decimal_digit)
    ultimately show ?thesis
      unfolding hostname_loop_iff f[of is_decimal] f[of "\<lambda>c. c = CHR ''.''"] len by (simp add: is_decimal_digit)
  qed
  show ?thesis unfolding is_valid_hostname_def e loop two using n len False by auto
qed

lemma and_95:
  assumes "97 \<le> n" "n < 97 + 26"
  shows "n AND 95 = n - (32::nat)"
proof -
  have "\<forall>n \<in> set [97..<123]. n AND 95 = n - (32::nat)" by code_simp
  moreover have "n \<in> set [97..<123]" unfolding set_upt using assms by simp
  ultimately show ?thesis by (rule bspec)
qed

lemma code_caseless: "code (caseless c) = (if 97 \<le> code c \<and> code c < 97 + 26 then code c - 32 else code c)"
  by (auto simp: caseless_def and_95 of_char_of)

lemma code_tolower: "code (tolower c) = (if 65 \<le> code c \<and> code c \<le> 90 then code c + 32 else code c)"
  by (auto simp: tolower_def of_char_of)

lemma char_code_eq: "c = d \<longleftrightarrow> code c = code d"
  by (metis char_of_char)

lemma caseless_tolower: "caseless c = caseless d \<longleftrightarrow> tolower c = tolower d"
proof -
  have "(if 97 \<le> m \<and> m < 97 + 26 then m - 32 else m) = (if 97 \<le> n \<and> n < 97 + 26 then n - 32 else n) \<longleftrightarrow>
      (if 65 \<le> m \<and> m \<le> 90 then m + 32 else m) = (if 65 \<le> n \<and> n \<le> 90 then n + 32 else n)" for m n :: nat
    by auto
  then show ?thesis unfolding char_code_eq[of "caseless c"] char_code_eq[of "tolower c"] code_caseless code_tolower .
qed

lemma is_caseless_same_iff:
  assumes "in_text cfg s"
  shows "is_caseless_same cfg s c \<longleftrightarrow> strcaseeq (span_text cfg s) c"
proof (cases "length c = sp_len s")
  case True
  have "list_all (\<lambda>i. caseless (c ! i) = caseless (rd cfg s i)) [0..<length c] \<longleftrightarrow> (\<forall>i < length c. tolower (span_text cfg s ! i) = tolower (c ! i))"
    using True rd_text[OF assms] by (auto simp: list_all_iff caseless_tolower)
  then show ?thesis
    unfolding is_caseless_same_def strcaseeq_def list_eq_iff_nth_eq using True length_span_text[OF assms] by auto
next
  case False
  then have "length (map tolower (span_text cfg s)) \<noteq> length (map tolower c)" using length_span_text[OF assms] by simp
  then have "map tolower (span_text cfg s) \<noteq> map tolower c" by metis
  then show ?thesis using False by (simp add: is_caseless_same_def strcaseeq_def)
qed

lemma is_same_iff: "in_text cfg s \<Longrightarrow> is_same cfg s c \<longleftrightarrow> span_text cfg s = c"
  unfolding is_same_def list_eq_iff_nth_eq using length_span_text[of cfg s] rd_text[of cfg s] by (auto simp: list_all_iff)


section \<open>Properties\<close>

text \<open>C28. The highlighter accepts a key exactly when the key decoder of \<^verbatim>\<open>wg\<close> accepts it, whether \<^verbatim>\<open>char\<close>
  is signed or not.\<close>

theorem highlight_key_agrees:
  assumes "in_text cfg s" "length k0 = WG_KEY_LEN"
  shows "is_valid_key cfg s \<longleftrightarrow> fst (key_from_base64 sg k0 (span_text cfg s))"
  by (rule is_valid_key_iff[OF assms])

theorem highlight_key_agrees_witness:
  "is_valid_key (key_to_base64 (replicate 32 7)) (span 0 44)"
proof -
  let ?k = "key_to_base64 (replicate 32 7)"
  have l: "length ?k = 44" by (simp add: length_key_to_base64)
  have "span_text ?k (span 0 44) = ?k" using l by (simp add: span_text_def)
  moreover have "fst (key_from_base64 True zero_key ?k)" by (simp add: key_from_to_base64)
  ultimately show ?thesis
    using highlight_key_agrees[of ?k "span 0 44" zero_key True] l by (simp add: in_text_def)
qed

text \<open>C29. The highlighter takes a text for an IPv4 address exactly when it is the dotted quad of an
  address: four numbers below 256 without leading zeros, separated by dots, and nothing else.\<close>

theorem highlight_ipv4_exact:
  assumes "in_text cfg s"
  shows "is_valid_ipv4 cfg s \<longleftrightarrow> (\<exists>a. span_text cfg s = ntop4 a)"
  by (rule is_valid_ipv4_iff[OF assms])

theorem highlight_ipv4_exact_witness:
  "\<exists>a. ''192.168.0.1'' = ntop4 a"
  using highlight_ipv4_exact[of "''192.168.0.1/24''" "span 0 11"]
  by (simp add: in_text_def span_text_def is_valid_ipv4_def numeral_eq_Suc rd_def char_at_def is_decimal_def)

text \<open>The highlighter takes every IPv6 address written in full, with its eight hexadecimal groups, for
  an IPv6 address.\<close>

theorem highlight_ipv6_full:
  assumes "in_text cfg s" "span_text cfg s = ntop6 a"
  shows "is_valid_ipv6 cfg s"
  by (rule is_valid_ipv6_full[OF assms])

theorem highlight_ipv6_full_witness: "is_valid_ipv6 (ntop6 7) (span 0 (length (ntop6 7)))"
  by (rule highlight_ipv6_full[where a = 7]) (simp_all add: in_text_def span_text_def)

text \<open>C30. The highlighter takes a text for a host name exactly when it has 1 to 63 characters, all letters,
  digits, hyphens or dots, neither begins nor ends with a hyphen or a dot, and is not made of
  digits and dots alone. In particular two dots in a row are accepted: the test for them in the loop
  comes after the branch that has dealt with every dot.\<close>

theorem highlight_hostname_exact:
  assumes "in_text cfg s" "t = span_text cfg s"
  shows "is_valid_hostname cfg s \<longleftrightarrow> t \<noteq> [] \<and> length t \<le> 63 \<and> {hd t, last t} \<inter> {CHR ''-'', CHR ''.''} = {} \<and>
    (\<forall>c \<in> set t. host_char c) \<and> (\<exists>c \<in> set t. \<not> is_digit c \<and> c \<noteq> CHR ''.'')"
  unfolding assms(2) by (rule is_valid_hostname_eq[OF assms(1)])

theorem highlight_hostname_exact_witness: "is_valid_hostname ''a..b'' (span 0 4)"
proof -
  have "\<forall>c \<in> set ''a..b''. host_char c" by (simp add: host_char_def is_alphabet_iff)
  then show ?thesis
    using highlight_hostname_exact[of "''a..b''" "span 0 4" "''a..b''"] by (simp add: in_text_def span_text_def)
qed

end
