(* ===== verification/Highlighter.thy ===== *)
theory Highlighter
  imports Highlight_Ip
begin

text \<open>
  The state machine of \<^verbatim>\<open>contrib/highlighter/highlighter.c\<close>, built without \<^verbatim>\<open>MOBILE_WGQUICK_SUBSET\<close>: the
  growing array of spans (\<^verbatim>\<open>realloc_array\<close>, \<^verbatim>\<open>append_highlight_span\<close>), \<^verbatim>\<open>highlight_value\<close>,
  \<^verbatim>\<open>highlight_multivalue\<close> and \<^verbatim>\<open>highlight_config\<close>. An access outside the array is the error
  \<open>OutOfBounds\<close>. \<^verbatim>\<open>realloc\<close> is a parameter: whether it grants a number of bytes.
\<close>

section \<open>Model\<close>

datatype field = InterfaceSection | PrivateKey | ListenPort | Address | DNS | MTU | FwMark | Table
  | PreUp | PostUp | PreDown | PostDown | SaveConfig
  | PeerSection | PublicKey | PresharedKey | AllowedIPs | Endpoint | PersistentKeepalive | Invalid

definition field_order :: "field list" where
  "field_order = [InterfaceSection, PrivateKey, ListenPort, Address, DNS, MTU, FwMark, Table, PreUp, PostUp, PreDown,
     PostDown, SaveConfig, PeerSection, PublicKey, PresharedKey, AllowedIPs, Endpoint, PersistentKeepalive, Invalid]"

text \<open>The number of an enumerator.\<close>

definition field_num :: "field \<Rightarrow> nat" where
  "field_num t = length (takeWhile (\<lambda>u. u \<noteq> t) field_order)"

definition section_for_field :: "field \<Rightarrow> field" where
  "section_for_field t =
     (if field_num t > field_num InterfaceSection \<and> field_num t < field_num PeerSection then InterfaceSection
      else if field_num t > field_num PeerSection \<and> field_num t < field_num Invalid then PeerSection
      else Invalid)"

fun check_enums :: "string \<Rightarrow> string_span \<Rightarrow> (string \<times> field) list \<Rightarrow> field" where
  "check_enums cfg s [] = Invalid"
| "check_enums cfg s ((n, t) # ts) = (if is_caseless_same cfg s n then t else check_enums cfg s ts)"

definition get_field :: "string \<Rightarrow> string_span \<Rightarrow> field" where
  "get_field cfg s = check_enums cfg s
     [(''PrivateKey'', PrivateKey), (''ListenPort'', ListenPort), (''Address'', Address), (''DNS'', DNS), (''MTU'', MTU),
      (''PublicKey'', PublicKey), (''PresharedKey'', PresharedKey), (''AllowedIPs'', AllowedIPs), (''Endpoint'', Endpoint),
      (''PersistentKeepalive'', PersistentKeepalive), (''FwMark'', FwMark), (''Table'', Table), (''PreUp'', PreUp),
      (''PostUp'', PostUp), (''PreDown'', PreDown), (''PostDown'', PostDown), (''SaveConfig'', SaveConfig)]"

definition get_sectiontype :: "string \<Rightarrow> string_span \<Rightarrow> field" where
  "get_sectiontype cfg s =
     (if is_caseless_same cfg s ''[Peer]'' then PeerSection
      else if is_caseless_same cfg s ''[Interface]'' then InterfaceSection
      else Invalid)"

datatype highlight_type = HighlightSection | HighlightField | HighlightPrivateKey | HighlightPublicKey
  | HighlightPresharedKey | HighlightIP | HighlightCidr | HighlightHost | HighlightPort | HighlightMTU
  | HighlightKeepalive | HighlightComment | HighlightDelimiter | HighlightTable | HighlightFwMark
  | HighlightSaveConfig | HighlightCmd | HighlightError | HighlightEnd

record highlight_span =
  h_type :: highlight_type
  h_start :: nat
  h_len :: nat

text \<open>\<^verbatim>\<open>len\<close> is the length of the list; \<^verbatim>\<open>spans\<close> is the null pointer while the capacity is 0.\<close>

record highlight_span_array =
  a_capacity :: nat
  a_spans :: "highlight_span list"

record hmem =
  size_bits :: nat
  span_size :: nat
  realloc :: "nat \<Rightarrow> bool"

datatype hl_error = OutOfBounds

definition realloc_array :: "hmem \<Rightarrow> nat \<Rightarrow> nat \<Rightarrow> bool" where
  "realloc_array mem nmemb sz =
     (if (nmemb \<ge> 2 ^ (size_bits mem div 2) \<or> sz \<ge> 2 ^ (size_bits mem div 2)) \<and> nmemb > 0 \<and>
         (2 ^ size_bits mem - 1) div nmemb < sz
      then False
      else realloc mem (sz * nmemb mod 2 ^ size_bits mem))"

definition append_highlight_span ::
  "hmem \<Rightarrow> highlight_span_array \<Rightarrow> string_span \<Rightarrow> highlight_type \<Rightarrow> hl_error + (bool \<times> highlight_span_array)" where
  "append_highlight_span mem a s t =
     (if sp_len s = 0 then Inr (True, a)
      else
        let cap = (if length (a_spans a) \<ge> a_capacity a
                   then (if a_capacity a \<noteq> 0 then a_capacity a * 2 mod 2 ^ size_bits mem else 64) else a_capacity a)
        in if length (a_spans a) \<ge> a_capacity a \<and> \<not> realloc_array mem cap (span_size mem)
           then Inr (False, \<lparr> a_capacity = 0, a_spans = [] \<rparr>)
           else if length (a_spans a) \<ge> cap then Inl OutOfBounds
           else Inr (True, \<lparr> a_capacity = cap,
                     a_spans = a_spans a @ [\<lparr> h_type = t, h_start = sp_s s, h_len = sp_len s \<rparr>] \<rparr>))"

text \<open>A call whose result is not looked at, as all calls in the code.\<close>

definition put :: "hmem \<Rightarrow> string_span \<Rightarrow> highlight_type \<Rightarrow> hl_error + highlight_span_array \<Rightarrow> hl_error + highlight_span_array" where
  "put mem s t r = (case r of Inl e \<Rightarrow> Inl e | Inr a \<Rightarrow>
     (case append_highlight_span mem a s t of Inl e \<Rightarrow> Inl e | Inr (_, a') \<Rightarrow> Inr a'))"

fun find_slash :: "string \<Rightarrow> string_span \<Rightarrow> nat list \<Rightarrow> nat" where
  "find_slash cfg s [] = sp_len s"
| "find_slash cfg s (i # is) = (if rd cfg s i = CHR ''/'' then i else find_slash cfg s is)"

definition highlight_multivalue_value ::
  "hmem \<Rightarrow> string \<Rightarrow> string_span \<Rightarrow> field \<Rightarrow> hl_error + highlight_span_array \<Rightarrow> hl_error + highlight_span_array" where
  "highlight_multivalue_value mem cfg s section ret =
     (if section = DNS then
        if is_valid_ipv4 cfg s \<or> is_valid_ipv6 cfg s then put mem s HighlightIP ret
        else if is_valid_hostname cfg s then put mem s HighlightHost ret
        else put mem s HighlightError ret
      else if section = Address \<or> section = AllowedIPs then
        if \<not> is_valid_network cfg s then put mem s HighlightError ret
        else let slash = find_slash cfg s [0..<sp_len s]
          in if slash = sp_len s then put mem s HighlightIP ret
             else put mem (span (sp_s s + slash + 1) (sp_len s - slash - 1)) HighlightCidr
                 (put mem (span (sp_s s + slash) 1) HighlightDelimiter
                   (put mem (span (sp_s s) slash) HighlightIP ret))
      else put mem s HighlightError ret)"

text \<open>The loop of \<^verbatim>\<open>highlight_multivalue\<close> over the indices that are left, and the code behind it.\<close>

fun multivalue_loop ::
  "hmem \<Rightarrow> string \<Rightarrow> string_span \<Rightarrow> field \<Rightarrow> nat list \<Rightarrow> string_span \<Rightarrow> nat \<Rightarrow> hl_error + highlight_span_array \<Rightarrow>
     hl_error + highlight_span_array" where
  "multivalue_loop mem cfg s section [] current_span len_at_last_space ret =
     (if len_at_last_space \<noteq> 0
      then highlight_multivalue_value mem cfg (current_span\<lparr> sp_len := len_at_last_space \<rparr>) section ret
      else (case ret of Inl e \<Rightarrow> Inl e | Inr a \<Rightarrow>
        if a_spans a = [] then Inl OutOfBounds
        else if h_type (last (a_spans a)) = HighlightDelimiter
        then Inr (a\<lparr> a_spans := butlast (a_spans a) @ [(last (a_spans a))\<lparr> h_type := HighlightError \<rparr>] \<rparr>)
        else Inr a))"
| "multivalue_loop mem cfg s section (i # is) current_span len_at_last_space ret =
     (if rd cfg s i = CHR '','' then
        multivalue_loop mem cfg s section is (span (sp_s s + i + 1) 0) 0
          (put mem (span (sp_s s + i) 1) HighlightDelimiter
            (highlight_multivalue_value mem cfg (current_span\<lparr> sp_len := len_at_last_space \<rparr>) section ret))
      else if rd cfg s i = CHR '' '' \<or> rd cfg s i = CHR 0x09 then
        multivalue_loop mem cfg s section is
          (if sp_s s + i = sp_s current_span \<and> sp_len current_span = 0
           then current_span\<lparr> sp_s := sp_s current_span + 1 \<rparr>
           else current_span\<lparr> sp_len := sp_len current_span + 1 \<rparr>) len_at_last_space ret
      else
        multivalue_loop mem cfg s section is (current_span\<lparr> sp_len := sp_len current_span + 1 \<rparr>)
          (sp_len current_span + 1) ret)"

definition highlight_multivalue ::
  "hmem \<Rightarrow> string \<Rightarrow> string_span \<Rightarrow> field \<Rightarrow> hl_error + highlight_span_array \<Rightarrow> hl_error + highlight_span_array" where
  "highlight_multivalue mem cfg s section ret =
     multivalue_loop mem cfg s section [0..<sp_len s] (span (sp_s s) 0) 0 ret"

text \<open>The last colon, or -1 as a \<^verbatim>\<open>size_t\<close>.\<close>

fun find_colon :: "string \<Rightarrow> string_span \<Rightarrow> nat \<Rightarrow> nat option" where
  "find_colon cfg s 0 = None"
| "find_colon cfg s (Suc n) = (if rd cfg s n = CHR '':'' then Some n else find_colon cfg s n)"

definition highlight_value ::
  "hmem \<Rightarrow> string \<Rightarrow> string_span \<Rightarrow> field \<Rightarrow> hl_error + highlight_span_array \<Rightarrow> hl_error + highlight_span_array" where
  "highlight_value mem cfg s section ret =
     (case section of
        PrivateKey \<Rightarrow> put mem s (if is_valid_key cfg s then HighlightPrivateKey else HighlightError) ret
      | PublicKey \<Rightarrow> put mem s (if is_valid_key cfg s then HighlightPublicKey else HighlightError) ret
      | PresharedKey \<Rightarrow> put mem s (if is_valid_key cfg s then HighlightPresharedKey else HighlightError) ret
      | MTU \<Rightarrow> put mem s (if is_valid_mtu cfg s then HighlightMTU else HighlightError) ret
      | SaveConfig \<Rightarrow> put mem s (if is_valid_saveconfig cfg s then HighlightSaveConfig else HighlightError) ret
      | FwMark \<Rightarrow> put mem s (if is_valid_fwmark cfg s then HighlightFwMark else HighlightError) ret
      | Table \<Rightarrow> put mem s (if is_valid_table cfg s then HighlightTable else HighlightError) ret
      | PreUp \<Rightarrow> put mem s (if is_valid_prepostupdown cfg s then HighlightCmd else HighlightError) ret
      | PostUp \<Rightarrow> put mem s (if is_valid_prepostupdown cfg s then HighlightCmd else HighlightError) ret
      | PreDown \<Rightarrow> put mem s (if is_valid_prepostupdown cfg s then HighlightCmd else HighlightError) ret
      | PostDown \<Rightarrow> put mem s (if is_valid_prepostupdown cfg s then HighlightCmd else HighlightError) ret
      | ListenPort \<Rightarrow> put mem s (if is_valid_port cfg s then HighlightPort else HighlightError) ret
      | PersistentKeepalive \<Rightarrow> put mem s (if is_valid_persistentkeepalive cfg s then HighlightKeepalive else HighlightError) ret
      | Endpoint \<Rightarrow>
          if \<not> is_valid_endpoint cfg s then put mem s HighlightError ret
          else (case find_colon cfg s (sp_len s) of
             None \<Rightarrow> Inl OutOfBounds
           | Some colon \<Rightarrow>
               put mem (span (sp_s s + colon + 1) (sp_len s - colon - 1)) HighlightPort
                 (put mem (span (sp_s s + colon) 1) HighlightDelimiter
                   (put mem (span (sp_s s) colon) HighlightHost ret)))
      | Address \<Rightarrow> highlight_multivalue mem cfg s section ret
      | DNS \<Rightarrow> highlight_multivalue mem cfg s section ret
      | AllowedIPs \<Rightarrow> highlight_multivalue mem cfg s section ret
      | _ \<Rightarrow> put mem s HighlightError ret)"

datatype hl_on = OnNone | OnKey | OnValue | OnComment | OnSection

record hl_state =
  ret :: "hl_error + highlight_span_array"
  current_span :: string_span
  current_section :: field
  current_field :: field
  hl_on :: hl_on
  len_at_last_space :: nat
  equals_location :: nat

text \<open>The end of a line, of the text, or the begin of a comment.\<close>

definition highlight_flush :: "hmem \<Rightarrow> string \<Rightarrow> hl_state \<Rightarrow> hl_state" where
  "highlight_flush mem cfg st =
     (case hl_on st of
        OnKey \<Rightarrow>
          st\<lparr> current_span := (current_span st)\<lparr> sp_len := len_at_last_space st \<rparr>,
              ret := put mem ((current_span st)\<lparr> sp_len := len_at_last_space st \<rparr>) HighlightError (ret st) \<rparr>
      | OnValue \<Rightarrow>
          if sp_len (current_span st) \<noteq> 0 then
            st\<lparr> current_span := (current_span st)\<lparr> sp_len := len_at_last_space st \<rparr>,
                ret := highlight_value mem cfg ((current_span st)\<lparr> sp_len := len_at_last_space st \<rparr>) (current_field st)
                         (put mem (span (equals_location st) 1) HighlightDelimiter (ret st)) \<rparr>
          else st\<lparr> ret := put mem (span (equals_location st) 1) HighlightError (ret st) \<rparr>
      | OnSection \<Rightarrow>
          (let s = (current_span st)\<lparr> sp_len := len_at_last_space st \<rparr>; section = get_sectiontype cfg s
           in st\<lparr> current_span := s, current_section := section,
                  ret := put mem s (if section = Invalid then HighlightError else HighlightSection) (ret st) \<rparr>)
      | OnComment \<Rightarrow> st\<lparr> ret := put mem (current_span st) HighlightComment (ret st) \<rparr>
      | OnNone \<Rightarrow> st)"

text \<open>A round of the loop at a character of the text.\<close>

definition highlight_step :: "hmem \<Rightarrow> string \<Rightarrow> nat \<Rightarrow> hl_state \<Rightarrow> hl_state" where
  "highlight_step mem cfg i st =
     (let c = cfg ! i
      in if c = newline \<or> (hl_on st \<noteq> OnComment \<and> c = CHR ''#'') then
        (let st' = (highlight_flush mem cfg st)\<lparr> len_at_last_space := 0, current_field := Invalid \<rparr>
         in if c = CHR ''#'' then st'\<lparr> current_span := span i 1, hl_on := OnComment \<rparr>
            else st'\<lparr> current_span := span (i + 1) 0, hl_on := OnNone \<rparr>)
      else if hl_on st = OnComment then
        st\<lparr> current_span := (current_span st)\<lparr> sp_len := sp_len (current_span st) + 1 \<rparr> \<rparr>
      else if c = CHR '' '' \<or> c = CHR 0x09 then
        (if i = sp_s (current_span st) \<and> sp_len (current_span st) = 0
         then st\<lparr> current_span := (current_span st)\<lparr> sp_s := sp_s (current_span st) + 1 \<rparr> \<rparr>
         else st\<lparr> current_span := (current_span st)\<lparr> sp_len := sp_len (current_span st) + 1 \<rparr> \<rparr>)
      else if c = CHR ''='' \<and> hl_on st = OnKey then
        (let s = (current_span st)\<lparr> sp_len := len_at_last_space st \<rparr>;
             field = get_field cfg s;
             section = section_for_field field
         in st\<lparr> current_field := field,
                ret := put mem s (if section = Invalid \<or> field = Invalid \<or> section \<noteq> current_section st
                                  then HighlightError else HighlightField) (ret st),
                equals_location := i, current_span := span (i + 1) 0, hl_on := OnValue \<rparr>)
      else
        st\<lparr> hl_on := (if hl_on st = OnNone then (if c = CHR ''['' then OnSection else OnKey) else hl_on st),
            current_span := (current_span st)\<lparr> sp_len := sp_len (current_span st) + 1 \<rparr>,
            len_at_last_space := sp_len (current_span st) + 1 \<rparr>)"

definition highlight_start :: hl_state where
  "highlight_start = \<lparr> ret = Inr \<lparr> a_capacity = 0, a_spans = [] \<rparr>, current_span = span 0 0, current_section = Invalid,
     current_field = Invalid, hl_on = OnNone, len_at_last_space = 0, equals_location = 0 \<rparr>"

text \<open>The array that is returned, a null pointer if there is none.\<close>

definition highlight_config :: "hmem \<Rightarrow> string \<Rightarrow> hl_error + highlight_span list option" where
  "highlight_config mem config =
     (case put mem (span 0 (2 ^ size_bits mem - 1)) HighlightEnd
             (ret (highlight_flush mem config (fold (highlight_step mem config) [0..<length config] highlight_start))) of
        Inl e \<Rightarrow> Inl e
      | Inr a \<Rightarrow> Inr (if a_capacity a = 0 then None else Some (a_spans a)))"


section \<open>The array\<close>

definition wf_array :: "hmem \<Rightarrow> highlight_span_array \<Rightarrow> bool" where
  "wf_array mem a \<longleftrightarrow> length (a_spans a) \<le> a_capacity a \<and> a_capacity a * span_size mem < 2 ^ size_bits mem"

definition granted :: "hmem \<Rightarrow> nat \<Rightarrow> bool" where
  "granted mem n \<longleftrightarrow> (\<forall>k. 0 < k \<and> k \<le> 2 * n + 64 \<longrightarrow> realloc_array mem k (span_size mem))"

text \<open>A grant never exceeds the address space.\<close>

lemma realloc_array_fits:
  assumes "realloc_array mem k sz" "0 < k"
  shows "k * sz < 2 ^ size_bits mem"
proof (cases "k \<ge> 2 ^ (size_bits mem div 2) \<or> sz \<ge> 2 ^ (size_bits mem div 2)")
  case True
  then have "sz \<le> (2 ^ size_bits mem - 1) div k" using assms by (auto simp: realloc_array_def split: if_splits)
  then have "sz * k \<le> 2 ^ size_bits mem - 1" using assms(2) by (simp add: less_eq_div_iff_mult_less_eq)
  moreover have "0 < (2::nat) ^ size_bits mem" by simp
  ultimately show ?thesis unfolding mult.commute[of k] by linarith
next
  case False
  then have "k * sz < 2 ^ (size_bits mem div 2) * 2 ^ (size_bits mem div 2)" by (intro mult_strict_mono) auto
  also have "\<dots> \<le> 2 ^ size_bits mem" unfolding power_add[symmetric] by (rule power_increasing) auto
  finally show ?thesis .
qed

lemma append_cases:
  assumes "wf_array mem a" "2 \<le> span_size mem"
  shows "\<exists>b a'. append_highlight_span mem a s t = Inr (b, a') \<and> wf_array mem a' \<and>
    (if b then a_spans a' = a_spans a @ (if sp_len s = 0 then [] else [\<lparr> h_type = t, h_start = sp_s s, h_len = sp_len s \<rparr>])
     else a_spans a' = []) \<and>
    (\<forall>n. granted mem n \<and> length (a_spans a) \<le> n \<longrightarrow> b)"
proof (cases "sp_len s = 0")
  case True
  then show ?thesis using assms(1) by (intro exI[of _ True]) (simp add: append_highlight_span_def)
next
  case False
  let ?l = "length (a_spans a)" and ?c = "a_capacity a"
  let ?cap = "if ?l \<ge> ?c then (if ?c \<noteq> 0 then ?c * 2 mod 2 ^ size_bits mem else 64) else ?c"
  have w: "?l \<le> ?c" "?c * span_size mem < 2 ^ size_bits mem" using assms(1) by (simp_all add: wf_array_def)
  have "?c * 2 \<le> ?c * span_size mem" using assms(2) by simp
  then have m: "?c * 2 mod 2 ^ size_bits mem = ?c * 2" using w(2) by (intro mod_less) linarith
  have c: "?l < ?cap" "0 < ?cap" using w(1) unfolding m by (auto split: if_splits)
  show ?thesis
  proof (cases "?l \<ge> ?c \<and> \<not> realloc_array mem ?cap (span_size mem)")
    case True
    have "\<not> granted mem n" if "?l \<le> n" for n
    proof -
      have "?cap \<le> 2 * n + 64" using that True w(1) unfolding m by auto
      then show ?thesis using True c(2) unfolding granted_def by blast
    qed
    then show ?thesis using True False by (intro exI[of _ False]) (auto simp: append_highlight_span_def Let_def wf_array_def)
  next
    case ok: False
    have "?cap * span_size mem < 2 ^ size_bits mem"
      using ok w(2) realloc_array_fits[of mem ?cap "span_size mem"] c(2) by (cases "?l \<ge> ?c") auto
    then show ?thesis
      using ok False c by (intro exI[of _ True]) (simp add: append_highlight_span_def Let_def wf_array_def)
  qed
qed

section \<open>Order and coverage\<close>

definition extent :: "highlight_span \<Rightarrow> nat \<times> nat" where
  "extent x = (h_start x, h_len x)"

definition ordered :: "nat \<Rightarrow> (nat \<times> nat) list \<Rightarrow> bool" where
  "ordered F es \<longleftrightarrow> sorted_wrt (\<lambda>x y. fst x + snd x \<le> fst y) es \<and> (\<forall>x \<in> set es. 0 < snd x \<and> fst x + snd x \<le> F)"

definition covered :: "(nat \<times> nat) list \<Rightarrow> nat set" where
  "covered es = (\<Union>x \<in> set es. {fst x..<fst x + snd x})"

lemma ordered_Nil [simp]: "ordered F []"
  by (simp add: ordered_def)

lemma ordered_mono: "ordered F es \<Longrightarrow> F \<le> G \<Longrightarrow> ordered G es"
  by (auto simp: ordered_def)

lemma ordered_snoc: "ordered F es \<Longrightarrow> F \<le> a \<Longrightarrow> 0 < n \<Longrightarrow> ordered (a + n) (es @ [(a, n)])"
  by (auto simp: ordered_def sorted_wrt_append)

lemma covered_append [simp]: "covered (es @ fs) = covered es \<union> covered fs"
  by (auto simp: covered_def)

lemma ordered_length: "ordered F es \<Longrightarrow> length es \<le> F"
proof (induction es arbitrary: F rule: rev_induct)
  case (snoc e es)
  have "ordered (fst e) es" using snoc.prems by (auto simp: ordered_def sorted_wrt_append)
  then have "length es \<le> fst e" by (rule snoc.IH)
  moreover have "fst e < F" using snoc.prems by (auto simp: ordered_def)
  ultimately show ?case by simp
qed simp

text \<open>The state of the result: in order up to \<^term>\<open>F\<close>, and if memory is granted, no error and the
  positions \<^term>\<open>C\<close> covered.\<close>

definition holds :: "hmem \<Rightarrow> bool \<Rightarrow> nat \<Rightarrow> nat set \<Rightarrow> hl_error + highlight_span_array \<Rightarrow> bool" where
  "holds mem g F C r = (case r of
     Inl _ \<Rightarrow> \<not> g
   | Inr a \<Rightarrow> wf_array mem a \<and> ordered F (map extent (a_spans a)) \<and> (g \<longrightarrow> C \<subseteq> covered (map extent (a_spans a))))"

lemma holds_mono: "holds mem g F C r \<Longrightarrow> F \<le> G \<Longrightarrow> D \<subseteq> C \<Longrightarrow> holds mem g G D r"
  by (auto simp: holds_def split: sum.splits dest: ordered_mono)

text \<open>Memory for spans of at least two bytes; if \<^term>\<open>g\<close>, it is granted for a text of length \<^term>\<open>n\<close>.\<close>

definition fair :: "hmem \<Rightarrow> bool \<Rightarrow> nat \<Rightarrow> bool" where
  "fair mem g n \<longleftrightarrow> 2 \<le> span_size mem \<and> (g \<longrightarrow> granted mem n)"

lemma holds_put:
  assumes "holds mem g F C r" "F \<le> sp_s s" "sp_s s + sp_len s \<le> n" "fair mem g n"
  shows "holds mem g (sp_s s + sp_len s) (C \<union> {sp_s s..<sp_s s + sp_len s}) (put mem s t r)"
proof (cases r)
  case (Inl e)
  then show ?thesis using assms(1) by (simp add: holds_def put_def)
next
  case (Inr a)
  then have a: "wf_array mem a" "ordered F (map extent (a_spans a))" "g \<longrightarrow> C \<subseteq> covered (map extent (a_spans a))"
    using assms(1) by (simp_all add: holds_def)
  let ?new = "if sp_len s = 0 then [] else [\<lparr> h_type = t, h_start = sp_s s, h_len = sp_len s \<rparr>]"
  obtain b a' where p: "append_highlight_span mem a s t = Inr (b, a')" "wf_array mem a'"
    "if b then a_spans a' = a_spans a @ ?new else a_spans a' = []"
    "\<forall>n. granted mem n \<and> length (a_spans a) \<le> n \<longrightarrow> b"
    using append_cases[OF a(1)] assms(4) unfolding fair_def by blast
  have "length (a_spans a) \<le> n" using ordered_length[OF a(2)] assms(2,3) by simp
  then have g: "g \<Longrightarrow> b" using p(4) assms(4) unfolding fair_def by blast
  have new: "covered (map extent ?new) = {sp_s s..<sp_s s + sp_len s}" by (simp add: covered_def extent_def)
  have "ordered (sp_s s + sp_len s) (map extent (a_spans a @ ?new))"
    using ordered_snoc[OF a(2) assms(2), of "sp_len s"] ordered_mono[OF a(2) assms(2)]
    by (cases "sp_len s = 0") (simp_all add: extent_def)
  then have "ordered (sp_s s + sp_len s) (map extent (a_spans a'))" using p(3) by (cases b) simp_all
  moreover have "C \<union> {sp_s s..<sp_s s + sp_len s} \<subseteq> covered (map extent (a_spans a'))" if g
    using g[OF that] a(3) that p(3) new by auto
  ultimately show ?thesis using Inr p(1,2) by (simp add: holds_def put_def)
qed


definition nonblank :: "string \<Rightarrow> nat \<Rightarrow> bool" where
  "nonblank cfg k \<longleftrightarrow> char_at cfg k \<notin> {CHR '' '', CHR 0x09, newline}"

text \<open>Three spans that follow each other.\<close>

lemma holds_put3:
  assumes "holds mem g F C r" "F \<le> sp_s s" "sp_s s + sp_len s \<le> n" "fair mem g n" "i < sp_len s"
  shows "holds mem g (sp_s s + sp_len s) (C \<union> {sp_s s..<sp_s s + sp_len s})
     (put mem (span (sp_s s + i + 1) (sp_len s - i - 1)) t3 (put mem (span (sp_s s + i) 1) t2 (put mem (span (sp_s s) i) t1 r)))"
proof -
  have 1: "holds mem g (sp_s s + i) (C \<union> {sp_s s..<sp_s s + i}) (put mem (span (sp_s s) i) t1 r)"
    using holds_put[OF assms(1), of "span (sp_s s) i" n t1] assms by simp
  have 2: "holds mem g (sp_s s + i + 1) (C \<union> {sp_s s..<sp_s s + i} \<union> {sp_s s + i..<sp_s s + i + 1})
      (put mem (span (sp_s s + i) 1) t2 (put mem (span (sp_s s) i) t1 r))"
    using holds_put[OF 1, of "span (sp_s s + i) 1" n t2] assms by simp
  show ?thesis
    by (rule holds_mono[OF holds_put[OF 2, of "span (sp_s s + i + 1) (sp_len s - i - 1)" n t3]]) (use assms in auto)
qed

lemma find_slash_bound: "\<forall>i \<in> set is. i < sp_len s \<Longrightarrow> find_slash cfg s is \<le> sp_len s"
  by (induction "is") auto

lemma holds_multivalue_value:
  assumes "holds mem g F C r" "F \<le> sp_s s" "sp_s s + sp_len s \<le> n" "fair mem g n"
  shows "holds mem g (sp_s s + sp_len s) (C \<union> {sp_s s..<sp_s s + sp_len s}) (highlight_multivalue_value mem cfg s f r)"
proof -
  have "find_slash cfg s [0..<sp_len s] \<le> sp_len s" by (rule find_slash_bound) simp
  then have "find_slash cfg s [0..<sp_len s] \<noteq> sp_len s \<Longrightarrow> find_slash cfg s [0..<sp_len s] < sp_len s" by simp
  then show ?thesis
    unfolding highlight_multivalue_value_def Let_def using holds_put[OF assms] holds_put3[OF assms] by simp
qed

lemma holds_retype:
  assumes "holds mem g F C (Inr a)" "a_spans a \<noteq> []"
  shows "holds mem g F C (Inr (a\<lparr> a_spans := butlast (a_spans a) @ [(last (a_spans a))\<lparr> h_type := t \<rparr>] \<rparr>))"
proof -
  have "map extent (butlast (a_spans a) @ [(last (a_spans a))\<lparr> h_type := t \<rparr>]) = map extent (butlast (a_spans a) @ [last (a_spans a)])"
    by (simp add: extent_def)
  then have "map extent (butlast (a_spans a) @ [(last (a_spans a))\<lparr> h_type := t \<rparr>]) = map extent (a_spans a)"
    using assms(2) by simp
  moreover have "length (butlast (a_spans a) @ [(last (a_spans a))\<lparr> h_type := t \<rparr>]) = length (a_spans a)"
    using assms(2) by simp
  ultimately show ?thesis using assms(1) unfolding holds_def wf_array_def by simp
qed

lemma holds_multivalue_loop:
  assumes "fair mem g n" "sp_s s + sp_len s \<le> n"
  shows "is = [i..<sp_len s] \<Longrightarrow> i \<le> sp_len s \<Longrightarrow> sp_s cur + sp_len cur = sp_s s + i \<Longrightarrow> las \<le> sp_len cur \<Longrightarrow> F \<le> sp_s cur \<Longrightarrow>
    holds mem g F C r \<Longrightarrow> C \<noteq> {} \<Longrightarrow>
    holds mem g (sp_s s + sp_len s)
      (C \<union> {sp_s cur..<sp_s cur + las} \<union> {k \<in> {sp_s s + i..<sp_s s + sp_len s}. nonblank cfg k})
      (multivalue_loop mem cfg s f is cur las r)"
proof (induction "is" arbitrary: i cur las F C r)
  case Nil
  have i: "i = sp_len s" using Nil.prems(1)[symmetric] Nil.prems(2) by auto
  show ?case
  proof (cases "las = 0")
    case True
    have e: "C \<union> {sp_s cur..<sp_s cur + las} \<union> {k \<in> {sp_s s + i..<sp_s s + sp_len s}. nonblank cfg k} = C" using True i by auto
    have h: "holds mem g (sp_s s + sp_len s) C r" using Nil.prems i by (intro holds_mono[OF Nil.prems(6)]) auto
    show ?thesis
    proof (cases r)
      case (Inl x)
      then show ?thesis using h e by (simp add: True holds_def)
    next
      case (Inr a)
      have "a_spans a = [] \<Longrightarrow> \<not> g" using Nil.prems(6,7) by (auto simp: Inr holds_def covered_def)
      then show ?thesis using h[unfolded Inr] e holds_retype[OF h[unfolded Inr]] True by (auto simp: Inr holds_def[of _ _ _ _ "Inl _"])
    qed
  next
    case False
    let ?s = "cur\<lparr> sp_len := las \<rparr>"
    have "holds mem g (sp_s ?s + sp_len ?s) (C \<union> {sp_s ?s..<sp_s ?s + sp_len ?s}) (highlight_multivalue_value mem cfg ?s f r)"
      using Nil.prems assms i by (intro holds_multivalue_value[of mem g F]) auto
    from holds_mono[OF this, of "sp_s s + sp_len s" "C \<union> {sp_s cur..<sp_s cur + las} \<union> {k \<in> {sp_s s + i..<sp_s s + sp_len s}. nonblank cfg k}"]
    show ?thesis using False Nil.prems(3,4) i by auto
  qed
next
  case (Cons j js)
  have j: "j = i" "js = [i + 1..<sp_len s]" "i < sp_len s" using Cons.prems(1)[symmetric] by (auto simp: upt_eq_Cons_conv)
  have rd: "rd cfg s i = char_at cfg (sp_s s + i)" by (simp add: rd_def)
  show ?case
  proof (cases "rd cfg s i = CHR '',''")
    case True
    let ?s = "cur\<lparr> sp_len := las \<rparr>"
    let ?r = "put mem (span (sp_s s + i) 1) HighlightDelimiter (highlight_multivalue_value mem cfg ?s f r)"
    have "holds mem g (sp_s ?s + sp_len ?s) (C \<union> {sp_s ?s..<sp_s ?s + sp_len ?s}) (highlight_multivalue_value mem cfg ?s f r)"
      using Cons.prems assms j by (intro holds_multivalue_value[of mem g F]) auto
    from holds_put[OF this, of "span (sp_s s + i) 1" n HighlightDelimiter]
    have h: "holds mem g (sp_s s + i + 1) (C \<union> {sp_s cur..<sp_s cur + las} \<union> {sp_s s + i}) ?r"
      using Cons.prems assms j by simp
    have l: "holds mem g (sp_s s + sp_len s)
      (C \<union> {sp_s cur..<sp_s cur + las} \<union> {sp_s s + i} \<union> {} \<union> {k \<in> {sp_s s + (i + 1)..<sp_s s + sp_len s}. nonblank cfg k})
      (multivalue_loop mem cfg s f js (span (sp_s s + i + 1) 0) 0 ?r)"
      using Cons.IH[OF j(2) _ _ _ _ h, of "span (sp_s s + i + 1) 0" 0] j(3) by simp
    have "{k \<in> {sp_s s + i..<sp_s s + sp_len s}. nonblank cfg k} \<subseteq> {sp_s s + i} \<union> {k \<in> {sp_s s + (i + 1)..<sp_s s + sp_len s}. nonblank cfg k}"
      by (auto simp: le_eq_less_or_eq Suc_le_eq)
    then have sub: "C \<union> {sp_s cur..<sp_s cur + las} \<union> {k \<in> {sp_s s + i..<sp_s s + sp_len s}. nonblank cfg k} \<subseteq>
      C \<union> {sp_s cur..<sp_s cur + las} \<union> {sp_s s + i} \<union> {} \<union> {k \<in> {sp_s s + (i + 1)..<sp_s s + sp_len s}. nonblank cfg k}"
      by blast
    have eq: "multivalue_loop mem cfg s f (j # js) cur las r = multivalue_loop mem cfg s f js (span (sp_s s + i + 1) 0) 0 ?r"
      using True j by simp
    show ?thesis unfolding eq by (rule holds_mono[OF l order_refl sub])
  next
    case nc: False
    show ?thesis
    proof (cases "rd cfg s i = CHR '' '' \<or> rd cfg s i = CHR 0x09")
      case True
      then have "\<not> nonblank cfg (sp_s s + i)" by (auto simp: nonblank_def rd)
      then have nb: "{k \<in> {sp_s s + i..<sp_s s + sp_len s}. nonblank cfg k} = {k \<in> {sp_s s + (i + 1)..<sp_s s + sp_len s}. nonblank cfg k}"
        by (auto simp: le_eq_less_or_eq Suc_le_eq)
      define cur' where "cur' = (if sp_s s + i = sp_s cur \<and> sp_len cur = 0 then cur\<lparr> sp_s := sp_s cur + 1 \<rparr> else cur\<lparr> sp_len := sp_len cur + 1 \<rparr>)"
      have c': "sp_s cur' + sp_len cur' = sp_s s + (i + 1)" "las \<le> sp_len cur'" "F \<le> sp_s cur'"
        "{sp_s cur..<sp_s cur + las} = {sp_s cur'..<sp_s cur' + las}"
        using Cons.prems by (auto simp: cur'_def)
      have "multivalue_loop mem cfg s f (j # js) cur las r = multivalue_loop mem cfg s f js cur' las r"
        using True nc j by (simp add: cur'_def)
      then show ?thesis using Cons.IH[OF j(2) _ c'(1-3) Cons.prems(6,7)] j unfolding nb c'(4) by simp
    next
      case False
      let ?c = "cur\<lparr> sp_len := sp_len cur + 1 \<rparr>"
      have l: "holds mem g (sp_s s + sp_len s)
        (C \<union> {sp_s ?c..<sp_s ?c + (sp_len cur + 1)} \<union> {k \<in> {sp_s s + (i + 1)..<sp_s s + sp_len s}. nonblank cfg k})
        (multivalue_loop mem cfg s f js ?c (sp_len cur + 1) r)"
        using Cons.prems j by (intro Cons.IH) auto
      have eq: "multivalue_loop mem cfg s f (j # js) cur las r = multivalue_loop mem cfg s f js ?c (sp_len cur + 1) r"
        using False nc j by simp
      have sub: "C \<union> {sp_s cur..<sp_s cur + las} \<union> {k \<in> {sp_s s + i..<sp_s s + sp_len s}. nonblank cfg k} \<subseteq>
        C \<union> {sp_s ?c..<sp_s ?c + (sp_len cur + 1)} \<union> {k \<in> {sp_s s + (i + 1)..<sp_s s + sp_len s}. nonblank cfg k}"
        using Cons.prems(3,4) by (auto simp: le_eq_less_or_eq Suc_le_eq)
      show ?thesis unfolding eq by (rule holds_mono[OF l order_refl sub])
    qed
  qed
qed


section \<open>Values and the whole text\<close>

lemma endpoint6_loop_colon:
  "endpoint6_loop cfg s is seen h \<Longrightarrow> \<forall>i \<in> set is. i < sp_len s \<Longrightarrow> \<exists>k < sp_len s. rd cfg s k = CHR '':''"
proof (induction cfg s "is" seen h rule: endpoint6_loop.induct)
  case (2 cfg s i "is" seen h)
  show ?case
  proof (cases "rd cfg s i = CHR '']'' \<and> rd cfg s i \<noteq> CHR ''%''")
    case True
    then have "i \<noteq> sp_len s - 1" "rd cfg s (i + 1) = CHR '':''" using "2.prems"(1) by (auto split: if_splits)
    moreover have "i < sp_len s" using "2.prems"(2) by simp
    ultimately show ?thesis by (intro exI[of _ "i + 1"]) auto
  next
    case False
    then show ?thesis using 2 by (auto split: if_splits)
  qed
qed simp

lemma endpoint_loop_colon: "endpoint_loop cfg s is \<Longrightarrow> \<forall>i \<in> set is. i < sp_len s \<Longrightarrow> \<exists>k < sp_len s. rd cfg s k = CHR '':''"
  by (induction "is") (auto split: if_splits)

lemma valid_endpoint_colon: "is_valid_endpoint cfg s \<Longrightarrow> \<exists>k < sp_len s. rd cfg s k = CHR '':''"
  using endpoint6_loop_colon[of cfg s "[1..<sp_len s]"] endpoint_loop_colon[of cfg s "[0..<sp_len s]"]
  by (simp add: is_valid_endpoint_def split: if_splits)

lemma find_colon_Some: "\<exists>k < m. rd cfg s k = CHR '':'' \<Longrightarrow> \<exists>i < m. find_colon cfg s m = Some i"
  by (induction m) (auto simp: less_Suc_eq)

lemma holds_multivalue:
  assumes "holds mem g F C r" "F \<le> sp_s s" "sp_s s + sp_len s \<le> n" "fair mem g n" "C \<noteq> {}"
  shows "holds mem g (sp_s s + sp_len s) (C \<union> {k \<in> {sp_s s..<sp_s s + sp_len s}. nonblank cfg k}) (highlight_multivalue mem cfg s f r)"
  using holds_multivalue_loop[OF assms(4,3), of "[0..<sp_len s]" 0 "span (sp_s s) 0" 0 F C r cfg f] assms
  by (simp add: highlight_multivalue_def)

lemma holds_value:
  assumes "holds mem g F C r" "F \<le> sp_s s" "sp_s s + sp_len s \<le> n" "fair mem g n" "C \<noteq> {}"
  shows "holds mem g (sp_s s + sp_len s) (C \<union> {k \<in> {sp_s s..<sp_s s + sp_len s}. nonblank cfg k}) (highlight_value mem cfg s f r)"
proof -
  have sub: "C \<union> {k \<in> {sp_s s..<sp_s s + sp_len s}. nonblank cfg k} \<subseteq> C \<union> {sp_s s..<sp_s s + sp_len s}" by auto
  have put: "holds mem g (sp_s s + sp_len s) (C \<union> {k \<in> {sp_s s..<sp_s s + sp_len s}. nonblank cfg k}) (put mem s t r)" for t
    by (rule holds_mono[OF holds_put[OF assms(1-4)] order_refl sub])
  have put3: "holds mem g (sp_s s + sp_len s) (C \<union> {k \<in> {sp_s s..<sp_s s + sp_len s}. nonblank cfg k})
     (put mem (span (sp_s s + i + 1) (sp_len s - i - 1)) t3 (put mem (span (sp_s s + i) 1) t2 (put mem (span (sp_s s) i) t1 r)))"
    if "i < sp_len s" for i t1 t2 t3
    by (rule holds_mono[OF holds_put3[OF assms(1-4) that] order_refl sub])
  have e: "is_valid_endpoint cfg s \<Longrightarrow> \<exists>i < sp_len s. find_colon cfg s (sp_len s) = Some i"
    using valid_endpoint_colon find_colon_Some by blast
  show ?thesis
  proof (cases "f = Endpoint \<and> is_valid_endpoint cfg s")
    case True
    then obtain i where "i < sp_len s" "find_colon cfg s (sp_len s) = Some i" using e by blast
    then show ?thesis using True put3[of i] by (simp add: highlight_value_def)
  next
    case False
    then show ?thesis
      unfolding highlight_value_def using put holds_multivalue[OF assms] by (cases f) simp_all
  qed
qed

definition NB :: "string \<Rightarrow> nat \<Rightarrow> nat set" where
  "NB cfg i = {k. k < i \<and> nonblank cfg k}"

lemma NB_Suc: "NB cfg (i + 1) \<subseteq> insert i (NB cfg i)" "\<not> nonblank cfg i \<Longrightarrow> NB cfg (i + 1) = NB cfg i"
  by (auto simp: NB_def less_Suc_eq)

definition hl_inv :: "hmem \<Rightarrow> bool \<Rightarrow> string \<Rightarrow> nat \<Rightarrow> hl_state \<Rightarrow> bool" where
  "hl_inv mem g cfg i st \<longleftrightarrow>
     (let cur = current_span st; las = len_at_last_space st; eq = equals_location st
      in sp_s cur + sp_len cur = i \<and>
        (case hl_on st of
           OnNone \<Rightarrow> sp_len cur = 0 \<and> holds mem g i (NB cfg i) (ret st)
         | OnKey \<Rightarrow> las \<le> sp_len cur \<and> 0 < sp_len cur \<and> holds mem g (sp_s cur) (NB cfg i - {sp_s cur..<sp_s cur + las}) (ret st)
         | OnSection \<Rightarrow> las \<le> sp_len cur \<and> 0 < sp_len cur \<and> holds mem g (sp_s cur) (NB cfg i - {sp_s cur..<sp_s cur + las}) (ret st)
         | OnComment \<Rightarrow> holds mem g (sp_s cur) (NB cfg i - {sp_s cur..<i}) (ret st)
         | OnValue \<Rightarrow> eq < sp_s cur \<and> (if sp_len cur = 0 then holds mem g eq (NB cfg i - {eq}) (ret st)
             else las \<le> sp_len cur \<and> holds mem g eq (NB cfg i - {eq} - {sp_s cur..<sp_s cur + las}) (ret st))))"

lemma hl_flush:
  assumes "hl_inv mem g cfg i st" "i \<le> n" "fair mem g n"
  shows "holds mem g i (NB cfg i) (ret (highlight_flush mem cfg st))"
proof -
  let ?cur = "current_span st" and ?las = "len_at_last_space st" and ?eq = "equals_location st"
  let ?s = "?cur\<lparr> sp_len := ?las \<rparr>"
  have c: "sp_s ?cur + sp_len ?cur = i" using assms(1) by (simp add: hl_inv_def Let_def)
  have key: "holds mem g i (NB cfg i) (put mem ?s t (ret st))"
    if "holds mem g (sp_s ?cur) (NB cfg i - {sp_s ?cur..<sp_s ?cur + ?las}) (ret st)" "?las \<le> sp_len ?cur" for t
  proof (rule holds_mono[OF holds_put[OF that(1), of ?s n t]])
  qed (use that(2) c assms in auto)
  show ?thesis
  proof (cases "hl_on st")
    case OnNone
    then show ?thesis using assms(1) by (simp add: hl_inv_def highlight_flush_def Let_def)
  next
    case OnKey
    then show ?thesis using assms(1) key by (simp add: hl_inv_def highlight_flush_def Let_def)
  next
    case OnSection
    then show ?thesis using assms(1) key by (simp add: hl_inv_def highlight_flush_def Let_def)
  next
    case OnComment
    then have "holds mem g (sp_s ?cur) (NB cfg i - {sp_s ?cur..<i}) (ret st)" using assms(1) by (simp add: hl_inv_def Let_def)
    from holds_mono[OF holds_put[OF this, of ?cur n HighlightComment], of i "NB cfg i"] show ?thesis
      using OnComment c assms by (auto simp: highlight_flush_def)
  next
    case OnValue
    let ?put = "\<lambda>t. put mem (span ?eq 1) t (ret st)"
    have e: "?eq < sp_s ?cur" using OnValue assms(1) by (simp add: hl_inv_def Let_def)
    show ?thesis
    proof (cases "sp_len ?cur = 0")
      case True
      then have h: "holds mem g ?eq (NB cfg i - {?eq}) (ret st)" using OnValue assms(1) by (simp add: hl_inv_def Let_def)
      have "holds mem g i (NB cfg i) (?put HighlightError)"
        by (rule holds_mono[OF holds_put[OF h, of "span ?eq 1" n HighlightError]]) (use e c assms in auto)
      then show ?thesis using OnValue True by (simp add: highlight_flush_def)
    next
      case False
      let ?C = "NB cfg i - {?eq} - {sp_s ?cur..<sp_s ?cur + ?las}"
      have h: "holds mem g ?eq ?C (ret st)" "?las \<le> sp_len ?cur" using False OnValue assms(1) by (simp_all add: hl_inv_def Let_def)
      have p: "holds mem g (?eq + 1) (?C \<union> {?eq}) (?put HighlightDelimiter)"
        using holds_put[OF h(1), of "span ?eq 1" n HighlightDelimiter] e c assms by simp
      have v: "holds mem g (sp_s ?s + sp_len ?s) (?C \<union> {?eq} \<union> {k \<in> {sp_s ?s..<sp_s ?s + sp_len ?s}. nonblank cfg k})
          (highlight_value mem cfg ?s (current_field st) (?put HighlightDelimiter))"
        using p e c h(2) assms by (intro holds_value) auto
      have "holds mem g i (NB cfg i) (highlight_value mem cfg ?s (current_field st) (?put HighlightDelimiter))"
        by (rule holds_mono[OF v]) (use c h(2) in \<open>auto simp: NB_def\<close>)
      then show ?thesis using OnValue False by (simp add: highlight_flush_def)
    qed
  qed
qed


lemma hl_step_flush:
  assumes "hl_inv mem g cfg i st" "i < length cfg" "length cfg \<le> n" "fair mem g n"
    and "cfg ! i = newline \<or> (hl_on st \<noteq> OnComment \<and> cfg ! i = CHR ''#'')"
  shows "hl_inv mem g cfg (i + 1) (highlight_step mem cfg i st)"
proof -
  have h: "holds mem g i (NB cfg i) (ret (highlight_flush mem cfg st))" using hl_flush[OF assms(1) _ assms(4)] assms(2,3) by simp
  show ?thesis
  proof (cases "cfg ! i = CHR ''#''")
    case True
    then have "holds mem g i (NB cfg (i + 1) - {i..<i + 1}) (ret (highlight_flush mem cfg st))"
      using NB_Suc(1)[of cfg i] by (intro holds_mono[OF h]) auto
    then show ?thesis using True assms(5) by (simp add: hl_inv_def highlight_step_def Let_def)
  next
    case False
    then have nl: "cfg ! i = newline" using assms(5) by blast
    then have "\<not> nonblank cfg i" using assms(2) by (simp add: nonblank_def char_at_def)
    then have "holds mem g (i + 1) (NB cfg (i + 1)) (ret (highlight_flush mem cfg st))"
      using NB_Suc(2)[of cfg i] by (intro holds_mono[OF h]) auto
    then show ?thesis using nl by (simp add: hl_inv_def highlight_step_def Let_def)
  qed
qed

lemma hl_step_blank:
  assumes "hl_inv mem g cfg i st" "i < length cfg" "hl_on st \<noteq> OnComment" "cfg ! i = CHR '' '' \<or> cfg ! i = CHR 0x09"
  shows "hl_inv mem g cfg (i + 1) (highlight_step mem cfg i st)"
proof -
  have "\<not> nonblank cfg i" using assms(2,4) by (auto simp: nonblank_def char_at_def)
  then have nb: "NB cfg (i + 1) = NB cfg i" by (rule NB_Suc)
  have st: "highlight_step mem cfg i st =
      (if i = sp_s (current_span st) \<and> sp_len (current_span st) = 0
       then st\<lparr> current_span := (current_span st)\<lparr> sp_s := sp_s (current_span st) + 1 \<rparr> \<rparr>
       else st\<lparr> current_span := (current_span st)\<lparr> sp_len := sp_len (current_span st) + 1 \<rparr> \<rparr>)"
    using assms(3,4) by (auto simp: highlight_step_def)
  have m: "holds mem g i (NB cfg i) r \<Longrightarrow> holds mem g (Suc i) (NB cfg i) r" for r by (rule holds_mono) auto
  show ?thesis
    using assms(1,3) m unfolding hl_inv_def Let_def st nb by (cases "hl_on st") (auto split: if_splits)
qed

lemma hl_step_comment:
  assumes "hl_inv mem g cfg i st" "hl_on st = OnComment" "cfg ! i \<noteq> newline"
  shows "hl_inv mem g cfg (i + 1) (highlight_step mem cfg i st)"
proof -
  let ?cur = "current_span st"
  have a: "sp_s ?cur + sp_len ?cur = i" "holds mem g (sp_s ?cur) (NB cfg i - {sp_s ?cur..<i}) (ret st)"
    using assms(1,2) by (simp_all add: hl_inv_def Let_def)
  have "holds mem g (sp_s ?cur) (NB cfg (i + 1) - {sp_s ?cur..<i + 1}) (ret st)"
    by (rule holds_mono[OF a(2)]) (use NB_Suc(1)[of cfg i] a(1) in auto)
  then show ?thesis using assms(2,3) a(1) by (simp add: hl_inv_def highlight_step_def Let_def)
qed

lemma hl_step_equals:
  assumes "hl_inv mem g cfg i st" "i < length cfg" "length cfg \<le> n" "fair mem g n" "hl_on st = OnKey" "cfg ! i = CHR ''=''"
  shows "hl_inv mem g cfg (i + 1) (highlight_step mem cfg i st)"
proof -
  let ?cur = "current_span st"
  let ?s = "?cur\<lparr> sp_len := len_at_last_space st \<rparr>"
  have a: "sp_s ?cur + sp_len ?cur = i" "len_at_last_space st \<le> sp_len ?cur"
    "holds mem g (sp_s ?cur) (NB cfg i - {sp_s ?cur..<sp_s ?cur + len_at_last_space st}) (ret st)"
    using assms(1,5) by (simp_all add: hl_inv_def Let_def)
  have "holds mem g i (NB cfg (i + 1) - {i}) (put mem ?s t (ret st))" for t
    by (rule holds_mono[OF holds_put[OF a(3), of ?s n t]]) (use NB_Suc(1)[of cfg i] a(1,2) assms in auto)
  then show ?thesis using assms(5,6) by (simp add: hl_inv_def highlight_step_def Let_def)
qed

lemma hl_step_other:
  assumes "hl_inv mem g cfg i st" "i < length cfg" "hl_on st \<noteq> OnComment" "cfg ! i \<notin> {newline, CHR ''#'', CHR '' '', CHR 0x09}"
    and "\<not> (cfg ! i = CHR ''='' \<and> hl_on st = OnKey)"
  shows "hl_inv mem g cfg (i + 1) (highlight_step mem cfg i st)"
proof -
  let ?cur = "current_span st" and ?las = "len_at_last_space st"
  let ?on = "if hl_on st = OnNone then (if cfg ! i = CHR ''['' then OnSection else OnKey) else hl_on st"
  have st: "highlight_step mem cfg i st = st\<lparr> hl_on := ?on,
      current_span := ?cur\<lparr> sp_len := sp_len ?cur + 1 \<rparr>, len_at_last_space := sp_len ?cur + 1 \<rparr>"
    using assms(3-5) by (auto simp: highlight_step_def Let_def)
  have c: "sp_s ?cur + sp_len ?cur = i" using assms(1) by (simp add: hl_inv_def Let_def)
  have nb: "NB cfg (i + 1) - {sp_s ?cur..<sp_s ?cur + (sp_len ?cur + 1)} \<subseteq> NB cfg i - {sp_s ?cur..<sp_s ?cur + m}"
    if "m \<le> sp_len ?cur" for m
    using NB_Suc(1)[of cfg i] c that by auto
  show ?thesis
  proof (cases "hl_on st")
    case OnNone
    then have a: "sp_len ?cur = 0" "holds mem g i (NB cfg i) (ret st)" using assms(1) by (simp_all add: hl_inv_def Let_def)
    have "holds mem g (sp_s ?cur) (NB cfg (i + 1) - {sp_s ?cur..<sp_s ?cur + (sp_len ?cur + 1)}) (ret st)"
      by (rule holds_mono[OF a(2)]) (use nb[of 0] a(1) c in auto)
    then show ?thesis using OnNone c unfolding st hl_inv_def Let_def by (simp add: a(1))
  next
    case OnValue
    let ?eq = "equals_location st"
    have e: "?eq < sp_s ?cur" using assms(1) OnValue by (simp add: hl_inv_def Let_def)
    obtain D where D: "holds mem g ?eq D (ret st)" "NB cfg i - {?eq} - {sp_s ?cur..<sp_s ?cur + sp_len ?cur} \<subseteq> D"
    proof (cases "sp_len ?cur = 0")
      case True
      then have "holds mem g ?eq (NB cfg i - {?eq}) (ret st)" using assms(1) OnValue by (simp add: hl_inv_def Let_def)
      then show ?thesis by (rule that) (simp add: True)
    next
      case False
      then have "holds mem g ?eq (NB cfg i - {?eq} - {sp_s ?cur..<sp_s ?cur + ?las}) (ret st)" "?las \<le> sp_len ?cur"
        using assms(1) OnValue by (simp_all add: hl_inv_def Let_def)
      then show ?thesis by (intro that) auto
    qed
    have "holds mem g ?eq (NB cfg (i + 1) - {?eq} - {sp_s ?cur..<sp_s ?cur + (sp_len ?cur + 1)}) (ret st)"
    proof (rule holds_mono[OF D(1) order_refl], rule order_trans[OF _ D(2)])
      show "NB cfg (i + 1) - {?eq} - {sp_s ?cur..<sp_s ?cur + (sp_len ?cur + 1)} \<subseteq> NB cfg i - {?eq} - {sp_s ?cur..<sp_s ?cur + sp_len ?cur}"
        using NB_Suc(1)[of cfg i] c by auto
    qed
    then show ?thesis using OnValue e c unfolding st hl_inv_def Let_def by simp
  next
    case OnKey
    then have a: "?las \<le> sp_len ?cur" "holds mem g (sp_s ?cur) (NB cfg i - {sp_s ?cur..<sp_s ?cur + ?las}) (ret st)"
      using assms(1) by (simp_all add: hl_inv_def Let_def)
    then show ?thesis using holds_mono[OF a(2) order_refl nb[OF a(1)]] OnKey c unfolding st hl_inv_def Let_def by simp
  next
    case OnSection
    then have a: "?las \<le> sp_len ?cur" "holds mem g (sp_s ?cur) (NB cfg i - {sp_s ?cur..<sp_s ?cur + ?las}) (ret st)"
      using assms(1) by (simp_all add: hl_inv_def Let_def)
    then show ?thesis using holds_mono[OF a(2) order_refl nb[OF a(1)]] OnSection c unfolding st hl_inv_def Let_def by simp
  qed (use assms(3) in simp)
qed

lemma hl_step:
  assumes "hl_inv mem g cfg i st" "i < length cfg" "length cfg \<le> n" "fair mem g n"
  shows "hl_inv mem g cfg (i + 1) (highlight_step mem cfg i st)"
  using hl_step_flush[OF assms] hl_step_blank[OF assms(1,2)] hl_step_comment[OF assms(1)]
    hl_step_equals[OF assms] hl_step_other[OF assms(1,2)] by blast

lemma hl_loop:
  assumes "fair mem g (length cfg)"
  shows "m \<le> length cfg \<Longrightarrow> hl_inv mem g cfg m (fold (highlight_step mem cfg) [0..<m] highlight_start)"
proof (induction m)
  case 0
  show ?case by (simp add: hl_inv_def highlight_start_def holds_def wf_array_def NB_def)
next
  case (Suc m)
  then show ?case using hl_step[of mem g cfg m _ "length cfg"] assms by simp
qed

lemma hl_final:
  assumes "fair mem g (length cfg)"
  shows "holds mem g (length cfg) (NB cfg (length cfg))
     (ret (highlight_flush mem cfg (fold (highlight_step mem cfg) [0..<length cfg] highlight_start)))"
  using hl_flush[OF hl_loop[OF assms order_refl] order_refl assms] .

section \<open>Properties\<close>

text \<open>C10. When memory is granted the highlighter never leaves its array, and returns spans that are not empty,
  follow each other without overlap inside the text, and cover every character that is not a blank,
  a tab or a newline, closed by the end mark.\<close>

theorem highlight_config_spans:
  assumes "2 \<le> span_size mem" "granted mem (length config)"
  shows "\<exists>xs. highlight_config mem config =
      Inr (Some (xs @ [\<lparr> h_type = HighlightEnd, h_start = 0, h_len = 2 ^ size_bits mem - 1 \<rparr>])) \<and>
    ordered (length config) (map extent xs) \<and>
    {k. k < length config \<and> nonblank config k} \<subseteq> covered (map extent xs)"
proof -
  let ?r = "ret (highlight_flush mem config (fold (highlight_step mem config) [0..<length config] highlight_start))"
  have f: "fair mem True (length config)" using assms by (simp add: fair_def)
  obtain a where a: "?r = Inr a" "wf_array mem a" "ordered (length config) (map extent (a_spans a))"
    "NB config (length config) \<subseteq> covered (map extent (a_spans a))"
    using hl_final[OF f] by (auto simp: holds_def split: sum.splits)
  have "length (a_spans a) \<le> length config" using ordered_length[OF a(3)] by simp
  then obtain a' where p: "append_highlight_span mem a (span 0 (2 ^ size_bits mem - 1)) HighlightEnd = Inr (True, a')" "wf_array mem a'"
    "a_spans a' = a_spans a @ (if 2 ^ size_bits mem - 1 = (0::nat) then [] else [\<lparr> h_type = HighlightEnd, h_start = 0, h_len = 2 ^ size_bits mem - 1 \<rparr>])"
    using append_cases[OF a(2) assms(1), of "span 0 (2 ^ size_bits mem - 1)" HighlightEnd] assms(2) by (auto split: if_splits)
  have "realloc_array mem 64 (span_size mem)" using assms(2) unfolding granted_def by simp
  then have "64 * span_size mem < 2 ^ size_bits mem" by (rule realloc_array_fits) simp
  then have b: "2 ^ size_bits mem - 1 \<noteq> (0::nat)" using assms(1) by linarith
  then have "a_capacity a' \<noteq> 0" using p(2,3) by (auto simp: wf_array_def)
  then have "highlight_config mem config = Inr (Some (a_spans a'))"
    using a(1) p(1) by (simp add: highlight_config_def put_def)
  then show ?thesis using p(3) b a(3,4) unfolding NB_def by auto
qed

theorem highlight_config_spans_witness:
  "\<exists>xs. highlight_config \<lparr> size_bits = 64, span_size = 24, realloc = (\<lambda>_. True) \<rparr> ''[Peer]'' =
      Inr (Some (xs @ [\<lparr> h_type = HighlightEnd, h_start = 0, h_len = 2 ^ 64 - 1 \<rparr>])) \<and> {0..<6} \<subseteq> covered (map extent xs)"
proof -
  let ?m = "\<lparr> size_bits = 64, span_size = 24, realloc = (\<lambda>_. True) \<rparr>"
  have g: "granted ?m (length ''[Peer]'')" by (simp add: granted_def realloc_array_def)
  have "nonblank ''[Peer]'' k" if "k < 6" for k
    using that by (auto simp: nonblank_def char_at_def numeral_eq_Suc less_Suc_eq)
  then show ?thesis using highlight_config_spans[OF _ g] by fastforce
qed





end
