(* ===== verification/Ipc.thy ===== *)
theory Ipc
  imports Roundtrip
begin

text \<open>
  Model of \<^verbatim>\<open>wireguard-tools/src/ipc.c\<close> and \<^verbatim>\<open>ipc-uapi-unix.h\<close>: the packed list of interface names, the sockets
  of userspace implementations, and the choice between kernel and userspace. The kernel side of a
  device is a parameter. Sockets are a map from paths to what \<^verbatim>\<open>stat\<close> and \<^verbatim>\<open>connect\<close> say of them, which
  \<^verbatim>\<open>unlink\<close> changes.
\<close>

section \<open>Model\<close>

subsection \<open>The packed list of names\<close>

text \<open>\<^verbatim>\<open>buffer\<close> holds \<^verbatim>\<open>cap\<close> bytes; it is the null pointer while \<^verbatim>\<open>cap\<close> is 0.\<close>

record string_list =
  sl_buffer :: string
  sl_len :: nat
  sl_cap :: nat

text \<open>The width of \<^verbatim>\<open>size_t\<close>, the \<^verbatim>\<open>errno\<close> of a request to \<^verbatim>\<open>realloc\<close> (0 if it is granted), and what fresh bytes hold.\<close>

record lmem =
  l_bits :: nat
  l_realloc :: "nat \<Rightarrow> int"
  l_junk :: char

datatype mem_error = BufferOverrun

definition string_list_add :: "lmem \<Rightarrow> string_list \<Rightarrow> string \<Rightarrow> mem_error + (int \<times> string_list)" where
  "string_list_add mem list str =
     (let len = length str + 1
      in if len = 1 then Inr (0, list)
      else
        let grow = (len \<ge> (sl_cap list + 2 ^ l_bits mem - sl_len list) mod 2 ^ l_bits mem);
            need = (sl_len list + len + 1) mod 2 ^ l_bits mem;
            twice = sl_cap list * 2 mod 2 ^ l_bits mem;
            new_cap = (if twice < need then need else twice)
        in if grow \<and> l_realloc mem new_cap \<noteq> 0 then Inr (- l_realloc mem new_cap, list)
           else
             let cap = (if grow then new_cap else sl_cap list);
                 buffer = (if grow then take cap (sl_buffer list) @ replicate (cap - length (sl_buffer list)) (l_junk mem)
                           else sl_buffer list)
             in if sl_len list + len \<ge> cap then Inl BufferOverrun
                else Inr (0, \<lparr> sl_buffer = (take (sl_len list) buffer @ str @ [CHR 0x00] @ drop (sl_len list + len) buffer)
                                             [sl_len list + len := CHR 0x00],
                               sl_len = sl_len list + len, sl_cap = cap \<rparr>))"

subsection \<open>Sockets\<close>

definition ECONNREFUSED :: int where "ECONNREFUSED = 111"
definition ENOENT :: int where "ENOENT = 2"
definition EINVAL :: int where "EINVAL = 22"
definition EBADF :: int where "EBADF = 9"

lemmas errno_defs = ECONNREFUSED_def ENOENT_def EINVAL_def EBADF_def

datatype path_state = StatFails int | NotSocket | Listening | ConnectFails int

record sockets =
  sk_path :: "string \<Rightarrow> path_state"
  sk_socket :: int
  sk_fdopen :: int
  sk_run :: string

text \<open>\<^verbatim>\<open>SOCK_PATH "%s" SOCK_SUFFIX\<close>, cut off by \<^verbatim>\<open>snprintf\<close> to the 108 bytes of \<^verbatim>\<open>sun_path\<close>.\<close>

definition sock_path :: "sockets \<Rightarrow> string \<Rightarrow> string" where
  "sock_path w iface = take 107 (sk_run w @ ''/wireguard/'' @ iface @ ''.sock'')"

definition sk_unlink :: "string \<Rightarrow> sockets \<Rightarrow> sockets" where
  "sk_unlink p w = w\<lparr> sk_path := (sk_path w)(p := StatFails ENOENT) \<rparr>"

text \<open>The stream, named by its path, or \<^verbatim>\<open>errno\<close>.\<close>

definition userspace_interface_file :: "sockets \<Rightarrow> string \<Rightarrow> (int + string) \<times> sockets" where
  "userspace_interface_file w iface =
     (if strchr iface (CHR ''/'') \<noteq> None then (Inl EINVAL, w)
      else (case sk_path w (sock_path w iface) of
         StatFails e \<Rightarrow> (Inl e, w)
       | NotSocket \<Rightarrow> (Inl EBADF, w)
       | ConnectFails e \<Rightarrow>
           if sk_socket w \<noteq> 0 then (Inl (sk_socket w), w)
           else if e = ECONNREFUSED then (Inl e, sk_unlink (sock_path w iface) w)
           else (Inl e, w)
       | Listening \<Rightarrow>
           if sk_socket w \<noteq> 0 then (Inl (sk_socket w), w)
           else if sk_fdopen w \<noteq> 0 then (Inl (sk_fdopen w), w)
           else (Inr (sock_path w iface), w)))"

definition userspace_has_wireguard_interface :: "sockets \<Rightarrow> string \<Rightarrow> bool \<times> sockets" where
  "userspace_has_wireguard_interface w iface =
     (if strchr iface (CHR ''/'') \<noteq> None then (False, w)
      else (case sk_path w (sock_path w iface) of
         StatFails e \<Rightarrow> (False, w)
       | NotSocket \<Rightarrow> (False, w)
       | ConnectFails e \<Rightarrow>
           if sk_socket w \<noteq> 0 then (False, w)
           else if e = ECONNREFUSED then (False, sk_unlink (sock_path w iface) w)
           else (True, w)
       | Listening \<Rightarrow> if sk_socket w \<noteq> 0 then (False, w) else (True, w)))"

fun userspace_interfaces_loop ::
  "lmem \<Rightarrow> sockets \<Rightarrow> string_list \<Rightarrow> int \<Rightarrow> string list \<Rightarrow> mem_error + (int \<times> string_list \<times> sockets)" where
  "userspace_interfaces_loop mem w list ret [] = Inr (ret, list, w)"
| "userspace_interfaces_loop mem w list ret (d_name # ents) =
     (let len = length d_name
      in if len \<le> 5 then userspace_interfaces_loop mem w list ret ents
         else if drop (len - 5) d_name \<noteq> ''.sock'' then userspace_interfaces_loop mem w list ret ents
         else (case userspace_has_wireguard_interface w (take (len - 5) d_name) of
            (False, w') \<Rightarrow> userspace_interfaces_loop mem w' list ret ents
          | (True, w') \<Rightarrow> (case string_list_add mem list (take (len - 5) d_name) of
               Inl e \<Rightarrow> Inl e
             | Inr (ret', list') \<Rightarrow>
                 if ret' < 0 then Inr (ret', list', w')
                 else userspace_interfaces_loop mem w' list' ret' ents)))"

text \<open>The result of \<^verbatim>\<open>opendir\<close> is the \<^verbatim>\<open>errno\<close> or the names \<^verbatim>\<open>readdir\<close> delivers.\<close>

definition userspace_get_wireguard_interfaces ::
  "lmem \<Rightarrow> int + string list \<Rightarrow> sockets \<Rightarrow> string_list \<Rightarrow> mem_error + (int \<times> string_list \<times> sockets)" where
  "userspace_get_wireguard_interfaces mem dir w list =
     (case dir of
        Inl e \<Rightarrow> Inr (if e = ENOENT then 0 else - e, list, w)
      | Inr ents \<Rightarrow> userspace_interfaces_loop mem w list 0 ents)"

subsection \<open>Choosing the side\<close>

text \<open>\<^verbatim>\<open>ipc_list_devices\<close> returns the buffer, or \<open>None\<close>.\<close>

definition ipc_list_devices ::
  "lmem \<Rightarrow> (string_list \<Rightarrow> mem_error + (int \<times> string_list)) \<Rightarrow> int + string list \<Rightarrow> sockets \<Rightarrow> mem_error + (string option \<times> sockets)" where
  "ipc_list_devices mem kernel_list dir w =
     (case kernel_list \<lparr> sl_buffer = [], sl_len = 0, sl_cap = 0 \<rparr> of
        Inl e \<Rightarrow> Inl e
      | Inr (ret, list) \<Rightarrow>
          if ret < 0 then Inr (None, w)
          else (case userspace_get_wireguard_interfaces mem dir w list of
             Inl e \<Rightarrow> Inl e
           | Inr (ret, list, w') \<Rightarrow>
               if ret \<noteq> 0 then Inr (None, w')
               else Inr (Some (if sl_cap list = 0 then [CHR 0x00] else sl_buffer list), w')))"

text \<open>\<^verbatim>\<open>ipc_get_device\<close> and \<^verbatim>\<open>ipc_set_device\<close>, given both implementations.\<close>

definition ipc_get_dispatch ::
  "(sockets \<Rightarrow> string \<Rightarrow> 'a) \<Rightarrow> (sockets \<Rightarrow> string \<Rightarrow> 'a) \<Rightarrow> sockets \<Rightarrow> string \<Rightarrow> 'a" where
  "ipc_get_dispatch userspace kernelside w iface =
     (case userspace_has_wireguard_interface w iface of
        (True, w') \<Rightarrow> userspace w' iface
      | (False, w') \<Rightarrow> kernelside w' iface)"

definition ipc_set_dispatch ::
  "(sockets \<Rightarrow> wgdevice \<Rightarrow> 'a) \<Rightarrow> (sockets \<Rightarrow> wgdevice \<Rightarrow> 'a) \<Rightarrow> sockets \<Rightarrow> wgdevice \<Rightarrow> 'a" where
  "ipc_set_dispatch userspace kernelside w dev =
     (case userspace_has_wireguard_interface w (name dev) of
        (True, w') \<Rightarrow> userspace w' dev
      | (False, w') \<Rightarrow> kernelside w' dev)"

section \<open>The list of names\<close>

text \<open>The names in a buffer, as the loops \<^verbatim>\<open>for (len = 0; (len = strlen(p)); p += len + 1)\<close> see them.\<close>

definition pack :: "string list \<Rightarrow> string" where
  "pack ns = concat (map (\<lambda>n. n @ [CHR 0x00]) ns)"

function unpack :: "string \<Rightarrow> string list" where
  "unpack b = (if cstr b = [] then [] else cstr b # unpack (drop (length (cstr b) + 1) b))"
  by pat_completeness auto
termination
  by (relation "measure length") (auto simp: cstr_def takeWhile_eq_Nil_iff neq_Nil_conv)

declare unpack.simps [simp del]

definition name_ok :: "string \<Rightarrow> bool" where
  "name_ok n \<longleftrightarrow> n \<noteq> [] \<and> CHR 0x00 \<notin> set n"

definition sl_ok :: "lmem \<Rightarrow> string list \<Rightarrow> string_list \<Rightarrow> bool" where
  "sl_ok mem ns list \<longleftrightarrow> list_all name_ok ns \<and> sl_len list = length (pack ns) \<and> length (sl_buffer list) = sl_cap list \<and>
     sl_cap list < 2 ^ l_bits mem \<and>
     (if sl_cap list = 0 then ns = [] else sl_len list < sl_cap list \<and> take (sl_len list + 1) (sl_buffer list) = pack ns @ [CHR 0x00])"

lemma pack_append [simp]: "pack (ns @ ms) = pack ns @ pack ms" "pack [] = []" "pack [n] = n @ [CHR 0x00]"
  by (simp_all add: pack_def)

lemma cstr_name: "name_ok n \<Longrightarrow> cstr (n @ CHR 0x00 # r) = n"
  by (auto simp: cstr_def name_ok_def takeWhile_append)

lemma unpack_pack: "list_all name_ok ns \<Longrightarrow> unpack (pack ns @ CHR 0x00 # r) = ns"
proof (induction ns)
  case Nil
  show ?case by (subst unpack.simps) (simp add: cstr_def)
next
  case (Cons n ns)
  have e: "pack (n # ns) @ CHR 0x00 # r = n @ CHR 0x00 # (pack ns @ CHR 0x00 # r)" by (simp add: pack_def)
  have n: "name_ok n" using Cons.prems by simp
  then have "n \<noteq> []" by (simp add: name_ok_def)
  then show ?case using Cons n unfolding e by (subst unpack.simps) (simp add: cstr_name)
qed


lemma sl_ok_unpack:
  assumes "sl_ok mem ns list" "sl_cap list \<noteq> 0"
  shows "unpack (sl_buffer list) = ns"
proof -
  let ?n = "sl_len list + 1"
  have t: "take ?n (sl_buffer list) = pack ns @ [CHR 0x00]" "list_all name_ok ns" using assms unfolding sl_ok_def by (metis, metis)
  have "sl_buffer list = take ?n (sl_buffer list) @ drop ?n (sl_buffer list)" by (rule append_take_drop_id[symmetric])
  then have "sl_buffer list = pack ns @ CHR 0x00 # drop ?n (sl_buffer list)" unfolding t(1) by simp
  then show ?thesis using unpack_pack[OF t(2), of "drop ?n (sl_buffer list)"] by presburger
qed

text \<open>Adding a name, or failing for lack of memory and leaving the list as it was.\<close>

lemma string_list_add_ok:
  assumes "sl_ok mem ns list" "CHR 0x00 \<notin> set str" "length (pack ns) + length str + 2 < 2 ^ l_bits mem"
  shows "\<exists>ret list'. string_list_add mem list str = Inr (ret, list') \<and>
    (ret = 0 \<and> sl_ok mem (if str = [] then ns else ns @ [str]) list' \<or> (\<exists>n. ret = - l_realloc mem n \<and> ret \<noteq> 0) \<and> list' = list)"
proof (cases "str = []")
  case True
  then show ?thesis using assms(1) by (simp add: string_list_add_def)
next
  case False
  let ?B = "2 ^ l_bits mem" and ?len = "length str + 1"
  have l: "sl_len list = length (pack ns)" "length (sl_buffer list) = sl_cap list" "sl_cap list < ?B"
    using assms(1) by (simp_all add: sl_ok_def)
  have le: "sl_len list \<le> sl_cap list" using assms(1) by (auto simp: sl_ok_def split: if_splits)
  have eq: "sl_cap list + ?B - sl_len list = (sl_cap list - sl_len list) + ?B" using le by simp
  have "sl_cap list - sl_len list < ?B" using l(3) by (rule less_imp_diff_less)
  then have room: "(sl_cap list + ?B - sl_len list) mod ?B = sl_cap list - sl_len list" unfolding eq mod_add_self2 by (rule mod_less)
  define grow where "grow \<longleftrightarrow> ?len \<ge> sl_cap list - sl_len list"
  define need where "need = sl_len list + ?len + 1"
  have "need < ?B" using assms(3) l(1) by (simp add: need_def)
  then have need: "(sl_len list + ?len + 1) mod ?B = need" unfolding need_def by (rule mod_less)
  define new_cap where "new_cap = (if sl_cap list * 2 mod ?B < need then need else sl_cap list * 2 mod ?B)"
  have nc: "need \<le> new_cap" "new_cap < ?B" using \<open>need < ?B\<close> by (auto simp: new_cap_def)
  have f: "length str + 1 \<noteq> 1" using False by simp
  have e: "string_list_add mem list str =
      (if grow \<and> l_realloc mem new_cap \<noteq> 0 then Inr (- l_realloc mem new_cap, list)
       else let cap = (if grow then new_cap else sl_cap list);
                 buffer = (if grow then take cap (sl_buffer list) @ replicate (cap - length (sl_buffer list)) (l_junk mem)
                           else sl_buffer list)
             in if sl_len list + ?len \<ge> cap then Inl BufferOverrun
                else Inr (0, \<lparr> sl_buffer = (take (sl_len list) buffer @ str @ [CHR 0x00] @ drop (sl_len list + ?len) buffer)
                                             [sl_len list + ?len := CHR 0x00],
                               sl_len = sl_len list + ?len, sl_cap = cap \<rparr>))"
    unfolding string_list_add_def Let_def room need grow_def[symmetric] new_cap_def[symmetric] if_not_P[OF f] by (rule refl)
  show ?thesis
  proof (cases "grow \<and> l_realloc mem new_cap \<noteq> 0")
    case True
    then show ?thesis unfolding e by auto
  next
    case ok: False
    define cap where "cap = (if grow then new_cap else sl_cap list)"
    define buf where "buf = (if grow then take cap (sl_buffer list) @ replicate (cap - length (sl_buffer list)) (l_junk mem) else sl_buffer list)"
    have c: "sl_len list + ?len < cap" "cap < ?B" using nc l(3) by (auto simp: cap_def grow_def need_def)
    have lb: "length buf = cap" using l(2) by (auto simp: buf_def cap_def min_def)
    have tk: "take (sl_len list) buf = pack ns"
    proof -
      have "take (sl_len list) buf = take (sl_len list) (sl_buffer list)" using l(2) le c(1) by (simp add: buf_def)
      also have "\<dots> = take (sl_len list) (take (sl_len list + 1) (sl_buffer list))" by simp
      also have "\<dots> = pack ns" using assms(1) l by (cases "sl_cap list = 0") (simp_all add: sl_ok_def del: take_take)
      finally show ?thesis .
    qed
    let ?new = "(take (sl_len list) buf @ str @ [CHR 0x00] @ drop (sl_len list + ?len) buf)[sl_len list + ?len := CHR 0x00]"
    obtain x r where d: "drop (sl_len list + ?len) buf = x # r" using c(1) lb by (metis Cons_nth_drop_Suc)
    have n: "?new = pack (ns @ [str]) @ CHR 0x00 # r"
      using l(1) unfolding tk d by (simp add: list_update_append)
    have len: "length (drop (sl_len list + ?len) buf) = cap - (sl_len list + ?len)" using lb by simp
    then have lr: "length r = cap - (sl_len list + ?len) - 1" unfolding d by simp
    have "name_ok str" using False assms(2) by (simp add: name_ok_def)
    then have "sl_ok mem (ns @ [str]) \<lparr> sl_buffer = ?new, sl_len = sl_len list + ?len, sl_cap = cap \<rparr>"
      unfolding n using assms(1) c l(1) lr by (simp add: sl_ok_def)
    moreover have "string_list_add mem list str = Inr (0, \<lparr> sl_buffer = ?new, sl_len = sl_len list + ?len, sl_cap = cap \<rparr>)"
      unfolding e Let_def using ok c(1) by (simp add: cap_def buf_def)
    ultimately show ?thesis using False by simp
  qed
qed

section \<open>Sockets\<close>

lemma sock_path_unlink [simp]: "sock_path (sk_unlink p w) iface = sock_path w iface"
  by (simp add: sock_path_def sk_unlink_def)

definition alive :: "sockets \<Rightarrow> string \<Rightarrow> bool" where
  "alive w iface \<longleftrightarrow> CHR ''/'' \<notin> set iface \<and> sk_socket w = 0 \<and>
     (case sk_path w (sock_path w iface) of Listening \<Rightarrow> True | ConnectFails e \<Rightarrow> e \<noteq> ECONNREFUSED | _ \<Rightarrow> False)"

lemma has_interface_alive: "fst (userspace_has_wireguard_interface w iface) \<longleftrightarrow> alive w iface"
  by (auto simp: userspace_has_wireguard_interface_def alive_def strchr_None split: path_state.splits)

text \<open>Removing the socket of a dead process changes nothing for the others.\<close>

lemma alive_stable: "alive (snd (userspace_has_wireguard_interface w iface)) m \<longleftrightarrow> alive w m"
proof (cases "sk_path w (sock_path w iface)")
  case (ConnectFails e)
  have u: "alive (sk_unlink (sock_path w iface) w) m \<longleftrightarrow> alive w m" if "e = ECONNREFUSED"
    using that ConnectFails by (auto simp: alive_def sk_unlink_def sock_path_def)
  then show ?thesis using ConnectFails by (simp add: userspace_has_wireguard_interface_def)
qed (simp_all add: userspace_has_wireguard_interface_def)

fun sock_name :: "string \<Rightarrow> string option" where
  "sock_name d = (if length d > 5 \<and> drop (length d - 5) d = ''.sock'' then Some (take (length d - 5) d) else None)"

definition listed :: "sockets \<Rightarrow> string list \<Rightarrow> string list" where
  "listed w ents = filter (alive w) (List.map_filter sock_name ents)"

lemma listed_Cons:
  "listed w (d # ents) = (case sock_name d of Some n \<Rightarrow> (if alive w n then n # listed w ents else listed w ents) | None \<Rightarrow> listed w ents)"
  by (simp add: listed_def map_filter_simps del: sock_name.simps split: option.splits)

lemma listed_stable: "listed (snd (userspace_has_wireguard_interface w n)) ents = listed w ents"
  unfolding listed_def by (rule filter_cong) (simp_all only: alive_stable)

lemma interfaces_loop:
  assumes "list_all (\<lambda>d. CHR 0x00 \<notin> set d) ents" "sl_ok mem ns list"
    and "length (pack (ns @ listed w ents)) + 2 < 2 ^ l_bits mem" "\<And>n. l_realloc mem n = 0"
  shows "\<exists>list' w'. userspace_interfaces_loop mem w list 0 ents = Inr (0, list', w') \<and> sl_ok mem (ns @ listed w ents) list'"
  using assms(1-3)
proof (induction ents arbitrary: w ns list)
  case Nil
  then show ?case by (simp add: listed_def map_filter_simps)
next
  case (Cons d ents)
  show ?case
  proof (cases "sock_name d")
    case None
    then have "userspace_interfaces_loop mem w list 0 (d # ents) = userspace_interfaces_loop mem w list 0 ents"
      by (auto simp: Let_def split: if_splits)
    then show ?thesis using Cons None by (simp add: listed_Cons del: sock_name.simps)
  next
    case (Some n)
    then have n: "n = take (length d - 5) d" "length d > 5" "drop (length d - 5) d = ''.sock''" by (auto split: if_splits)
    obtain b w' where h: "userspace_has_wireguard_interface w n = (b, w')" by fastforce
    have b: "b \<longleftrightarrow> alive w n" "listed w' ents = listed w ents"
      using has_interface_alive[of w n] listed_stable[of w n ents] h by simp_all
    show ?thesis
    proof (cases b)
      case False
      then have "userspace_interfaces_loop mem w list 0 (d # ents) = userspace_interfaces_loop mem w' list 0 ents"
        using h n by (simp add: Let_def)
      moreover have l: "listed w (d # ents) = listed w' ents" using Some b False by (simp add: listed_Cons del: sock_name.simps)
      ultimately show ?thesis using Cons.IH[of ns list w'] Cons.prems unfolding l by simp
    next
      case True
      have l: "listed w (d # ents) = n # listed w' ents" using Some b True by (simp add: listed_Cons del: sock_name.simps)
      have nn: "n \<noteq> []" "CHR 0x00 \<notin> set n" using n Cons.prems(1) by (auto dest: in_set_takeD)
      have fits: "length (pack ns) + length n + 2 < 2 ^ l_bits mem" using Cons.prems(3) unfolding l by (simp add: pack_def)
      obtain list' where a: "string_list_add mem list n = Inr (0, list')" "sl_ok mem (ns @ [n]) list'"
        using string_list_add_ok[OF Cons.prems(2) nn(2) fits] nn(1) assms(4) by auto
      then have "userspace_interfaces_loop mem w list 0 (d # ents) = userspace_interfaces_loop mem w' list' 0 ents"
        using h n True by (simp add: Let_def)
      then show ?thesis using Cons.IH[OF _ a(2), of w'] Cons.prems unfolding l by simp
    qed
  qed
qed


section \<open>Properties\<close>

text \<open>C16. Adding a name to a list of names never writes outside the buffer, whatever \<^verbatim>\<open>realloc\<close> grants: either the
  name stands behind the others, or the error of \<^verbatim>\<open>realloc\<close> is returned and the list is as before. A
  loop over the buffer sees exactly the names, in order.\<close>

theorem string_list_roundtrip:
  assumes "sl_ok mem ns list" "CHR 0x00 \<notin> set str" "length (pack ns) + length str + 2 < 2 ^ l_bits mem" "str \<noteq> []"
  shows "\<exists>ret list'. string_list_add mem list str = Inr (ret, list') \<and>
    (if ret = 0 then sl_ok mem (ns @ [str]) list' \<and> unpack (sl_buffer list') = ns @ [str]
     else list' = list \<and> (\<exists>n. ret = - l_realloc mem n))"
proof -
  obtain ret list' where a: "string_list_add mem list str = Inr (ret, list')"
    "ret = 0 \<and> sl_ok mem (ns @ [str]) list' \<or> (\<exists>n. ret = - l_realloc mem n \<and> ret \<noteq> 0) \<and> list' = list"
    using string_list_add_ok[OF assms(1-3)] assms(4) by auto
  moreover have "unpack (sl_buffer list') = ns @ [str]" if "sl_ok mem (ns @ [str]) list'"
    using that by (intro sl_ok_unpack[OF that]) (auto simp: sl_ok_def split: if_splits)
  ultimately show ?thesis by auto
qed

theorem string_list_roundtrip_witness:
  "\<exists>list'. string_list_add \<lparr> l_bits = 64, l_realloc = (\<lambda>_. 0), l_junk = CHR ''x'' \<rparr> \<lparr> sl_buffer = [], sl_len = 0, sl_cap = 0 \<rparr> ''wg0'' = Inr (0, list') \<and>
    unpack (sl_buffer list') = [''wg0'']"
proof -
  let ?m = "\<lparr> l_bits = 64, l_realloc = (\<lambda>_. 0), l_junk = CHR ''x'' \<rparr>" and ?l = "\<lparr> sl_buffer = [], sl_len = 0, sl_cap = 0 \<rparr>"
  have "sl_ok ?m [] ?l" by (simp add: sl_ok_def)
  then show ?thesis using string_list_roundtrip[of ?m "[]" ?l "''wg0''"] by (auto split: if_splits)
qed

text \<open>C24. Listing the interfaces gives, behind those of the kernel, exactly the names of the sockets in the
  directory that a living process serves, in the order of the directory: sockets of dead processes
  are removed on the way, which hides no other interface.\<close>

theorem ipc_list_devices_exact:
  assumes "list_all (\<lambda>d. CHR 0x00 \<notin> set d) ents" "\<And>n. l_realloc mem n = 0"
    and "kernel_list \<lparr> sl_buffer = [], sl_len = 0, sl_cap = 0 \<rparr> = Inr (0, list)" "sl_ok mem ns list"
    and "length (pack (ns @ listed w ents)) + 2 < 2 ^ l_bits mem"
  shows "\<exists>buffer w'. ipc_list_devices mem kernel_list (Inr ents) w = Inr (Some buffer, w') \<and> unpack buffer = ns @ listed w ents"
proof -
  obtain list' w' where l: "userspace_interfaces_loop mem w list 0 ents = Inr (0, list', w')" "sl_ok mem (ns @ listed w ents) list'"
    using interfaces_loop[OF assms(1,4,5,2)] by blast
  have "unpack [CHR 0x00] = []" by (subst unpack.simps) (simp add: cstr_def)
  moreover have "ns @ listed w ents = []" if "sl_cap list' = 0" using l(2) that unfolding sl_ok_def by simp
  ultimately show ?thesis
    using l sl_ok_unpack[OF l(2)] assms(3) by (simp add: ipc_list_devices_def userspace_get_wireguard_interfaces_def)
qed

theorem ipc_list_devices_exact_witness:
  "\<exists>buffer w'. ipc_list_devices \<lparr> l_bits = 32, l_realloc = (\<lambda>_. 0), l_junk = CHR 0x00 \<rparr> (\<lambda>l. Inr (0, l)) (Inr [''.'', ''tun0.sock''])
      \<lparr> sk_path = (\<lambda>_. Listening), sk_socket = 0, sk_fdopen = 0, sk_run = ''/var/run'' \<rparr> = Inr (Some buffer, w') \<and> unpack buffer = [''tun0'']"
proof -
  let ?m = "\<lparr> l_bits = 32, l_realloc = (\<lambda>_. 0), l_junk = CHR 0x00 \<rparr>"
  let ?w = "\<lparr> sk_path = (\<lambda>_. Listening), sk_socket = 0, sk_fdopen = 0, sk_run = ''/var/run'' \<rparr>"
  have "listed ?w [''.'', ''tun0.sock''] = [''tun0'']" by (simp add: listed_def map_filter_simps alive_def)
  moreover have "sl_ok ?m [] \<lparr> sl_buffer = [], sl_len = 0, sl_cap = 0 \<rparr>" by (simp add: sl_ok_def)
  ultimately show ?thesis using ipc_list_devices_exact[of "[''.'', ''tun0.sock'']" ?m "\<lambda>l. Inr (0, l)" _ "[]" ?w] by (simp add: pack_def)
qed

text \<open>C25. Opening the socket of an interface never leaves the directory of the sockets: a name with a slash is
  refused before anything is looked up. A stream is returned only for a socket that accepts the
  connection, and only a socket whose process is gone is removed.\<close>

theorem interface_file_safe:
  "case userspace_interface_file w iface of (r, w') \<Rightarrow>
     (CHR ''/'' \<in> set iface \<longrightarrow> r = Inl EINVAL \<and> w' = w) \<and>
     (\<forall>p. r = Inr p \<longrightarrow> p = sock_path w iface \<and> sk_path w p = Listening \<and> w' = w) \<and>
     (\<forall>p. sk_path w' p \<noteq> sk_path w p \<longrightarrow> p = sock_path w iface \<and> sk_path w p = ConnectFails ECONNREFUSED \<and> sk_path w' p = StatFails ENOENT)"
  by (auto simp: userspace_interface_file_def strchr_None sk_unlink_def split: path_state.splits if_splits)

theorem interface_file_safe_witness:
  "fst (userspace_interface_file \<lparr> sk_path = (\<lambda>_. Listening), sk_socket = 0, sk_fdopen = 0, sk_run = ''/var/run'' \<rparr> ''../wg0'') = Inl EINVAL"
  using interface_file_safe[where w = "\<lparr> sk_path = (\<lambda>_. Listening), sk_socket = 0, sk_fdopen = 0, sk_run = ''/var/run'' \<rparr>" and iface = "''../wg0''"]
  by (auto split: prod.splits)

end
