(* ===== verification/Uapi.thy ===== *)
theory Uapi
  imports Ipc
begin

text \<open>
  Model of \<^verbatim>\<open>wireguard-tools/src/ipc-uapi.h\<close>: the text protocol to a userspace implementation, as the request
  \<^verbatim>\<open>userspace_set_device\<close> writes, the reply it reads, and the reply \<^verbatim>\<open>userspace_get_device\<close> parses. What the peer of
  the socket answers is an argument. The public key of a private key is a parameter.
\<close>

section \<open>Model\<close>

definition ESRCH :: int where "ESRCH = 3"
definition ENOSYS :: int where "ENOSYS = 38"
definition EPROTO :: int where "EPROTO = 71"
definition ENOMEM :: int where "ENOMEM = 12"
definition ENETUNREACH :: int where "ENETUNREACH = 101"

subsection \<open>Setting a device\<close>

definition uapi_allowedip :: "printer \<Rightarrow> wgallowedip \<Rightarrow> string" where
  "uapi_allowedip pr a =
     (case ip_text pr (ip a) of
        None \<Rightarrow> []
      | Some t \<Rightarrow> ''allowed_ip='' @ (if flag_test (a_flags a) WGALLOWEDIP_REMOVE_ME then ''-'' else []) @ t @ ''/'' @
                  dec (unat (cidr a)) @ [newline])"

fun uapi_endpoint :: "printer \<Rightarrow> sockaddr \<Rightarrow> string" where
  "uapi_endpoint pr SaUnspec = []"
| "uapi_endpoint pr (SaIn a p) =
     (case getnameinfo pr (SaIn a p) of None \<Rightarrow> [] | Some (host, service) \<Rightarrow> ''endpoint='' @ host @ '':'' @ service @ [newline])"
| "uapi_endpoint pr (SaIn6 a p f s) =
     (case getnameinfo pr (SaIn6 a p f s) of None \<Rightarrow> []
      | Some (host, service) \<Rightarrow>
          if strchr host (CHR '':'') \<noteq> None then ''endpoint=['' @ host @ '']:'' @ service @ [newline]
          else ''endpoint='' @ host @ '':'' @ service @ [newline])"

definition uapi_peer :: "printer \<Rightarrow> wgpeer \<Rightarrow> string" where
  "uapi_peer pr p =
     ''public_key='' @ key_to_hex (public_key p) @ [newline] @
     (if flag_test (p_flags p) WGPEER_REMOVE_ME then ''remove=true'' @ [newline]
      else
        (if flag_test (p_flags p) WGPEER_HAS_PRESHARED_KEY then ''preshared_key='' @ key_to_hex (preshared_key p) @ [newline] else []) @
        uapi_endpoint pr (endpoint p) @
        (if flag_test (p_flags p) WGPEER_HAS_PERSISTENT_KEEPALIVE_INTERVAL
         then ''persistent_keepalive_interval='' @ dec (unat (persistent_keepalive_interval p)) @ [newline] else []) @
        (if flag_test (p_flags p) WGPEER_REPLACE_ALLOWEDIPS then ''replace_allowed_ips=true'' @ [newline] else []) @
        concat (map (uapi_allowedip pr) (allowedips p)))"

definition userspace_set_request :: "printer \<Rightarrow> wgdevice \<Rightarrow> string" where
  "userspace_set_request pr dev =
     ''set=1'' @ [newline] @
     (if flag_test (d_flags dev) WGDEVICE_HAS_PRIVATE_KEY then ''private_key='' @ key_to_hex (private_key dev) @ [newline] else []) @
     (if flag_test (d_flags dev) WGDEVICE_HAS_LISTEN_PORT then ''listen_port='' @ dec (unat (listen_port dev)) @ [newline] else []) @
     (if flag_test (d_flags dev) WGDEVICE_HAS_FWMARK then ''fwmark='' @ dec (unat (fwmark dev)) @ [newline] else []) @
     (if flag_test (d_flags dev) WGDEVICE_REPLACE_PEERS then ''replace_peers=true'' @ [newline] else []) @
     concat (map (uapi_peer pr) (peers dev)) @ [newline]"

text \<open>\<^verbatim>\<open>strtoll(s, &end, 10)\<close>\<close>

definition strtoll :: "string \<Rightarrow> int \<times> string" where
  "strtoll s =
     (let s1 = dropWhile (\<lambda>c. is_space c) s;
          neg = (s1 \<noteq> [] \<and> hd s1 = CHR ''-'');
          s2 = (if s1 \<noteq> [] \<and> (hd s1 = CHR ''-'' \<or> hd s1 = CHR ''+'') then tl s1 else s1);
          ds = takeWhile (\<lambda>c. is_digit c) s2;
          n = int (numval 10 ds)
      in if ds = [] then (0, s)
         else (if neg then max (- n) (- (2 ^ 63)) else min n (2 ^ 63 - 1), dropWhile (\<lambda>c. is_digit c) s2))"

text \<open>\<^verbatim>\<open>value = strchr(key, '=')\<close> and the two terminators written: key and value of a line, if it has a key and
  ends with a newline.\<close>

definition split_line :: "string \<Rightarrow> (string \<times> string) option" where
  "split_line l =
     (case strchr l (CHR ''='') of
        None \<Rightarrow> None
      | Some i \<Rightarrow> if l = [] \<or> last l \<noteq> newline then None else Some (take i l, butlast (drop (i + 1) l)))"

text \<open>The loop over the lines of the reply. \<^term>\<open>err\<close> is \<^verbatim>\<open>errno\<close> behind the loop.\<close>

fun userspace_set_reply :: "bool \<Rightarrow> int \<Rightarrow> string list \<Rightarrow> int \<Rightarrow> int" where
  "userspace_set_reply sg err [] set_errno = (if err \<noteq> 0 then - err else - EPROTO)"
| "userspace_set_reply sg err (line # ls) set_errno =
     (if cstr line = [newline] then set_errno
      else (case split_line (cstr line) of
         None \<Rightarrow> (if err \<noteq> 0 then - err else - EPROTO)
       | Some (key, v) \<Rightarrow>
           if key = ''errno'' then
             (if char_at v 0 \<noteq> CHR ''-'' \<and> \<not> char_is_digit (char_int sg (char_at v 0)) then (if err \<noteq> 0 then - err else - EPROTO)
              else (let (num, end) = strtoll v
                    in if end \<noteq> [] \<or> num > 2147483647 \<or> num < - 2147483648 then (if err \<noteq> 0 then - err else - EPROTO)
                       else userspace_set_reply sg err ls num))
           else userspace_set_reply sg err ls set_errno))"

text \<open>The peer of the socket: from the request to the reply and the \<^verbatim>\<open>errno\<close> of reading it.\<close>

definition userspace_set_device ::
  "bool \<Rightarrow> printer \<Rightarrow> (string \<Rightarrow> string \<Rightarrow> string \<times> int) \<Rightarrow> sockets \<Rightarrow> wgdevice \<Rightarrow> int \<times> sockets" where
  "userspace_set_device sg pr server w dev =
     (case userspace_interface_file w (name dev) of
        (Inl e, w') \<Rightarrow> (- e, w')
      | (Inr p, w') \<Rightarrow>
          (case server p (userspace_set_request pr dev) of
             (reply, err) \<Rightarrow> (userspace_set_reply sg err (getlines reply) (- EPROTO), w')))"

subsection \<open>Getting a device\<close>

record get_ctx =
  g_dev :: wgdevice
  g_peer :: "nat option"
  g_allowedip :: "nat option"
  g_ret :: int

text \<open>What becomes of a line: the next line, \<^verbatim>\<open>break\<close>, or \<^verbatim>\<open>goto err\<close> with a value of \<^verbatim>\<open>ret\<close>.\<close>

datatype get_step = Next get_ctx | Break | GotoErr int

text \<open>\<^verbatim>\<open>NUM(max)\<close>; \<open>None\<close> is its \<^verbatim>\<open>break\<close>.\<close>

definition NUM :: "env \<Rightarrow> string \<Rightarrow> nat \<Rightarrow> nat option" where
  "NUM env v mx =
     (if \<not> char_is_digit (char_int (char_signed env) (char_at v 0)) then None
      else (let (num, end) = strtoul 64 10 v in if end \<noteq> [] \<or> num > mx then None else Some num))"

text \<open>\<^verbatim>\<open>begin\<close> and \<^verbatim>\<open>end\<close> of an endpoint.\<close>

definition uapi_split_endpoint :: "string \<Rightarrow> (string \<times> string) option" where
  "uapi_split_endpoint v =
     (if v = [] then None
      else if char_at v 0 = CHR ''['' then
        (case strchr v (CHR '']'') of
           None \<Rightarrow> None
         | Some i \<Rightarrow> if char_at v (i + 1) \<noteq> CHR '':'' \<or> char_at v (i + 2) = CHR 0x00 then None
                     else Some (drop 1 (take i v), drop (i + 2) v))
      else (case strrchr v (CHR '':'') of
           None \<Rightarrow> None
         | Some i \<Rightarrow> if char_at v (i + 1) = CHR 0x00 then None else Some (take i v, drop (i + 1) v)))"

definition get_endpoint :: "env \<Rightarrow> get_ctx \<Rightarrow> string \<Rightarrow> get_step" where
  "get_endpoint env ctx v =
     (case uapi_split_endpoint v of
        None \<Rightarrow> Break
      | Some (begin, end) \<Rightarrow>
          (case gai env begin end 0 of
             GaiError e \<Rightarrow> GotoErr ENETUNREACH
           | GaiAddr SaUnspec \<Rightarrow> Break
           | GaiAddr sa \<Rightarrow> Next (ctx\<lparr> g_dev := update_peer (g_peer ctx) (\<lambda>p. p\<lparr> endpoint := sa \<rparr>) (g_dev ctx) \<rparr>)))"

definition uapi_ip :: "env \<Rightarrow> string \<Rightarrow> ip_addr" where
  "uapi_ip env t =
     (if strchr t (CHR '':'') \<noteq> None then (case inet_pton6 env t of Some a \<Rightarrow> AF_INET6 a | None \<Rightarrow> AF_UNSPEC)
      else (case inet_pton4 env t of Some a \<Rightarrow> AF_INET a | None \<Rightarrow> AF_UNSPEC))"

definition get_allowedip :: "env \<Rightarrow> get_ctx \<Rightarrow> string \<Rightarrow> get_step" where
  "get_allowedip env ctx v =
     (case strsep (CHR ''/'') v of
        (t, None) \<Rightarrow> Break
      | (t, Some m) \<Rightarrow>
          if \<not> char_is_digit (char_int (char_signed env) (char_at m 0)) then Break
          else if alloc_fails env CallocAllowedip v then GotoErr (- ENOMEM)
          else
            let addr = uapi_ip env t;
                (n, end) = strtoul (long_bits env) 10 m;
                c = (of_nat n :: u8)
            in if end \<noteq> [] \<or> addr = AF_UNSPEC \<or> (is_inet6 addr \<and> c > 128) \<or> (is_inet addr \<and> c > 32) then Break
               else Next (ctx\<lparr> g_dev := update_peer (g_peer ctx)
                           (\<lambda>p. p\<lparr> allowedips := link_after (g_allowedip ctx) \<lparr> ip = addr, cidr = c, a_flags = 0 \<rparr> (allowedips p) \<rparr>) (g_dev ctx),
                         g_allowedip := next_ptr (g_allowedip ctx) \<rparr>))"

definition get_new_peer :: "env \<Rightarrow> get_ctx \<Rightarrow> string \<Rightarrow> get_step" where
  "get_new_peer env ctx v =
     (if alloc_fails env CallocPeer v then GotoErr (- ENOMEM)
      else (case key_from_hex (public_key new_peer) v of
         (False, _) \<Rightarrow> Break
       | (True, k) \<Rightarrow>
           let peer = new_peer\<lparr> public_key := k, p_flags := set_flag WGPEER_HAS_PUBLIC_KEY (p_flags new_peer) \<rparr>
           in Next (ctx\<lparr> g_dev := (g_dev ctx)\<lparr> peers := link_after (g_peer ctx) peer (peers (g_dev ctx)) \<rparr>,
                         g_peer := next_ptr (g_peer ctx), g_allowedip := None \<rparr>)))"

text \<open>The keys of a device, while there is no peer.\<close>

definition get_device_key :: "env \<Rightarrow> (wgkey \<Rightarrow> wgkey) \<Rightarrow> get_ctx \<Rightarrow> string \<Rightarrow> string \<Rightarrow> get_step option" where
  "get_device_key env gen ctx key v =
     (if key = ''private_key'' then
        Some (case key_from_hex (private_key (g_dev ctx)) v of
           (False, _) \<Rightarrow> Break
         | (True, k) \<Rightarrow> Next (ctx\<lparr> g_dev := (g_dev ctx)\<lparr> private_key := k, d_public_key := gen k,
               d_flags := set_flag (WGDEVICE_HAS_PRIVATE_KEY OR WGDEVICE_HAS_PUBLIC_KEY) (d_flags (g_dev ctx)) \<rparr> \<rparr>))
      else if key = ''listen_port'' then
        Some (case NUM env v 0xffff of
           None \<Rightarrow> Break
         | Some n \<Rightarrow> Next (ctx\<lparr> g_dev := (g_dev ctx)\<lparr> listen_port := of_nat n,
               d_flags := set_flag WGDEVICE_HAS_LISTEN_PORT (d_flags (g_dev ctx)) \<rparr> \<rparr>))
      else if key = ''fwmark'' then
        Some (case NUM env v 0xffffffff of
           None \<Rightarrow> Break
         | Some n \<Rightarrow> Next (ctx\<lparr> g_dev := (g_dev ctx)\<lparr> fwmark := of_nat n,
               d_flags := set_flag WGDEVICE_HAS_FWMARK (d_flags (g_dev ctx)) \<rparr> \<rparr>))
      else None)"

definition get_num :: "env \<Rightarrow> get_ctx \<Rightarrow> string \<Rightarrow> nat \<Rightarrow> (nat \<Rightarrow> wgpeer \<Rightarrow> wgpeer) \<Rightarrow> get_step" where
  "get_num env ctx v mx f =
     (case NUM env v mx of None \<Rightarrow> Break | Some n \<Rightarrow> Next (ctx\<lparr> g_dev := update_peer (g_peer ctx) (f n) (g_dev ctx) \<rparr>))"

text \<open>The keys of a peer, once there is one.\<close>

definition get_peer_key :: "env \<Rightarrow> get_ctx \<Rightarrow> string \<Rightarrow> string \<Rightarrow> get_step option" where
  "get_peer_key env ctx key v =
     (if key = ''preshared_key'' then
        Some (case key_from_hex (preshared_key (peers (g_dev ctx) ! the (g_peer ctx))) v of
           (False, _) \<Rightarrow> Break
         | (True, k) \<Rightarrow> Next (ctx\<lparr> g_dev := update_peer (g_peer ctx) (\<lambda>p. p\<lparr> preshared_key := k,
               p_flags := (if key_is_zero k then p_flags p else set_flag WGPEER_HAS_PRESHARED_KEY (p_flags p)) \<rparr>) (g_dev ctx) \<rparr>))
      else if key = ''endpoint'' then Some (get_endpoint env ctx v)
      else if key = ''persistent_keepalive_interval'' then
        Some (get_num env ctx v 0xffff (\<lambda>n p. p\<lparr> persistent_keepalive_interval := of_nat n,
               p_flags := set_flag WGPEER_HAS_PERSISTENT_KEEPALIVE_INTERVAL (p_flags p) \<rparr>))
      else if key = ''allowed_ip'' then Some (get_allowedip env ctx v)
      else if key = ''last_handshake_time_sec'' then
        Some (get_num env ctx v 0x7fffffffffffffff (\<lambda>n p. p\<lparr> last_handshake_time := (last_handshake_time p)\<lparr> tv_sec := of_nat n \<rparr> \<rparr>))
      else if key = ''last_handshake_time_nsec'' then
        Some (get_num env ctx v 0x7fffffffffffffff (\<lambda>n p. p\<lparr> last_handshake_time := (last_handshake_time p)\<lparr> tv_nsec := of_nat n \<rparr> \<rparr>))
      else if key = ''rx_bytes'' then Some (get_num env ctx v 0xffffffffffffffff (\<lambda>n p. p\<lparr> rx_bytes := of_nat n \<rparr>))
      else if key = ''tx_bytes'' then Some (get_num env ctx v 0xffffffffffffffff (\<lambda>n p. p\<lparr> tx_bytes := of_nat n \<rparr>))
      else None)"

definition get_key :: "env \<Rightarrow> (wgkey \<Rightarrow> wgkey) \<Rightarrow> get_ctx \<Rightarrow> string \<Rightarrow> string \<Rightarrow> get_step" where
  "get_key env gen ctx key v =
     (case (if g_peer ctx = None then get_device_key env gen ctx key v else None) of
        Some r \<Rightarrow> r
      | None \<Rightarrow>
          if key = ''public_key'' then get_new_peer env ctx v
          else (case (if g_peer ctx \<noteq> None then get_peer_key env ctx key v else None) of
             Some r \<Rightarrow> r
           | None \<Rightarrow>
               if key = ''errno'' then (case NUM env v 0x7fffffff of None \<Rightarrow> Break | Some n \<Rightarrow> Next (ctx\<lparr> g_ret := - int n \<rparr>))
               else Next ctx))"

definition get_line :: "env \<Rightarrow> (wgkey \<Rightarrow> wgkey) \<Rightarrow> get_ctx \<Rightarrow> string \<Rightarrow> get_step" where
  "get_line env gen ctx line =
     (if line = [newline] then GotoErr (g_ret ctx)
      else (case split_line line of None \<Rightarrow> Break | Some (key, v) \<Rightarrow> get_key env gen ctx key v))"

text \<open>The loop, up to the value of \<^verbatim>\<open>ret\<close> at \<^verbatim>\<open>err\<close>.\<close>

fun get_lines :: "env \<Rightarrow> (wgkey \<Rightarrow> wgkey) \<Rightarrow> get_ctx \<Rightarrow> string list \<Rightarrow> int \<times> wgdevice" where
  "get_lines env gen ctx [] = (- EPROTO, g_dev ctx)"
| "get_lines env gen ctx (line # ls) =
     (case get_line env gen ctx (cstr line) of
        Next ctx' \<Rightarrow> get_lines env gen ctx' ls
      | Break \<Rightarrow> (- EPROTO, g_dev ctx)
      | GotoErr r \<Rightarrow> (r, g_dev ctx))"

text \<open>The return value and \<^verbatim>\<open>*out\<close>.\<close>

definition userspace_get_device ::
  "env \<Rightarrow> (wgkey \<Rightarrow> wgkey) \<Rightarrow> (string \<Rightarrow> string \<Rightarrow> string) \<Rightarrow> sockets \<Rightarrow> string \<Rightarrow> (int \<times> wgdevice option) \<times> sockets" where
  "userspace_get_device env gen server w iface =
     (if alloc_fails env CallocDevice [] then ((- ENOMEM, None), w)
      else (case userspace_interface_file w iface of
         (Inl e, w') \<Rightarrow> ((- e, None), w')
       | (Inr p, w') \<Rightarrow>
           (case get_lines env gen \<lparr> g_dev = new_device\<lparr> name := take (IFNAMSIZ - 1) iface \<rparr>, g_peer = None, g_allowedip = None, g_ret = - EPROTO \<rparr>
                  (getlines (server p (''get=1'' @ [newline, newline]))) of
              (ret, dev) \<Rightarrow> ((ret, if ret \<noteq> 0 then None else Some dev), w'))))"


section \<open>The invariant of the reader\<close>

definition get_ok :: "get_ctx \<Rightarrow> bool" where
  "get_ok ctx \<longleftrightarrow> wf_device (g_dev ctx) \<and> list_all has_public_key (peers (g_dev ctx)) \<and> ptr_ok (g_peer ctx) (peers (g_dev ctx)) \<and>
     (case g_peer ctx of None \<Rightarrow> g_allowedip ctx = None
      | Some i \<Rightarrow> ptr_ok (g_allowedip ctx) (allowedips (peers (g_dev ctx) ! i)))"

lemma get_ok_peer:
  assumes "get_ok ctx" "g_peer ctx \<noteq> None"
  obtains ps q where "peers (g_dev ctx) = ps @ [q]" "g_peer ctx = Some (length ps)" "ptr_ok (g_allowedip ctx) (allowedips q)"
    "wf_peer q" "has_public_key q"
proof -
  obtain i where i: "g_peer ctx = Some i" using assms(2) by blast
  then have "length (peers (g_dev ctx)) = i + 1" using assms(1) by (simp add: get_ok_def ptr_ok_Some)
  then obtain ps q where p: "peers (g_dev ctx) = ps @ [q]" "length ps = i" by (metis Suc_eq_plus1 length_Suc_conv_rev)
  then show ?thesis using that[of ps q] i assms(1) by (auto simp: get_ok_def wf_device_def nth_append)
qed

lemma update_peer_last:
  "peers dev = ps @ [q] \<Longrightarrow> update_peer (Some (length ps)) f dev = dev\<lparr> peers := ps @ [f q] \<rparr>"
  by (simp add: update_peer_def nth_append)

lemma get_ok_update:
  assumes "get_ok ctx" "g_peer ctx \<noteq> None"
    and "\<And>q. wf_peer q \<Longrightarrow> has_public_key q \<Longrightarrow> ptr_ok (g_allowedip ctx) (allowedips q) \<Longrightarrow> wf_peer (f q) \<and> has_public_key (f q) \<and> ptr_ok ap (allowedips (f q))"
  shows "get_ok (ctx\<lparr> g_dev := update_peer (g_peer ctx) f (g_dev ctx), g_allowedip := ap \<rparr>)"
proof -
  obtain ps q where p: "peers (g_dev ctx) = ps @ [q]" "g_peer ctx = Some (length ps)" "ptr_ok (g_allowedip ctx) (allowedips q)"
    "wf_peer q" "has_public_key q" using get_ok_peer[OF assms(1,2)] .
  have f: "wf_peer (f q)" "has_public_key (f q)" "ptr_ok ap (allowedips (f q))" using assms(3)[OF p(4,5,3)] by simp_all
  show ?thesis unfolding p(2) update_peer_last[OF p(1)]
    using assms(1) p f by (simp add: get_ok_def wf_device_def ptr_ok_Some)
qed

lemma get_ok_update_same:
  assumes "get_ok ctx" "g_peer ctx \<noteq> None"
    and "\<And>q. wf_peer q \<Longrightarrow> has_public_key q \<Longrightarrow> wf_peer (f q) \<and> has_public_key (f q) \<and> allowedips (f q) = allowedips q"
  shows "get_ok (ctx\<lparr> g_dev := update_peer (g_peer ctx) f (g_dev ctx) \<rparr>)"
proof -
  have "get_ok (ctx\<lparr> g_dev := update_peer (g_peer ctx) f (g_dev ctx), g_allowedip := g_allowedip ctx \<rparr>)"
    by (rule get_ok_update[OF assms(1,2)]) (simp add: assms(3))
  then show ?thesis by simp
qed

lemma get_num_ok:
  assumes "get_num env ctx v mx f = Next ctx'" "get_ok ctx" "g_peer ctx \<noteq> None"
    and "\<And>n q. wf_peer q \<Longrightarrow> has_public_key q \<Longrightarrow> wf_peer (f n q) \<and> has_public_key (f n q) \<and> allowedips (f n q) = allowedips q"
  shows "get_ok ctx'"
  using assms get_ok_update_same[OF assms(2,3)] by (auto simp: get_num_def split: option.splits)

lemma key_from_hex_length: "key_from_hex k0 v = (True, k) \<Longrightarrow> length k0 = WG_KEY_LEN \<Longrightarrow> length k = WG_KEY_LEN"
  by (simp add: key_from_hex_True)

lemma has_public_key_or:
  "has_public_key q \<Longrightarrow> has_public_key (q\<lparr> p_flags := set_flag m (p_flags q) \<rparr>)"
  by (simp add: has_public_key_def flag_test_or)

lemma wf_peer_updates:
  "wf_peer q \<Longrightarrow> wf_peer (q\<lparr> p_flags := fl \<rparr>)" "wf_peer q \<Longrightarrow> wf_peer (q\<lparr> endpoint := sa \<rparr>)"
  "wf_peer q \<Longrightarrow> wf_peer (q\<lparr> persistent_keepalive_interval := ka \<rparr>)" "wf_peer q \<Longrightarrow> wf_peer (q\<lparr> last_handshake_time := t \<rparr>)"
  "wf_peer q \<Longrightarrow> wf_peer (q\<lparr> rx_bytes := b \<rparr>)" "wf_peer q \<Longrightarrow> wf_peer (q\<lparr> tx_bytes := b \<rparr>)"
  "wf_peer q \<Longrightarrow> length k = WG_KEY_LEN \<Longrightarrow> wf_peer (q\<lparr> preshared_key := k \<rparr>)"
  by (simp_all add: wf_peer_def)

lemma get_allowedip_ok:
  assumes "get_allowedip env ctx v = Next ctx'" "get_ok ctx" "g_peer ctx \<noteq> None"
  shows "get_ok ctx'"
proof -
  obtain a where a: "wf_allowedip a" "ctx' = ctx\<lparr> g_dev := update_peer (g_peer ctx)
      (\<lambda>p. p\<lparr> allowedips := link_after (g_allowedip ctx) a (allowedips p) \<rparr>) (g_dev ctx), g_allowedip := next_ptr (g_allowedip ctx) \<rparr>"
  proof -
    obtain t m n e where s: "strsep (CHR ''/'') v = (t, Some m)" "strtoul (long_bits env) 10 m = (n, e)"
      using assms(1) by (cases "strsep (CHR ''/'') v"; cases "snd (strsep (CHR ''/'') v)"; cases "strtoul (long_bits env) 10 (the (snd (strsep (CHR ''/'') v)))")
        (auto simp: get_allowedip_def)
    define addr where "addr = uapi_ip env t"
    let ?a = "\<lparr> ip = addr, cidr = of_nat n, a_flags = 0 \<rparr>"
    have c: "\<not> (e \<noteq> [] \<or> addr = AF_UNSPEC \<or> (is_inet6 addr \<and> (of_nat n :: u8) > 128) \<or> (is_inet addr \<and> (of_nat n :: u8) > 32))"
      "ctx' = ctx\<lparr> g_dev := update_peer (g_peer ctx)
        (\<lambda>p. p\<lparr> allowedips := link_after (g_allowedip ctx) ?a (allowedips p) \<rparr>) (g_dev ctx), g_allowedip := next_ptr (g_allowedip ctx) \<rparr>"
      using assms(1) by (auto simp: get_allowedip_def s addr_def Let_def split: if_splits)
    have "wf_allowedip ?a" using c(1) by (cases addr) (auto simp: wf_allowedip_def not_less word_le_nat_alt)
    then show ?thesis using c(2) by (rule that)
  qed
  show ?thesis unfolding a(2)
  proof (rule get_ok_update[OF assms(2,3)])
    fix q
    assume q: "wf_peer q" "has_public_key q" "ptr_ok (g_allowedip ctx) (allowedips q)"
    have l: "link_after (g_allowedip ctx) a (allowedips q) = allowedips q @ [a]" by (rule tail.link_appends[OF q(3)])
    show "wf_peer (q\<lparr> allowedips := link_after (g_allowedip ctx) a (allowedips q) \<rparr>) \<and>
        has_public_key (q\<lparr> allowedips := link_after (g_allowedip ctx) a (allowedips q) \<rparr>) \<and>
        ptr_ok (next_ptr (g_allowedip ctx)) (allowedips (q\<lparr> allowedips := link_after (g_allowedip ctx) a (allowedips q) \<rparr>))"
      unfolding l using q a(1) tail.advance_inv[OF q(3)] by (simp add: wf_peer_def has_public_key_def)
  qed
qed

lemma get_new_peer_ok:
  assumes "get_new_peer env ctx v = Next ctx'" "get_ok ctx"
  shows "get_ok ctx'"
proof -
  obtain k where k: "key_from_hex (public_key new_peer) v = (True, k)"
    and c: "ctx' = ctx\<lparr> g_dev := (g_dev ctx)\<lparr> peers := link_after (g_peer ctx)
      (new_peer\<lparr> public_key := k, p_flags := set_flag WGPEER_HAS_PUBLIC_KEY (p_flags new_peer) \<rparr>) (peers (g_dev ctx)) \<rparr>,
      g_peer := next_ptr (g_peer ctx), g_allowedip := None \<rparr>"
    using assms(1) by (auto simp: get_new_peer_def Let_def split: if_splits prod.splits bool.splits)
  let ?q = "new_peer\<lparr> public_key := k, p_flags := set_flag WGPEER_HAS_PUBLIC_KEY (p_flags new_peer) \<rparr>"
  have "length k = WG_KEY_LEN" using key_from_hex_length[OF k] by (simp add: new_peer_def)
  then have q: "wf_peer ?q" "has_public_key ?q" "allowedips ?q = []"
    by (simp_all add: wf_peer_def has_public_key_def flag_test_or new_peer_def) (simp add: flag_defs flag_simps)
  have p: "ptr_ok (g_peer ctx) (peers (g_dev ctx))" using assms(2) by (simp add: get_ok_def)
  have i: "next_ptr (g_peer ctx) = Some (length (peers (g_dev ctx)))"
    using p by (auto simp: next_ptr_def ptr_ok_def split: option.splits)
  show ?thesis unfolding c tail.link_appends[OF p] i
    using assms(2) q by (simp add: get_ok_def wf_device_def ptr_ok_Some)
qed


lemma get_endpoint_ok:
  assumes "get_endpoint env ctx v = Next ctx'" "get_ok ctx" "g_peer ctx \<noteq> None"
  shows "get_ok ctx'"
proof -
  obtain sa where "ctx' = ctx\<lparr> g_dev := update_peer (g_peer ctx) (\<lambda>p. p\<lparr> endpoint := sa \<rparr>) (g_dev ctx) \<rparr>"
    using assms(1) by (auto simp: get_endpoint_def split: option.splits prod.splits gai_result.splits sockaddr.splits)
  then show ?thesis using get_ok_update_same[OF assms(2,3)] by (simp add: wf_peer_updates has_public_key_def)
qed

lemma get_peer_key_ok:
  assumes "get_peer_key env ctx key v = Some (Next ctx')" "get_ok ctx" "g_peer ctx \<noteq> None"
  shows "get_ok ctx'"
proof (cases "key = ''preshared_key''")
  case True
  obtain ps q where p: "peers (g_dev ctx) = ps @ [q]" "g_peer ctx = Some (length ps)" "wf_peer q" using get_ok_peer[OF assms(2,3)] by metis
  have "length (preshared_key (peers (g_dev ctx) ! the (g_peer ctx))) = WG_KEY_LEN" using p by (simp add: nth_append wf_peer_def)
  then obtain k where k: "length k = WG_KEY_LEN" "ctx' = ctx\<lparr> g_dev := update_peer (g_peer ctx) (\<lambda>p. p\<lparr> preshared_key := k,
      p_flags := (if key_is_zero k then p_flags p else set_flag WGPEER_HAS_PRESHARED_KEY (p_flags p)) \<rparr>) (g_dev ctx) \<rparr>"
    using assms(1) True by (auto simp: get_peer_key_def dest: key_from_hex_length split: prod.splits bool.splits)
  show ?thesis unfolding k(2)
    by (rule get_ok_update_same[OF assms(2,3)]) (use k(1) in \<open>auto simp: wf_peer_def has_public_key_def flag_test_or\<close>)
next
  case False
  have n: "get_ok ctx'" if "get_num env ctx v mx f = Next ctx'"
    "\<And>n q. wf_peer q \<Longrightarrow> has_public_key q \<Longrightarrow> wf_peer (f n q) \<and> has_public_key (f n q) \<and> allowedips (f n q) = allowedips q" for mx f
    by (rule get_num_ok[OF that(1) assms(2,3) that(2)])
  show ?thesis
    using assms(1) False get_endpoint_ok[OF _ assms(2,3)] get_allowedip_ok[OF _ assms(2,3)]
    by (auto simp: get_peer_key_def wf_peer_def has_public_key_def flag_test_or split: if_splits dest!: n)
qed

lemma get_device_key_ok:
  assumes "get_device_key env gen ctx key v = Some (Next ctx')" "get_ok ctx" "\<And>k. length (gen k) = WG_KEY_LEN"
  shows "get_ok ctx'"
proof -
  have "length (private_key (g_dev ctx)) = WG_KEY_LEN" using assms(2) by (simp add: get_ok_def wf_device_def)
  then show ?thesis
    using assms by (auto simp: get_device_key_def get_ok_def wf_device_def dest: key_from_hex_length
        split: if_splits option.splits prod.splits bool.splits)
qed

lemma get_key_ok:
  assumes "get_key env gen ctx key v = Next ctx'" "get_ok ctx" "\<And>k. length (gen k) = WG_KEY_LEN"
  shows "get_ok ctx'"
proof -
  have r: "get_ok (ctx\<lparr> g_ret := x \<rparr>)" for x using assms(2) by (simp add: get_ok_def split: option.splits)
  show ?thesis
    using assms(1) get_device_key_ok[OF _ assms(2,3)] get_new_peer_ok[OF _ assms(2)] get_peer_key_ok[OF _ assms(2)] r assms(2)
    by (auto simp: get_key_def split: option.splits if_splits)
qed

lemma get_lines_ok:
  "get_ok ctx \<Longrightarrow> (\<And>k. length (gen k) = WG_KEY_LEN) \<Longrightarrow> get_lines env gen ctx ls = (r, dev) \<Longrightarrow>
    wf_device dev \<and> list_all has_public_key (peers dev)"
proof (induction ls arbitrary: ctx)
  case Nil
  then show ?case by (auto simp: get_ok_def)
next
  case (Cons l ls)
  show ?case
  proof (cases "get_line env gen ctx (cstr l)")
    case (Next ctx')
    then have "get_ok ctx'"
      using get_key_ok[OF _ Cons.prems(1,2)] by (auto simp: get_line_def split: if_splits option.splits)
    then show ?thesis using Cons Next by simp
  qed (use Cons.prems in \<open>auto simp: get_ok_def\<close>)
qed

lemma get_ok_start: "get_ok \<lparr> g_dev = new_device\<lparr> name := take (IFNAMSIZ - 1) iface \<rparr>, g_peer = None, g_allowedip = None, g_ret = r \<rparr>"
  by (simp add: get_ok_def wf_device_def new_device_def)

section \<open>Properties\<close>

text \<open>\<^verbatim>\<open>errno\<close> is positive when a call has failed.\<close>

definition errno_ok :: "sockets \<Rightarrow> bool" where
  "errno_ok w \<longleftrightarrow> (\<forall>p e. sk_path w p = StatFails e \<or> sk_path w p = ConnectFails e \<longrightarrow> e > 0) \<and> sk_socket w \<ge> 0 \<and> sk_fdopen w \<ge> 0"

lemma interface_file_errno: "errno_ok w \<Longrightarrow> userspace_interface_file w iface = (Inl e, w') \<Longrightarrow> e > 0"
  by (auto simp: errno_ok_def userspace_interface_file_def EINVAL_def EBADF_def split: if_splits path_state.splits)

text \<open>C14. Whatever a userspace implementation answers: if the device is reported as read, there is a device, it is
  well-formed, with keys of 32 bytes and prefix lengths in range, each of its peers has a public key,
  and it is named after the interface. If the return value is not 0 there is no device.\<close>

theorem userspace_get_device_sound:
  assumes "\<And>k. length (gen k) = WG_KEY_LEN" "errno_ok w" "userspace_get_device env gen server w iface = ((r, out), w')"
  shows "case out of None \<Rightarrow> r \<noteq> 0 | Some dev \<Rightarrow> r = 0 \<and> wf_device dev \<and> list_all has_public_key (peers dev)"
  using assms(3) get_lines_ok[OF get_ok_start assms(1)] interface_file_errno[OF assms(2)]
  by (fastforce simp: userspace_get_device_def ENOMEM_def split: if_splits prod.splits sum.splits option.splits)

definition sample_sockets :: sockets where
  "sample_sockets = \<lparr> sk_path = (\<lambda>_. Listening), sk_socket = 0, sk_fdopen = 0, sk_run = ''/var/run'' \<rparr>"

theorem userspace_get_device_sound_witness:
  "\<exists>dev. userspace_get_device plain_env (\<lambda>_. zero_key) (\<lambda>_ _. ''errno=0'' @ [newline, newline]) sample_sockets ''wg0'' = ((0, Some dev), sample_sockets) \<and>
    wf_device dev"
proof -
  have g: "getlines (''errno=0'' @ [newline, newline]) = [''errno=0'' @ [newline], [newline]]"
    by (simp add: getlines.simps)
  have n: "NUM plain_env ''0'' 0x7fffffff = Some 0"
    by (simp add: NUM_def char_at_def strtoul_def numval_def digit_val_def)
  have u: "userspace_interface_file sample_sockets ''wg0'' = (Inr (sock_path sample_sockets ''wg0''), sample_sockets)"
    by (simp add: userspace_interface_file_def sample_sockets_def)
  have e: "userspace_get_device plain_env (\<lambda>_. zero_key) (\<lambda>_ _. ''errno=0'' @ [newline, newline]) sample_sockets ''wg0'' =
      ((0, Some (new_device\<lparr> name := ''wg0'' \<rparr>)), sample_sockets)"
    unfolding userspace_get_device_def u g
    by (simp add: plain_env_def[THEN arg_cong, of alloc_fails] get_line_def split_line_def cstr_def get_key_def get_device_key_def n)
  have "errno_ok sample_sockets" by (simp add: errno_ok_def sample_sockets_def)
  then show ?thesis using userspace_get_device_sound[OF _ _ e] e by simp
qed

text \<open>C33. The prefix length of an allowed IP is cut to 8 bits before its range is checked: any number that is small
  enough modulo 256 is accepted, \<^verbatim>\<open>280\<close> as a prefix of 24 bits.\<close>

theorem uapi_cidr_truncated:
  assumes "inet_pton4 env t = Some a" "CHR '':'' \<notin> set t" "CHR ''/'' \<notin> set t" "\<not> alloc_fails env CallocAllowedip (t @ ''/'' @ dec n)"
    and "n < 2 ^ long_bits env"
  shows "get_allowedip env ctx (t @ ''/'' @ dec n) =
    (if n mod 256 \<le> 32
     then Next (ctx\<lparr> g_dev := update_peer (g_peer ctx)
           (\<lambda>p. p\<lparr> allowedips := link_after (g_allowedip ctx) \<lparr> ip = AF_INET a, cidr = of_nat (n mod 256), a_flags = 0 \<rparr> (allowedips p) \<rparr>) (g_dev ctx),
         g_allowedip := next_ptr (g_allowedip ctx) \<rparr>)
     else Break)"
proof -
  have s: "strsep (CHR ''/'') (t @ ''/'' @ dec n) = (t, Some (dec n))" using strsep_append[OF assms(3)] by simp
  have d: "is_digit (char_at (dec n) 0)" using dec_is_digit[of "hd (dec n)" n] by (simp add: char_at_def hd_conv_nth)
  have u: "strtoul (long_bits env) 10 (dec n) = (n, [])" using strtoul_dec[of "[]" "long_bits env" n] assms(5) by simp
  have a: "uapi_ip env t = AF_INET a" using assms(1,2) by (simp add: uapi_ip_def strchr_None)
  have w: "(of_nat n :: u8) = of_nat (n mod 256)" by (rule unsigned_word_eqI[where ?'a = nat]) (simp add: unat_of_nat)
  have "(of_nat n :: u8) > 32 \<longleftrightarrow> n mod 256 > 32" by (simp add: word_less_nat_alt unat_of_nat)
  then show ?thesis
    using s d u a assms(4) w by (auto simp: get_allowedip_def)
qed

theorem uapi_cidr_truncated_witness:
  "\<exists>ctx'. get_allowedip numeric_env \<lparr> g_dev = new_device\<lparr> peers := [new_peer] \<rparr>, g_peer = Some 0, g_allowedip = None, g_ret = 0 \<rparr> (ntop4 7 @ ''/'' @ dec 280) = Next ctx' \<and>
    map cidr (allowedips (peers (g_dev ctx') ! 0)) = [24]"
proof -
  have "CHR ''/'' \<notin> set (ntop4 7)" using ntop4_text(1)[of 7] by (rule plain_text_not) (simp add: text_char_def)
  moreover have "inet_pton4 numeric_env (ntop4 7) = Some 7" by (simp add: numeric_env_def pton4_ntop4)
  moreover have "\<not> alloc_fails numeric_env CallocAllowedip x" "long_bits numeric_env = 64" for x by (simp_all add: numeric_env_def plain_env_def)
  ultimately show ?thesis
    using uapi_cidr_truncated[of numeric_env "ntop4 7" 7 280 "\<lparr> g_dev = new_device\<lparr> peers := [new_peer] \<rparr>, g_peer = Some 0, g_allowedip = None, g_ret = 0 \<rparr>"]
      ntop4_text(3)[of 7]
    by (simp add: update_peer_def link_after_def new_peer_def)
qed

text \<open>When the address of an endpoint cannot be resolved the error is returned with the wrong sign: no device, and a
  positive return value, which a caller that tests for a negative one takes for success.\<close>

lemma unreachable_endpoint:
  assumes "g_peer ctx \<noteq> None" "CHR 0x00 \<notin> set v" "uapi_split_endpoint v = Some (h, s)" "gai env h s 0 = GaiError e"
  shows "fst (get_lines env gen ctx ((''endpoint='' @ v @ [newline]) # ls)) = ENETUNREACH \<and> 0 < ENETUNREACH"
proof -
  have c: "cstr (''endpoint='' @ v @ [newline]) = ''endpoint='' @ v @ [newline]"
    unfolding cstr_def by (rule takeWhile_eq_all_conv[THEN iffD2]) (use assms(2) in auto)
  have l: "split_line (''endpoint='' @ v @ [newline]) = Some (''endpoint'', v)" by (simp add: split_line_def)
  have "get_key env gen ctx ''endpoint'' v = GotoErr ENETUNREACH"
    using assms(1,3,4) by (auto simp: get_key_def get_peer_key_def get_endpoint_def)
  then have "get_line env gen ctx (''endpoint='' @ v @ [newline]) = GotoErr ENETUNREACH" unfolding get_line_def l by simp
  then show ?thesis unfolding get_lines.simps c by (simp add: ENETUNREACH_def)
qed

end
