(* ===== verification/Uapi_Roundtrip.thy ===== *)
theory Uapi_Roundtrip
  imports Uapi
begin

text \<open>
  The two directions of the userspace protocol agree: the lines \<^verbatim>\<open>userspace_set_device\<close> writes for a device
  are read by \<^verbatim>\<open>userspace_get_device\<close> as that device.
\<close>

section \<open>Lines\<close>

text \<open>The lines of a request between the first and the last, without their newlines.\<close>

definition uapi_endpoint_lines :: "printer \<Rightarrow> sockaddr \<Rightarrow> string list" where
  "uapi_endpoint_lines pr sa = (case sa of SaUnspec \<Rightarrow> [] | _ \<Rightarrow> (case getnameinfo pr sa of
      None \<Rightarrow> []
    | Some (h, s) \<Rightarrow>
        [''endpoint'' @ CHR ''='' # (case sa of SaIn6 _ _ _ _ \<Rightarrow>
            if strchr h (CHR '':'') \<noteq> None then ''['' @ h @ '']:'' @ s else h @ '':'' @ s
          | _ \<Rightarrow> h @ '':'' @ s)]))"

definition uapi_allowedip_line :: "printer \<Rightarrow> wgallowedip \<Rightarrow> string" where
  "uapi_allowedip_line pr a = ''allowed_ip'' @ CHR ''='' # the (ip_text pr (ip a)) @ ''/'' @ dec (unat (cidr a))"

definition uapi_peer_lines :: "printer \<Rightarrow> wgpeer \<Rightarrow> string list" where
  "uapi_peer_lines pr p =
     [''public_key'' @ CHR ''='' # key_to_hex (public_key p)] @
     (if flag_test (p_flags p) WGPEER_HAS_PRESHARED_KEY then [''preshared_key'' @ CHR ''='' # key_to_hex (preshared_key p)] else []) @
     uapi_endpoint_lines pr (endpoint p) @
     (if flag_test (p_flags p) WGPEER_HAS_PERSISTENT_KEEPALIVE_INTERVAL
      then [''persistent_keepalive_interval'' @ CHR ''='' # dec (unat (persistent_keepalive_interval p))] else []) @
     (if flag_test (p_flags p) WGPEER_REPLACE_ALLOWEDIPS then [''replace_allowed_ips'' @ CHR ''='' # ''true''] else []) @
     map (uapi_allowedip_line pr) (allowedips p)"

definition uapi_device_lines :: "wgdevice \<Rightarrow> string list" where
  "uapi_device_lines d =
     (if flag_test (d_flags d) WGDEVICE_HAS_PRIVATE_KEY then [''private_key'' @ CHR ''='' # key_to_hex (private_key d)] else []) @
     (if flag_test (d_flags d) WGDEVICE_HAS_LISTEN_PORT then [''listen_port'' @ CHR ''='' # dec (unat (listen_port d))] else []) @
     (if flag_test (d_flags d) WGDEVICE_HAS_FWMARK then [''fwmark'' @ CHR ''='' # dec (unat (fwmark d))] else []) @
     (if flag_test (d_flags d) WGDEVICE_REPLACE_PEERS then [''replace_peers'' @ CHR ''='' # ''true''] else [])"

text \<open>What can be sent: nothing is to be removed, and all addresses can be written.\<close>

definition sendable_peer :: "printer \<Rightarrow> wgpeer \<Rightarrow> bool" where
  "sendable_peer pr p \<longleftrightarrow> printable_peer pr p \<and> \<not> flag_test (p_flags p) WGPEER_REMOVE_ME \<and>
     (\<forall>a \<in> set (allowedips p). \<not> flag_test (a_flags a) WGALLOWEDIP_REMOVE_ME)"

definition sendable :: "printer \<Rightarrow> wgdevice \<Rightarrow> bool" where
  "sendable pr d \<longleftrightarrow> length (private_key d) = WG_KEY_LEN \<and> list_all (sendable_peer pr) (peers d)"

lemma uapi_endpoint_unlines: "uapi_endpoint pr sa = unlines (uapi_endpoint_lines pr sa)"
  by (cases sa) (auto simp: uapi_endpoint_lines_def split: option.split)

lemma uapi_allowedip_unlines:
  "ip_text pr (ip a) \<noteq> None \<Longrightarrow> \<not> flag_test (a_flags a) WGALLOWEDIP_REMOVE_ME \<Longrightarrow> uapi_allowedip pr a = uapi_allowedip_line pr a @ [newline]"
  by (auto simp: uapi_allowedip_def uapi_allowedip_line_def)

lemma uapi_peer_unlines:
  assumes "sendable_peer pr p"
  shows "uapi_peer pr p = unlines (uapi_peer_lines pr p)"
proof -
  have "\<forall>a \<in> set (allowedips p). uapi_allowedip pr a = uapi_allowedip_line pr a @ [newline]"
    using assms uapi_allowedip_unlines by (auto simp: sendable_peer_def printable_peer_def)
  then have "concat (map (uapi_allowedip pr) (allowedips p)) = unlines (map (uapi_allowedip_line pr) (allowedips p))"
    by (simp add: comp_def cong: map_cong)
  then show ?thesis using assms by (simp add: uapi_peer_def uapi_peer_lines_def uapi_endpoint_unlines sendable_peer_def)
qed

lemma request_unlines:
  assumes "sendable pr d"
  shows "userspace_set_request pr d = ''set=1'' @ [newline] @ unlines (uapi_device_lines d @ concat (map (uapi_peer_lines pr) (peers d))) @ [newline]"
proof -
  have "concat (map (uapi_peer pr) ps) = unlines (concat (map (uapi_peer_lines pr) ps))" if "list_all (sendable_peer pr) ps" for ps
    using that by (induction ps) (simp_all add: uapi_peer_unlines)
  then show ?thesis using assms by (simp add: userspace_set_request_def uapi_device_lines_def sendable_def)
qed

section \<open>Reading\<close>

fun run :: "env \<Rightarrow> (wgkey \<Rightarrow> wgkey) \<Rightarrow> get_ctx \<Rightarrow> string list \<Rightarrow> get_ctx option" where
  "run env gen ctx [] = Some ctx"
| "run env gen ctx (l # ls) = (case get_line env gen ctx (l @ [newline]) of Next ctx' \<Rightarrow> run env gen ctx' ls | _ \<Rightarrow> None)"

lemma run_append: "run env gen ctx (ls @ ms) = (case run env gen ctx ls of Some ctx' \<Rightarrow> run env gen ctx' ms | None \<Rightarrow> None)"
  by (induction ls arbitrary: ctx) (auto split: get_step.split)

lemma get_lines_run:
  "list_all line_ok ls \<Longrightarrow> run env gen ctx ls = Some ctx' \<Longrightarrow>
    get_lines env gen ctx (map (\<lambda>l. l @ [newline]) ls @ rest) = get_lines env gen ctx' rest"
  by (induction ls arbitrary: ctx) (auto simp: cstr_line split: get_step.splits)

lemma run_key:
  assumes "CHR ''='' \<notin> set key" "get_key env gen ctx key v = Next ctx'"
  shows "run env gen ctx [key @ CHR ''='' # v] = Some ctx'"
proof -
  have s: "split_line (key @ CHR ''='' # v @ [newline]) = Some (key, v)"
    using strchr_append[OF assms(1), of "v @ [newline]"] by (simp add: split_line_def)
  have "key @ CHR ''='' # v @ [newline] \<noteq> [newline]" by (cases key) auto
  then show ?thesis using assms(2) s by (simp add: get_line_def)
qed

abbreviation pctx :: "wgdevice \<Rightarrow> wgpeer list \<Rightarrow> wgpeer \<Rightarrow> nat option \<Rightarrow> int \<Rightarrow> get_ctx" where
  "pctx d ps q ap r \<equiv> \<lparr> g_dev = d\<lparr> peers := ps @ [q] \<rparr>, g_peer = Some (length ps), g_allowedip = ap, g_ret = r \<rparr>"

lemma update_pctx: "update_peer (Some (length ps)) f (d\<lparr> peers := ps @ [q] \<rparr>) = d\<lparr> peers := ps @ [f q] \<rparr>"
  by (simp add: update_peer_def)

lemma NUM_dec: "n \<le> mx \<Longrightarrow> mx \<le> 2 ^ 64 - 1 \<Longrightarrow> NUM env (dec n) mx = Some n"
proof -
  assume a: "n \<le> mx" "mx \<le> 2 ^ 64 - 1"
  have "is_digit (char_at (dec n) 0)" using dec_is_digit[of "hd (dec n)" n] by (simp add: char_at_def hd_conv_nth)
  moreover have "strtoul 64 10 (dec n) = (n, [])" using strtoul_dec[of "[]" 64 n] a by simp
  ultimately show ?thesis using a by (simp add: NUM_def)
qed

lemma run_public_key:
  assumes "\<not> alloc_fails env CallocPeer (key_to_hex k)" "length k = WG_KEY_LEN" "ptr_ok (g_peer ctx) (peers (g_dev ctx))"
  shows "run env gen ctx [''public_key'' @ CHR ''='' # key_to_hex k] =
    Some (pctx (g_dev ctx) (peers (g_dev ctx)) (new_peer\<lparr> public_key := k, p_flags := WGPEER_HAS_PUBLIC_KEY \<rparr>) None (g_ret ctx))"
proof (rule run_key)
  have p: "next_ptr (g_peer ctx) = Some (length (peers (g_dev ctx)))"
    using assms(3) by (auto simp: next_ptr_def ptr_ok_def split: option.splits)
  have h: "key_from_hex (public_key new_peer) (key_to_hex k) = (True, k)" using assms(2) by (simp add: key_from_to_hex new_peer_def)
  have f: "set_flag WGPEER_HAS_PUBLIC_KEY (p_flags new_peer) = WGPEER_HAS_PUBLIC_KEY" by (simp add: new_peer_def)
  have "get_new_peer env ctx (key_to_hex k) =
      Next (pctx (g_dev ctx) (peers (g_dev ctx)) (new_peer\<lparr> public_key := k, p_flags := WGPEER_HAS_PUBLIC_KEY \<rparr>) None (g_ret ctx))"
    unfolding get_new_peer_def h f tail.link_appends[OF assms(3)] p using assms(1) by (cases ctx) simp
  then show "get_key env gen ctx ''public_key'' (key_to_hex k) =
      Next (pctx (g_dev ctx) (peers (g_dev ctx)) (new_peer\<lparr> public_key := k, p_flags := WGPEER_HAS_PUBLIC_KEY \<rparr>) None (g_ret ctx))"
    by (simp add: get_key_def get_device_key_def)
qed simp

lemma run_preshared_key:
  assumes "length k = WG_KEY_LEN" "length (preshared_key q) = WG_KEY_LEN"
  shows "run env gen (pctx d ps q ap r) [''preshared_key'' @ CHR ''='' # key_to_hex k] =
    Some (pctx d ps (q\<lparr> preshared_key := k, p_flags := (if key_is_zero k then p_flags q else set_flag WGPEER_HAS_PRESHARED_KEY (p_flags q)) \<rparr>) ap r)"
  by (rule run_key) (simp_all add: get_key_def get_peer_key_def key_from_to_hex assms update_pctx)

lemma run_keepalive:
  "run env gen (pctx d ps q ap r) [''persistent_keepalive_interval'' @ CHR ''='' # dec (unat (n::u16))] =
    Some (pctx d ps (q\<lparr> persistent_keepalive_interval := n, p_flags := set_flag WGPEER_HAS_PERSISTENT_KEEPALIVE_INTERVAL (p_flags q) \<rparr>) ap r)"
  using unat_u16[of n] NUM_dec[of "unat n" 65535 env]
  by (intro run_key) (simp_all add: get_key_def get_peer_key_def get_num_def update_pctx)

lemma run_unknown:
  "run env gen ctx [''replace_allowed_ips'' @ CHR ''='' # v] = Some ctx" "run env gen ctx [''replace_peers'' @ CHR ''='' # v] = Some ctx"
  by (rule run_key; simp add: get_key_def get_peer_key_def get_device_key_def)+

lemma char_at_append: "char_at (a @ b) (length a + n) = char_at b n"
  by (simp add: char_at_def)

lemma uapi_split_plain:
  assumes "plain_text h" "all_digits t"
  shows "uapi_split_endpoint (h @ '':'' @ t) = Some (h, t)" "uapi_split_endpoint (''['' @ h @ '']:'' @ t) = Some (h, t)"
proof -
  have t: "t \<noteq> []" "CHR '':'' \<notin> set t" "CHR 0x00 \<notin> set t" using assms(2) by (auto simp: all_digits_def)
  have h: "h \<noteq> []" "CHR ''['' \<notin> set h" "CHR '']'' \<notin> set h"
    using assms(1) plain_text_not[OF assms(1) text_char_not(6)] plain_text_not[OF assms(1) text_char_not(7)] by (simp_all add: plain_text_def)
  have "char_at (h @ CHR '':'' # t) 0 \<noteq> CHR ''[''" using h by (cases h) (auto simp: char_at_def)
  moreover have "char_at (h @ CHR '':'' # t) (length h + 1) \<noteq> CHR 0x00" using t by (cases t) (auto simp: char_at_def nth_append)
  ultimately show "uapi_split_endpoint (h @ '':'' @ t) = Some (h, t)"
    using strrchr_append[OF t(2), of h] by (simp add: uapi_split_endpoint_def)
  have "strchr (CHR ''['' # h @ CHR '']'' # CHR '':'' # t) (CHR '']'') = Some (length h + 1)"
    using strchr_append[of "CHR '']''" "CHR ''['' # h" "CHR '':'' # t"] h by simp
  moreover have "char_at (CHR ''['' # h @ CHR '']'' # CHR '':'' # t) (Suc (Suc (length h))) = CHR '':''"
    using char_at_append[of "CHR ''['' # h" "CHR '']'' # CHR '':'' # t" 1] by (simp add: char_at_def)
  moreover have "char_at (CHR ''['' # h @ CHR '']'' # CHR '':'' # t) (Suc (Suc (Suc (length h)))) \<noteq> CHR 0x00"
    using char_at_append[of "CHR ''['' # h" "CHR '']'' # CHR '':'' # t" 2] t by (cases t) (auto simp: char_at_def[of "CHR '']'' # _"])
  moreover have "char_at (CHR ''['' # x) 0 = CHR ''[''" for x by (simp add: char_at_def)
  ultimately show "uapi_split_endpoint (''['' @ h @ '']:'' @ t) = Some (h, t)" by (simp add: uapi_split_endpoint_def)
qed


definition uapi_reread_peer :: "printer \<Rightarrow> wgpeer \<Rightarrow> wgpeer" where
  "uapi_reread_peer pr p = new_peer\<lparr>
     p_flags := (WGPEER_HAS_PUBLIC_KEY
       OR (if flag_test (p_flags p) WGPEER_HAS_PRESHARED_KEY \<and> \<not> key_is_zero (preshared_key p) then WGPEER_HAS_PRESHARED_KEY else 0))
       OR (if flag_test (p_flags p) WGPEER_HAS_PERSISTENT_KEEPALIVE_INTERVAL then WGPEER_HAS_PERSISTENT_KEEPALIVE_INTERVAL else 0),
     public_key := public_key p,
     preshared_key := (if flag_test (p_flags p) WGPEER_HAS_PRESHARED_KEY then preshared_key p else zero_key),
     endpoint := (if uapi_endpoint_lines pr (endpoint p) = [] then SaUnspec else endpoint p),
     persistent_keepalive_interval :=
       (if flag_test (p_flags p) WGPEER_HAS_PERSISTENT_KEEPALIVE_INTERVAL then persistent_keepalive_interval p else 0),
     allowedips := map (\<lambda>a. a\<lparr> a_flags := 0 \<rparr>) (allowedips p) \<rparr>"

definition uapi_reread_device :: "printer \<Rightarrow> (wgkey \<Rightarrow> wgkey) \<Rightarrow> string \<Rightarrow> wgdevice \<Rightarrow> wgdevice" where
  "uapi_reread_device pr gen n d = new_device\<lparr> name := n,
     d_flags := ((0 OR (if flag_test (d_flags d) WGDEVICE_HAS_PRIVATE_KEY then WGDEVICE_HAS_PRIVATE_KEY OR WGDEVICE_HAS_PUBLIC_KEY else 0))
       OR (if flag_test (d_flags d) WGDEVICE_HAS_LISTEN_PORT then WGDEVICE_HAS_LISTEN_PORT else 0))
       OR (if flag_test (d_flags d) WGDEVICE_HAS_FWMARK then WGDEVICE_HAS_FWMARK else 0),
     private_key := (if flag_test (d_flags d) WGDEVICE_HAS_PRIVATE_KEY then private_key d else zero_key),
     d_public_key := (if flag_test (d_flags d) WGDEVICE_HAS_PRIVATE_KEY then gen (private_key d) else zero_key),
     listen_port := (if flag_test (d_flags d) WGDEVICE_HAS_LISTEN_PORT then listen_port d else 0),
     fwmark := (if flag_test (d_flags d) WGDEVICE_HAS_FWMARK then fwmark d else 0),
     peers := map (uapi_reread_peer pr) (peers d) \<rparr>"

lemma clean_Cons: "clean (c # v) \<longleftrightarrow> \<not> is_space c \<and> c \<noteq> CHR ''#'' \<and> c \<noteq> CHR 0x00 \<and> clean v"
  by (auto simp: clean_def)

lemma clean_line: "clean k \<Longrightarrow> clean v \<Longrightarrow> line_ok (k @ CHR ''='' # v)"
proof -
  assume a: "clean k" "clean v"
  have "clean (CHR ''='' # v)" using a(2) by (simp add: clean_def)
  then have "clean (k @ CHR ''='' # v)" using a(1) clean_append by blast
  then show "line_ok (k @ CHR ''='' # v)" by (rule clean_line_ok)
qed

lemma key_to_hex_clean: "clean (key_to_hex k)"
proof (rule clean_codes)
  fix c assume "c \<in> set (key_to_hex k)"
  then have "hex_value c \<noteq> None" by (rule key_to_hex_digits)
  then show "36 \<le> code c" by (auto split: if_splits)
qed

context config_world
begin

lemma run_endpoint:
  assumes "case sa of SaIn6 _ _ f _ \<Rightarrow> f = 0 | _ \<Rightarrow> True" "endpoint q = SaUnspec"
  shows "run env gen (pctx d ps q ap r) (uapi_endpoint_lines pr sa) =
    Some (pctx d ps (q\<lparr> endpoint := (if uapi_endpoint_lines pr sa = [] then SaUnspec else sa) \<rparr>) ap r)"
proof (cases "uapi_endpoint_lines pr sa")
  case Nil
  then show ?thesis using assms(2) by (cases q) simp
next
  case (Cons l ls)
  obtain h t where n: "getnameinfo pr sa = Some (h, t)" "sa \<noteq> SaUnspec"
    using Cons by (auto simp: uapi_endpoint_lines_def split: sockaddr.splits option.splits)
  have g: "gai env h t 0 = GaiAddr sa" "plain_text h" "all_digits t"
    using n assms(1) name4 name6 by (cases sa; auto)+
  obtain v where v: "uapi_endpoint_lines pr sa = [''endpoint'' @ CHR ''='' # v]" "uapi_split_endpoint v = Some (h, t)"
    using n uapi_split_plain[OF g(2,3)] by (cases sa) (auto simp: uapi_endpoint_lines_def)
  have "get_key env gen (pctx d ps q ap r) ''endpoint'' v = Next (pctx d ps (q\<lparr> endpoint := sa \<rparr>) ap r)"
    using v(2) g(1) n(2) by (cases sa) (simp_all add: get_key_def get_peer_key_def get_endpoint_def update_pctx)
  then show ?thesis unfolding v(1) by (subst run_key) simp_all
qed

lemma run_allowedip:
  assumes "wf_allowedip a" "ip_text pr (ip a) \<noteq> None" "ptr_ok ap (allowedips q)"
  shows "run env gen (pctx d ps q ap r) [uapi_allowedip_line pr a] =
    Some (pctx d ps (q\<lparr> allowedips := allowedips q @ [a\<lparr> a_flags := 0 \<rparr>] \<rparr>) (next_ptr ap) r)"
proof -
  obtain t where t: "ip_text pr (ip a) = Some t" using assms(2) by blast
  have T: "plain_text t" "uapi_ip env t = ip a"
    using t ntop4 ntop6 strchr_None[of t "CHR '':''"] by (cases "ip a"; force simp: uapi_ip_def)+
  let ?n = "unat (cidr a)"
  have n: "?n \<le> max_cidr (ip a)" "ip a \<noteq> AF_UNSPEC" using assms(1) by (simp_all add: wf_allowedip_def)
  have "(2::nat) ^ 33 \<le> 2 ^ long_bits env" using wide by (intro power_increasing) auto
  then have "?n \<le> 2 ^ long_bits env - 1" using n(1) max_cidr_le[of "ip a"] by simp
  then have u: "strtoul (long_bits env) 10 (dec ?n) = (?n, [])" using strtoul_dec[of "[]" "long_bits env" ?n] by simp
  have d: "is_digit (char_at (dec ?n) 0)" using dec_is_digit[of "hd (dec ?n)" ?n] by (simp add: char_at_def hd_conv_nth)
  have s: "strsep (CHR ''/'') (t @ ''/'' @ dec ?n) = (t, Some (dec ?n))"
    using strsep_append[OF plain_text_not[OF T(1) text_char_not(5)]] by simp
  have c: "\<not> (is_inet6 (ip a) \<and> cidr a > 128)" "\<not> (is_inet (ip a) \<and> cidr a > 32)"
    using n by (cases "ip a"; simp add: not_less word_le_nat_alt)+
  have "get_allowedip env (pctx d ps q ap r) (t @ ''/'' @ dec ?n) =
      Next (pctx d ps (q\<lparr> allowedips := allowedips q @ [a\<lparr> a_flags := 0 \<rparr>] \<rparr>) (next_ptr ap) r)"
    using s d u T(2) n(2) c memory tail.link_appends[OF assms(3)]
    by (cases a) (simp add: get_allowedip_def update_pctx)
  then have "get_key env gen (pctx d ps q ap r) ''allowed_ip'' (t @ ''/'' @ dec ?n) =
      Next (pctx d ps (q\<lparr> allowedips := allowedips q @ [a\<lparr> a_flags := 0 \<rparr>] \<rparr>) (next_ptr ap) r)"
    by (simp add: get_key_def get_peer_key_def)
  then show ?thesis unfolding uapi_allowedip_line_def t option.sel by (rule run_key[rotated]) simp
qed

lemma run_allowedips:
  assumes "\<forall>a \<in> set as. wf_allowedip a \<and> ip_text pr (ip a) \<noteq> None" "ptr_ok ap (allowedips q)"
  shows "\<exists>ap'. run env gen (pctx d ps q ap r) (map (uapi_allowedip_line pr) as) =
    Some (pctx d ps (q\<lparr> allowedips := allowedips q @ map (\<lambda>a. a\<lparr> a_flags := 0 \<rparr>) as \<rparr>) ap' r)"
  using assms
proof (induction "as" arbitrary: q ap)
  case (Cons a "as")
  let ?q = "q\<lparr> allowedips := allowedips q @ [a\<lparr> a_flags := 0 \<rparr>] \<rparr>"
  have 1: "run env gen (pctx d ps q ap r) [uapi_allowedip_line pr a] = Some (pctx d ps ?q (next_ptr ap) r)"
    using Cons.prems by (intro run_allowedip) auto
  have "ptr_ok (next_ptr ap) (allowedips ?q)" using tail.advance_inv[OF Cons.prems(2)] by simp
  then obtain ap' where 2: "run env gen (pctx d ps ?q (next_ptr ap) r) (map (uapi_allowedip_line pr) as) =
      Some (pctx d ps (?q\<lparr> allowedips := allowedips ?q @ map (\<lambda>a. a\<lparr> a_flags := 0 \<rparr>) as \<rparr>) ap' r)"
    using Cons.IH[of "next_ptr ap" ?q] Cons.prems(1) by auto
  show ?case using run_append[of env gen "pctx d ps q ap r" "[uapi_allowedip_line pr a]" "map (uapi_allowedip_line pr) as"] 1 2
    by (intro exI[of _ ap']) simp
qed simp

lemma run_peer:
  assumes "sendable_peer pr p" "ptr_ok (g_peer ctx) (peers (g_dev ctx))"
  shows "\<exists>ap. run env gen ctx (uapi_peer_lines pr p) = Some (pctx (g_dev ctx) (peers (g_dev ctx)) (uapi_reread_peer pr p) ap (g_ret ctx))"
proof -
  let ?d = "g_dev ctx" and ?ps = "peers (g_dev ctx)" and ?r = "g_ret ctx" and ?fl = "p_flags p"
  have P: "wf_peer p" "\<forall>a \<in> set (allowedips p). wf_allowedip a \<and> ip_text pr (ip a) \<noteq> None" "case endpoint p of SaIn6 _ _ f _ \<Rightarrow> f = 0 | _ \<Rightarrow> True"
    using assms(1) by (auto simp: sendable_peer_def printable_peer_def wf_peer_def list_all_iff)
  have K: "length (public_key p) = WG_KEY_LEN" "length (preshared_key p) = WG_KEY_LEN" using P(1) by (simp_all add: wf_peer_def)
  define q1 where "q1 = new_peer\<lparr> public_key := public_key p, p_flags := WGPEER_HAS_PUBLIC_KEY \<rparr>"
  define q2 where "q2 = (if flag_test ?fl WGPEER_HAS_PRESHARED_KEY then q1\<lparr> preshared_key := preshared_key p,
      p_flags := (if key_is_zero (preshared_key p) then p_flags q1 else set_flag WGPEER_HAS_PRESHARED_KEY (p_flags q1)) \<rparr> else q1)"
  define q3 where "q3 = q2\<lparr> endpoint := (if uapi_endpoint_lines pr (endpoint p) = [] then SaUnspec else endpoint p) \<rparr>"
  define q4 where "q4 = (if flag_test ?fl WGPEER_HAS_PERSISTENT_KEEPALIVE_INTERVAL then q3\<lparr> persistent_keepalive_interval := persistent_keepalive_interval p,
      p_flags := set_flag WGPEER_HAS_PERSISTENT_KEEPALIVE_INTERVAL (p_flags q3) \<rparr> else q3)"
  have e: "q4\<lparr> allowedips := allowedips q4 @ map (\<lambda>a. a\<lparr> a_flags := 0 \<rparr>) (allowedips p) \<rparr> = uapi_reread_peer pr p"
    by (simp add: q4_def q3_def q2_def q1_def uapi_reread_peer_def new_peer_def)
  have 1: "run env gen ctx [''public_key'' @ CHR ''='' # key_to_hex (public_key p)] = Some (pctx ?d ?ps q1 None ?r)"
    unfolding q1_def using memory K(1) assms(2) by (intro run_public_key) auto
  have 2: "run env gen (pctx ?d ?ps q1 None ?r) (if flag_test ?fl WGPEER_HAS_PRESHARED_KEY
      then [''preshared_key'' @ CHR ''='' # key_to_hex (preshared_key p)] else []) = Some (pctx ?d ?ps q2 None ?r)"
    using run_preshared_key[OF K(2), of q1] by (simp add: q2_def q1_def new_peer_def)
  have 3: "run env gen (pctx ?d ?ps q2 None ?r) (uapi_endpoint_lines pr (endpoint p)) = Some (pctx ?d ?ps q3 None ?r)"
    unfolding q3_def by (rule run_endpoint[OF P(3)]) (simp add: q2_def q1_def new_peer_def)
  have 4: "run env gen (pctx ?d ?ps q3 None ?r) (if flag_test ?fl WGPEER_HAS_PERSISTENT_KEEPALIVE_INTERVAL
      then [''persistent_keepalive_interval'' @ CHR ''='' # dec (unat (persistent_keepalive_interval p))] else []) = Some (pctx ?d ?ps q4 None ?r)"
    using run_keepalive[where n = "persistent_keepalive_interval p" and q = q3] by (simp add: q4_def)
  have 5: "run env gen (pctx ?d ?ps q4 None ?r) (if flag_test ?fl WGPEER_REPLACE_ALLOWEDIPS
      then [''replace_allowed_ips'' @ CHR ''='' # ''true''] else []) = Some (pctx ?d ?ps q4 None ?r)"
    using run_unknown(1)[of env gen "pctx ?d ?ps q4 None ?r" "''true''"] by simp
  have "allowedips q4 = []" by (simp add: q4_def q3_def q2_def q1_def new_peer_def)
  then obtain ap where 6: "run env gen (pctx ?d ?ps q4 None ?r) (map (uapi_allowedip_line pr) (allowedips p)) =
      Some (pctx ?d ?ps (uapi_reread_peer pr p) ap ?r)"
    using run_allowedips[OF P(2), where ap = None and q = q4 and gen = gen and d = ?d and ps = ?ps and r = ?r] unfolding e by auto
  show ?thesis unfolding uapi_peer_lines_def run_append 1 2 3 4 5 6 option.case by blast
qed

lemma run_peers:
  assumes "list_all (sendable_peer pr) ps" "ptr_ok (g_peer ctx) (peers (g_dev ctx))"
  shows "\<exists>pp ap. run env gen ctx (concat (map (uapi_peer_lines pr) ps)) =
    Some (ctx\<lparr> g_dev := (g_dev ctx)\<lparr> peers := peers (g_dev ctx) @ map (uapi_reread_peer pr) ps \<rparr>, g_peer := pp, g_allowedip := ap \<rparr>)"
  using assms
proof (induction ps arbitrary: ctx)
  case Nil
  have "ctx\<lparr> g_dev := (g_dev ctx)\<lparr> peers := peers (g_dev ctx) @ [] \<rparr>, g_peer := g_peer ctx, g_allowedip := g_allowedip ctx \<rparr> = ctx" by simp
  then show ?case by (metis concat.simps(1) list.map(1) run.simps(1))
next
  case (Cons p ps)
  let ?d = "g_dev ctx" and ?ps = "peers (g_dev ctx)"
  obtain ap where 1: "run env gen ctx (uapi_peer_lines pr p) = Some (pctx ?d ?ps (uapi_reread_peer pr p) ap (g_ret ctx))"
    using run_peer[of p ctx gen] Cons.prems by auto
  let ?c = "pctx ?d ?ps (uapi_reread_peer pr p) ap (g_ret ctx)"
  have "ptr_ok (g_peer ?c) (peers (g_dev ?c))" by (simp add: ptr_ok_Some)
  then obtain pp ap' where 2: "run env gen ?c (concat (map (uapi_peer_lines pr) ps)) =
      Some (?c\<lparr> g_dev := (g_dev ?c)\<lparr> peers := peers (g_dev ?c) @ map (uapi_reread_peer pr) ps \<rparr>, g_peer := pp, g_allowedip := ap' \<rparr>)"
    using Cons.IH[of ?c] Cons.prems(1) by auto
  have "run env gen ctx (concat (map (uapi_peer_lines pr) (p # ps))) =
      Some (?c\<lparr> g_dev := (g_dev ?c)\<lparr> peers := peers (g_dev ?c) @ map (uapi_reread_peer pr) ps \<rparr>, g_peer := pp, g_allowedip := ap' \<rparr>)"
    using run_append[of env gen ctx "uapi_peer_lines pr p" "concat (map (uapi_peer_lines pr) ps)"] 1 2 by simp
  also have "?c\<lparr> g_dev := (g_dev ?c)\<lparr> peers := peers (g_dev ?c) @ map (uapi_reread_peer pr) ps \<rparr>, g_peer := pp, g_allowedip := ap' \<rparr> =
      ctx\<lparr> g_dev := ?d\<lparr> peers := ?ps @ map (uapi_reread_peer pr) (p # ps) \<rparr>, g_peer := pp, g_allowedip := ap' \<rparr>"
    by simp
  finally show ?case by blast
qed

lemma uapi_endpoint_line_ok:
  assumes "case sa of SaIn6 _ _ f _ \<Rightarrow> f = 0 | _ \<Rightarrow> True"
  shows "list_all line_ok (uapi_endpoint_lines pr sa)"
proof (cases "uapi_endpoint_lines pr sa")
  case (Cons l ls)
  obtain h t where n: "getnameinfo pr sa = Some (h, t)" "sa \<noteq> SaUnspec"
    using Cons by (auto simp: uapi_endpoint_lines_def split: sockaddr.splits option.splits)
  have "plain_text h" "all_digits t" using n assms name4 name6 by (cases sa; auto)+
  then have c: "clean h" "clean t" "clean (CHR '']'' # CHR '':'' # t)" "clean (CHR '':'' # t)"
    using plain_clean all_digits_clean by (simp_all add: clean_Cons)
  have "line_ok (''endpoint'' @ CHR ''='' # v)" if "clean v" for v by (rule clean_line[OF _ that]) (simp add: clean_def)
  moreover have "clean (CHR ''['' # h @ CHR '']'' # CHR '':'' # t)" "clean (h @ CHR '':'' # t)" using c by (simp_all add: clean_Cons)
  ultimately show ?thesis using n by (cases sa) (simp_all add: uapi_endpoint_lines_def)
qed simp

lemma uapi_peer_lines_ok:
  assumes "sendable_peer pr p"
  shows "list_all line_ok (uapi_peer_lines pr p)"
proof -
  have P: "\<forall>a \<in> set (allowedips p). ip_text pr (ip a) \<noteq> None" "case endpoint p of SaIn6 _ _ f _ \<Rightarrow> f = 0 | _ \<Rightarrow> True"
    using assms by (auto simp: sendable_peer_def printable_peer_def)
  have "line_ok (uapi_allowedip_line pr a)" if m: "a \<in> set (allowedips p)" for a
  proof -
    obtain t where t: "ip_text pr (ip a) = Some t" using bspec[OF P(1) m] by (cases "ip_text pr (ip a)") simp_all
    have "clean (t @ ''/'' @ dec (unat (cidr a)))"
      using plain_clean[OF ip_text_reads(2)[OF t]] numstr_clean[of 10 "unat (cidr a)"] by (simp add: clean_Cons)
    then show ?thesis unfolding uapi_allowedip_line_def t option.sel by (rule clean_line[rotated]) (simp add: clean_Cons clean_def[of "[]"])
  qed
  moreover have k: "line_ok (''public_key'' @ CHR ''='' # key_to_hex k)" "line_ok (''preshared_key'' @ CHR ''='' # key_to_hex k)" for k
    by (rule clean_line[OF _ key_to_hex_clean]; simp add: clean_def)+
  moreover have "line_ok (''persistent_keepalive_interval'' @ CHR ''='' # dec n)" for n
    by (rule clean_line) (simp_all add: clean_def[of "''persistent_keepalive_interval''"] numstr_clean)
  moreover have "line_ok (''replace_allowed_ips'' @ CHR ''='' # ''true'')" by (simp add: line_ok_def)
  ultimately show ?thesis
    using uapi_endpoint_line_ok[OF P(2)] unfolding uapi_peer_lines_def by (simp only: list_all_append split: if_split) (simp add: list_all_iff)
qed

lemma uapi_device_lines_ok: "list_all line_ok (uapi_device_lines d)"
proof -
  have "line_ok (''private_key'' @ CHR ''='' # key_to_hex k)" for k by (rule clean_line[OF _ key_to_hex_clean]) (simp add: clean_def)
  moreover have "line_ok (''listen_port'' @ CHR ''='' # dec n)" "line_ok (''fwmark'' @ CHR ''='' # dec n)" for n
    by (rule clean_line; simp add: clean_def[of "''listen_port''"] clean_def[of "''fwmark''"] numstr_clean)+
  moreover have "line_ok (''replace_peers'' @ CHR ''='' # ''true'')" by (simp add: line_ok_def)
  ultimately show ?thesis unfolding uapi_device_lines_def by (simp only: list_all_append split: if_split) (simp add: list_all_iff)
qed

lemma run_device:
  assumes "length (private_key d) = WG_KEY_LEN"
  shows "run env gen \<lparr> g_dev = new_device\<lparr> name := n \<rparr>, g_peer = None, g_allowedip = None, g_ret = r \<rparr> (uapi_device_lines d) =
    Some \<lparr> g_dev = (uapi_reread_device pr gen n d)\<lparr> peers := [] \<rparr>, g_peer = None, g_allowedip = None, g_ret = r \<rparr>"
proof -
  let ?c = "\<lambda>d. \<lparr> g_dev = d, g_peer = None, g_allowedip = None, g_ret = r \<rparr>" and ?fl = "d_flags d"
  define d0 where "d0 = new_device\<lparr> name := n \<rparr>"
  define d1 where "d1 = (if flag_test ?fl WGDEVICE_HAS_PRIVATE_KEY then d0\<lparr> private_key := private_key d, d_public_key := gen (private_key d),
      d_flags := set_flag (WGDEVICE_HAS_PRIVATE_KEY OR WGDEVICE_HAS_PUBLIC_KEY) (d_flags d0) \<rparr> else d0)"
  define d2 where "d2 = (if flag_test ?fl WGDEVICE_HAS_LISTEN_PORT then d1\<lparr> listen_port := listen_port d,
      d_flags := set_flag WGDEVICE_HAS_LISTEN_PORT (d_flags d1) \<rparr> else d1)"
  define d3 where "d3 = (if flag_test ?fl WGDEVICE_HAS_FWMARK then d2\<lparr> fwmark := fwmark d,
      d_flags := set_flag WGDEVICE_HAS_FWMARK (d_flags d2) \<rparr> else d2)"
  have e: "d3 = (uapi_reread_device pr gen n d)\<lparr> peers := [] \<rparr>"
    by (simp add: d3_def d2_def d1_def d0_def uapi_reread_device_def new_device_def)
  have 1: "run env gen (?c d0) (if flag_test ?fl WGDEVICE_HAS_PRIVATE_KEY then [''private_key'' @ CHR ''='' # key_to_hex (private_key d)] else []) = Some (?c d1)"
  proof (cases "flag_test ?fl WGDEVICE_HAS_PRIVATE_KEY")
    case True
    have "length (private_key d0) = WG_KEY_LEN" by (simp add: d0_def new_device_def)
    then have "get_key env gen (?c d0) ''private_key'' (key_to_hex (private_key d)) = Next (?c d1)"
      using assms True by (simp add: get_key_def get_device_key_def key_from_to_hex d1_def)
    then show ?thesis using True run_key[of "''private_key''"] by simp
  qed (simp add: d1_def)
  have 2: "run env gen (?c d1) (if flag_test ?fl WGDEVICE_HAS_LISTEN_PORT then [''listen_port'' @ CHR ''='' # dec (unat (listen_port d))] else []) = Some (?c d2)"
  proof (cases "flag_test ?fl WGDEVICE_HAS_LISTEN_PORT")
    case True
    have "get_key env gen (?c d1) ''listen_port'' (dec (unat (listen_port d))) = Next (?c d2)"
      using unat_u16[of "listen_port d"] NUM_dec[of "unat (listen_port d)" 65535 env] True by (simp add: get_key_def get_device_key_def d2_def)
    then show ?thesis using True run_key[of "''listen_port''"] by simp
  qed (simp add: d2_def)
  have 3: "run env gen (?c d2) (if flag_test ?fl WGDEVICE_HAS_FWMARK then [''fwmark'' @ CHR ''='' # dec (unat (fwmark d))] else []) = Some (?c d3)"
  proof (cases "flag_test ?fl WGDEVICE_HAS_FWMARK")
    case True
    have "get_key env gen (?c d2) ''fwmark'' (dec (unat (fwmark d))) = Next (?c d3)"
      using unat_u32[of "fwmark d"] NUM_dec[of "unat (fwmark d)" 4294967295 env] True by (simp add: get_key_def get_device_key_def d3_def)
    then show ?thesis using True run_key[of "''fwmark''"] by simp
  qed (simp add: d3_def)
  have 4: "run env gen (?c d3) (if flag_test ?fl WGDEVICE_REPLACE_PEERS then [''replace_peers'' @ CHR ''='' # ''true''] else []) = Some (?c d3)"
    using run_unknown(2)[of env gen "?c d3" "''true''"] by simp
  show ?thesis unfolding uapi_device_lines_def run_append d0_def[symmetric] 1 2 3 4 option.case unfolding e ..
qed

lemma uapi_reads:
  assumes "sendable pr d"
  shows "get_lines env gen \<lparr> g_dev = new_device\<lparr> name := n \<rparr>, g_peer = None, g_allowedip = None, g_ret = r \<rparr>
      (getlines (unlines (uapi_device_lines d @ concat (map (uapi_peer_lines pr) (peers d))) @ ''errno=0'' @ [newline, newline])) =
    (0, uapi_reread_device pr gen n d)"
proof -
  let ?ls = "uapi_device_lines d @ concat (map (uapi_peer_lines pr) (peers d))"
  let ?c0 = "\<lparr> g_dev = new_device\<lparr> name := n \<rparr>, g_peer = None, g_allowedip = None, g_ret = r \<rparr>"
  let ?c1 = "\<lparr> g_dev = (uapi_reread_device pr gen n d)\<lparr> peers := [] \<rparr>, g_peer = None, g_allowedip = None, g_ret = r \<rparr>"
  have s: "length (private_key d) = WG_KEY_LEN" "list_all (sendable_peer pr) (peers d)" using assms by (simp_all add: sendable_def)
  have "list_all line_ok (concat (map (uapi_peer_lines pr) ps))" if "list_all (sendable_peer pr) ps" for ps
    using that uapi_peer_lines_ok by (induction ps) auto
  then have ok: "list_all line_ok ?ls" using s(2) uapi_device_lines_ok by simp
  obtain pp ap where p: "run env gen ?c1 (concat (map (uapi_peer_lines pr) (peers d))) =
      Some (?c1\<lparr> g_dev := (g_dev ?c1)\<lparr> peers := peers (g_dev ?c1) @ map (uapi_reread_peer pr) (peers d) \<rparr>, g_peer := pp, g_allowedip := ap \<rparr>)"
    using run_peers[OF s(2), of ?c1 gen] by auto
  let ?c2 = "\<lparr> g_dev = uapi_reread_device pr gen n d, g_peer = pp, g_allowedip = ap, g_ret = r \<rparr>"
  have r: "run env gen ?c0 ?ls = Some ?c2"
    unfolding run_append run_device[OF s(1)] option.case p by (simp add: uapi_reread_device_def)
  have nl: "\<forall>l \<in> set (?ls @ [''errno=0'', []]). newline \<notin> set l" using ok by (auto simp: list_all_iff line_ok_def)
  have "unlines ?ls @ ''errno=0'' @ [newline, newline] = unlines (?ls @ [''errno=0'', []])" by simp
  then have g: "getlines (unlines ?ls @ ''errno=0'' @ [newline, newline]) = map (\<lambda>l. l @ [newline]) ?ls @ [''errno=0'' @ [newline], [newline]]"
    using getlines_concat[OF nl] by simp
  have k: "get_key env gen ?c2 ''errno'' ''0'' = Next (?c2\<lparr> g_ret := 0 \<rparr>)"
    using NUM_dec[of 0 2147483647 env] by (auto simp: get_key_def get_device_key_def get_peer_key_def numstr.simps digit_char_def char_of_def bit_iff_odd)
  have "get_lines env gen ?c2 [''errno=0'' @ [newline], [newline]] = (0, uapi_reread_device pr gen n d)"
    using k by (simp add: cstr_def get_line_def split_line_def)
  then show ?thesis unfolding g get_lines_run[OF ok r] .
qed

end


text \<open>C7. The two directions of the protocol agree: an implementation that answers a query with the lines it was
  last sent, and no error, is read as the device that was sent, for every device from which nothing
  is to be removed. The hypotheses are those on the text of addresses.\<close>

theorem uapi_set_get_roundtrip:
  assumes "config_world env pr" "sendable pr d" "userspace_interface_file w iface = (Inr p, w')"
    and "userspace_set_request pr d = ''set=1'' @ [newline] @ body @ [newline]"
    and "server p (''get=1'' @ [newline, newline]) = body @ ''errno=0'' @ [newline, newline]"
  shows "userspace_get_device env gen server w iface = ((0, Some (uapi_reread_device pr gen (take (IFNAMSIZ - 1) iface) d)), w')"
proof -
  have "body = unlines (uapi_device_lines d @ concat (map (uapi_peer_lines pr) (peers d)))"
    using assms(4) request_unlines[OF assms(2)] by simp
  then show ?thesis
    using config_world.uapi_reads[OF assms(1,2)] assms(3,5) config_world.memory[OF assms(1)] by (simp add: userspace_get_device_def)
qed

theorem uapi_set_get_roundtrip_witness:
  "\<exists>body. userspace_set_request numeric_printer sample_device = ''set=1'' @ [newline] @ body @ [newline] \<and>
    fst (userspace_get_device numeric_env id (\<lambda>_ _. body @ ''errno=0'' @ [newline, newline]) sample_sockets ''wg0'') =
      (0, Some (uapi_reread_device numeric_printer id ''wg0'' sample_device))"
proof -
  have s: "sendable numeric_printer sample_device"
    by (simp add: sendable_def sendable_peer_def printable_peer_def sample_device_def wf_peer_def wf_allowedip_def new_device_def
        new_peer_def numeric_printer_def)
  have u: "userspace_interface_file sample_sockets ''wg0'' = (Inr (sock_path sample_sockets ''wg0''), sample_sockets)"
    by (simp add: userspace_interface_file_def sample_sockets_def)
  note r = request_unlines[OF s]
  show ?thesis
    using r uapi_set_get_roundtrip[OF numeric.config_world_axioms s u r, of "\<lambda>_ _. _ @ ''errno=0'' @ [newline, newline]" id]
    by fastforce
qed

end
