(* ===== verification/Terminal.thy ===== *)
theory Terminal
  imports Uapi_Roundtrip
begin

text \<open>
  Model of \<^verbatim>\<open>wireguard-tools/src/terminal.c\<close>: \<^verbatim>\<open>filter_ansi\<close> blanks the escape sequences of the formatted text with
  NUL bytes in place and prints what is left between them.
\<close>

section \<open>Model\<close>

abbreviation NUL :: char where "NUL \<equiv> CHR 0x00"
abbreviation ESC :: char where "ESC \<equiv> CHR 0x1B"

text \<open>\<^verbatim>\<open>color_mode\<close>, from the environment variable and whether standard output is a terminal.\<close>

definition color_mode :: "string option \<Rightarrow> bool \<Rightarrow> bool" where
  "color_mode var tty =
     (if var = Some ''always'' then True else if var = Some ''never'' then False else tty)"

text \<open>The loop over \<^verbatim>\<open>j\<close> and the assignment behind it.\<close>

function ansi_clear :: "bool \<Rightarrow> string \<Rightarrow> nat \<Rightarrow> string" where
  "ansi_clear sg str j =
     (if j < length str then
        if char_is_alpha (char_int sg (str ! j)) then str[j := NUL] else ansi_clear sg (str[j := NUL]) (j + 1)
      else str)"
  by pat_completeness auto
termination
  by (relation "measure (\<lambda>(sg, str, j). length str - j)") auto

declare ansi_clear.simps [simp del]

definition ansi_step :: "bool \<Rightarrow> nat \<Rightarrow> string \<Rightarrow> string" where
  "ansi_step sg i str =
     (if str ! i = ESC \<and> str ! (i + 1) = CHR ''['' then ansi_clear sg (str[i := NUL, i + 1 := NUL]) (i + 2) else str)"

text \<open>The second loop: print up to a NUL, then skip NULs.\<close>

definition skip_nul :: "string \<Rightarrow> nat \<Rightarrow> nat" where
  "skip_nul str j = j + length (takeWhile (\<lambda>c. c = NUL) (drop j str))"

function ansi_print :: "string \<Rightarrow> nat \<Rightarrow> string" where
  "ansi_print str i =
     (if i < length str then cstr (drop i str) @ ansi_print str (skip_nul str (i + length (cstr (drop i str)))) else [])"
  by pat_completeness auto
termination
proof (relation "measure (\<lambda>(str, i). length str - i)")
  fix str :: string and i
  assume i: "i < length str"
  have "i < skip_nul str (i + length (cstr (drop i str)))"
  proof (cases "str ! i = NUL")
    case True
    then have "drop i str = NUL # drop (i + 1) str" using i by (simp add: Cons_nth_drop_Suc[symmetric])
    then show ?thesis by (simp add: cstr_def skip_nul_def)
  next
    case False
    then have "drop i str = str ! i # drop (i + 1) str" using i by (simp add: Cons_nth_drop_Suc)
    then show ?thesis using False by (simp add: cstr_def skip_nul_def)
  qed
  then show "((str, skip_nul str (i + length (cstr (drop i str)))), str, i) \<in> measure (\<lambda>(str, i). length str - i)"
    using i by simp
qed simp

declare ansi_print.simps [simp del]

definition filter_ansi :: "bool \<Rightarrow> bool \<Rightarrow> string \<Rightarrow> string" where
  "filter_ansi sg color str =
     (if color then str
      else ansi_print (if length str \<ge> 2 then fold (ansi_step sg) [0..<length str - 2] str else str) 0)"

section \<open>What is printed\<close>

definition letter :: "char \<Rightarrow> bool" where
  "letter c \<longleftrightarrow> is_alpha c"

lemma char_is_alpha_letter: "char_is_alpha (char_int sg c) \<longleftrightarrow> letter c"
  unfolding letter_def by (rule char_is_alpha_iff)

declare char_is_alpha_iff [simp del]

text \<open>The text without its escape sequences: from \<^verbatim>\<open>ESC [\<close> to the next letter.\<close>

function strip_ansi :: "string \<Rightarrow> string" where
  "strip_ansi s =
     (if 2 < length s \<and> s ! 0 = ESC \<and> s ! 1 = CHR ''[''
      then strip_ansi (tl (dropWhile (\<lambda>c. \<not> letter c) (drop 2 s)))
      else case s of [] \<Rightarrow> [] | c # cs \<Rightarrow> c # strip_ansi cs)"
  by pat_completeness auto
termination
proof (relation "measure length")
  fix s :: string
  assume a: "2 < length s \<and> s ! 0 = ESC \<and> s ! 1 = CHR ''[''"
  have "length (dropWhile (\<lambda>c. \<not> letter c) (drop 2 s)) \<le> length (drop 2 s)" by (rule length_dropWhile_le)
  then show "(tl (dropWhile (\<lambda>c. \<not> letter c) (drop 2 s)), s) \<in> measure length"
    using a by (simp only: in_measure length_tl length_drop) linarith
qed auto

declare strip_ansi.simps [simp del]

lemma ansi_clear_run:
  "j \<le> length str \<Longrightarrow>
   ansi_clear sg str j = take j str @ replicate (length (drop j str) - length (tl (dropWhile (\<lambda>c. \<not> letter c) (drop j str)))) NUL @
     tl (dropWhile (\<lambda>c. \<not> letter c) (drop j str))"
proof (induction sg str j rule: ansi_clear.induct)
  case (1 sg str j)
  show ?case
  proof (cases "j < length str")
    case True
    then have d: "drop j str = str ! j # drop (j + 1) str" by (simp add: Cons_nth_drop_Suc)
    show ?thesis
    proof (cases "letter (str ! j)")
      case al: True
      then have "ansi_clear sg str j = str[j := NUL]" using True by (subst ansi_clear.simps) (simp add: char_is_alpha_letter)
      then show ?thesis unfolding d using True al by (cases "length str") (simp_all add: upd_conv_take_nth_drop)
    next
      case False
      let ?s = "str[j := NUL]" and ?t = "tl (dropWhile (\<lambda>c. \<not> letter c) (drop (j + 1) str))"
      have t: "tl (dropWhile (\<lambda>c. \<not> letter c) (drop j str)) = ?t" unfolding d using False by simp
      have le: "length ?t \<le> length (drop (j + 1) str)" using length_dropWhile_le[of "\<lambda>c. \<not> letter c" "drop (j + 1) str"] by simp
      have "ansi_clear sg str j = ansi_clear sg ?s (j + 1)" using True False by (subst ansi_clear.simps) (simp add: char_is_alpha_letter)
      also have "\<dots> = take (j + 1) ?s @ replicate (length (drop (j + 1) ?s) - length (tl (dropWhile (\<lambda>c. \<not> letter c) (drop (j + 1) ?s)))) NUL @
          tl (dropWhile (\<lambda>c. \<not> letter c) (drop (j + 1) ?s))"
        using True False by (intro 1) (simp_all add: char_is_alpha_letter)
      also have "drop (j + 1) ?s = drop (j + 1) str" by simp
      also have "take (j + 1) ?s = take j str @ [NUL]" using True by (simp add: take_Suc_conv_app_nth)
      finally have "ansi_clear sg str j = take j str @ NUL # replicate (length (drop (j + 1) str) - length ?t) NUL @ ?t" by simp
      moreover have "length (drop j str) - length ?t = Suc (length (drop (j + 1) str) - length ?t)"
        using le by (simp add: d del: length_drop)
      ultimately show ?thesis unfolding t by simp
    qed
  next
    case False
    then show ?thesis using 1 by (subst ansi_clear.simps) (simp add: char_is_alpha_letter)
  qed
qed


definition visible :: "string \<Rightarrow> string" where
  "visible s = filter (\<lambda>c. c \<noteq> NUL) s"

lemma visible_simps [simp]:
  "visible [] = []" "visible (c # s) = (if c = NUL then visible s else c # visible s)" "visible (a @ b) = visible a @ visible b"
  "visible (replicate k NUL) = []"
  by (simp_all add: visible_def)

lemma visible_id: "NUL \<notin> set s \<Longrightarrow> visible s = s"
  by (auto simp: visible_def filter_id_conv)

text \<open>The second loop prints the bytes that are not NUL.\<close>

lemma visible_cstr: "visible s = cstr s @ visible (drop (length (cstr s)) s)"
proof -
  have s: "cstr s @ drop (length (cstr s)) s = s" unfolding cstr_def dropWhile_eq_drop[symmetric] by (rule takeWhile_dropWhile_id)
  have n: "NUL \<notin> set (cstr s)" by (auto simp: cstr_def dest: set_takeWhileD)
  have "visible (cstr s @ drop (length (cstr s)) s) = cstr s @ visible (drop (length (cstr s)) s)"
    unfolding visible_simps(3) visible_id[OF n] ..
  then show ?thesis unfolding s .
qed

lemma visible_skip: "visible (drop (skip_nul str j) str) = visible (drop j str)"
proof -
  let ?P = "\<lambda>c. c = NUL"
  have "visible (takeWhile ?P (drop j str)) = []" by (auto simp: visible_def filter_empty_conv dest: set_takeWhileD)
  then have "visible (takeWhile ?P (drop j str) @ dropWhile ?P (drop j str)) = visible (dropWhile ?P (drop j str))"
    unfolding visible_simps(3) by simp
  then have "visible (drop j str) = visible (dropWhile ?P (drop j str))" unfolding takeWhile_dropWhile_id .
  then show ?thesis by (simp add: skip_nul_def dropWhile_eq_drop add.commute)
qed

lemma ansi_print_visible: "ansi_print str i = visible (drop i str)"
proof (induction str i rule: ansi_print.induct)
  case (1 str i)
  show ?case
  proof (cases "i < length str")
    case True
    let ?j = "i + length (cstr (drop i str))"
    have "ansi_print str i = cstr (drop i str) @ visible (drop (skip_nul str ?j) str)"
      using True 1 by (subst ansi_print.simps) simp
    also have "\<dots> = cstr (drop i str) @ visible (drop (length (cstr (drop i str))) (drop i str))"
      unfolding visible_skip by (simp add: add.commute)
    also have "\<dots> = visible (drop i str)" by (rule visible_cstr[symmetric])
    finally show ?thesis .
  qed (subst ansi_print.simps, simp)
qed

text \<open>The first loop, from an index on: behind the NULs of a sequence the text is still as it was.\<close>

lemma strip_ansi_short:
  assumes "length s \<le> 2"
  shows "strip_ansi s = s"
proof -
  have 0: "strip_ansi [] = []" by (subst strip_ansi.simps) simp
  have 1: "strip_ansi [a] = [a]" for a by (subst strip_ansi.simps) (simp add: 0)
  have 2: "strip_ansi [a, b] = [a, b]" for a b by (subst strip_ansi.simps) (simp add: 1)
  consider "s = []" | a where "s = [a]" | a b where "s = [a, b]"
    using assms by (cases s; cases "tl s"; cases "tl (tl s)") auto
  then show ?thesis by cases (simp_all add: 0 1 2)
qed

lemma strip_ansi_keep: "\<not> (2 < length (c # cs) \<and> c = ESC \<and> cs ! 0 = CHR ''['') \<Longrightarrow> strip_ansi (c # cs) = c # strip_ansi cs"
  by (subst strip_ansi.simps) auto

lemma strip_ansi_drop: "2 < length s \<Longrightarrow> s ! 0 = ESC \<Longrightarrow> s ! 1 = CHR ''['' \<Longrightarrow>
    strip_ansi s = strip_ansi (tl (dropWhile (\<lambda>c. \<not> letter c) (drop 2 s)))"
  by (subst strip_ansi.simps) simp

lemma ansi_step_length [simp]: "length (ansi_step sg i str) = length str"
proof -
  have "length (ansi_clear sg str j) = length str" if "j \<le> length str" for str j
    using that length_dropWhile_le[of "\<lambda>c. \<not> letter c" "drop j str"] unfolding ansi_clear_run[OF that] by simp
  moreover have "ansi_clear sg str j = str" if "length str \<le> j" for str j using that by (subst ansi_clear.simps) simp
  ultimately show ?thesis by (cases "i + 2 \<le> length str") (auto simp: ansi_step_def)
qed

lemma ansi_step_nul: "str ! i = NUL \<Longrightarrow> ansi_step sg i str = str"
  by (simp add: ansi_step_def)

lemma ansi_step_escape:
  assumes "i + 2 < length cur" "cur ! i = ESC" "cur ! (i + 1) = CHR ''[''"
  defines "t \<equiv> tl (dropWhile (\<lambda>c. \<not> letter c) (drop (i + 2) cur))"
  shows "drop i (ansi_step sg i cur) = replicate (length (drop i cur) - length t) NUL @ t"
proof -
  let ?s = "cur[i := NUL, i + 1 := NUL]"
  have d: "drop (i + 2) ?s = drop (i + 2) cur" by simp
  have "ansi_step sg i cur = take (i + 2) ?s @ replicate (length (drop (i + 2) cur) - length t) NUL @ t"
    using assms(1-3) ansi_clear_run[of "i + 2" ?s sg] unfolding d by (simp add: ansi_step_def t_def)
  moreover have "take (i + 2) ?s = take i cur @ [NUL, NUL]"
    using assms(1) by (simp add: numeral_2_eq_2 take_Suc_conv_app_nth nth_list_update)
  moreover have "length t \<le> length (drop (i + 2) cur)"
    using length_dropWhile_le[of "\<lambda>c. \<not> letter c" "drop (i + 2) cur"] unfolding t_def by simp
  ultimately have a: "drop i (ansi_step sg i cur) = replicate (2 + (length (drop (i + 2) cur) - length t)) NUL @ t"
    and b: "2 + (length (drop (i + 2) cur) - length t) = length (drop i cur) - length t"
    using assms(1) by (simp_all add: numeral_2_eq_2)
  show ?thesis unfolding a b ..
qed

lemma tl_dropWhile_suffix: "drop (length s - length (tl (dropWhile P s))) s = tl (dropWhile P s)"
proof -
  obtain p where p: "p @ tl (dropWhile P s) = s"
  proof (cases "dropWhile P s")
    case Nil
    show ?thesis by (rule that[of s]) (simp only: Nil list.sel append_Nil2)
  next
    case (Cons a l)
    then have "(takeWhile P s @ [a]) @ tl (dropWhile P s) = s" using takeWhile_dropWhile_id[of P s] by simp
    then show ?thesis by (rule that)
  qed
  have "drop (length (p @ t) - length t) (p @ t) = t" for t :: "'a list" by simp
  from this[of "tl (dropWhile P s)"] show ?thesis unfolding p .
qed

lemma fold_step_length [simp]: "length (fold (ansi_step sg) is c) = length c"
  by (induction "is" arbitrary: c) simp_all

lemma ansi_step_take:
  assumes "j + 2 \<le> length c"
  shows "take j (ansi_step sg j c) = take j c"
  using ansi_clear_run[of "j + 2" "c[j := NUL, j + 1 := NUL]" sg] assms by (simp add: ansi_step_def)

lemma fold_step_take:
  "\<forall>j \<in> set is. i \<le> j \<and> j + 2 \<le> length c \<Longrightarrow> take i (fold (ansi_step sg) is c) = take i c"
proof (induction "is" arbitrary: c)
  case (Cons j js)
  have "take i (ansi_step sg j c) = take i (take j (ansi_step sg j c))" using Cons.prems by (simp add: min_def)
  also have "\<dots> = take i c" using Cons.prems ansi_step_take[of j c sg] by (simp add: min_def)
  finally show ?case using Cons by simp
qed simp

lemma ansi_pass:
  assumes "NUL \<notin> set s"
  shows "i \<le> length s - 2 \<Longrightarrow> length cur = length s \<Longrightarrow> i + k \<le> length s \<Longrightarrow> drop i cur = replicate k NUL @ drop (i + k) s \<Longrightarrow>
    visible (drop i (fold (ansi_step sg) [i..<length s - 2] cur)) = strip_ansi (drop (i + k) s)"
proof (induction "length s - 2 - i" arbitrary: i k cur)
  case 0
  then have "length (drop (i + k) s) \<le> 2" by simp
  moreover have "NUL \<notin> set (drop (i + k) s)" using assms by (meson in_set_dropD)
  ultimately show ?case using 0 by (simp add: strip_ansi_short visible_id)
next
  case (Suc m)
  let ?n = "length s - 2"
  have i: "i < ?n" "[i..<?n] = i # [i + 1..<?n]" using Suc.hyps(2) by (simp_all add: upt_rec)
  let ?cur = "ansi_step sg i cur" and ?rest = "fold (ansi_step sg) [i + 1..<?n] (ansi_step sg i cur)"
  have len: "length ?rest = length s" using Suc.prems(2) by (simp add: fold_step_length)
  have "take (i + 1) ?rest = take (i + 1) ?cur" by (rule fold_step_take) (use Suc.prems(2) in auto)
  then have "?rest ! i = ?cur ! i" by (metis less_add_one nth_take)
  then have rest: "drop i ?rest = ?cur ! i # drop (i + 1) ?rest" using i len by (simp add: Cons_nth_drop_Suc[symmetric])
  have IH: "visible (drop (i + 1) ?rest) = strip_ansi (drop (i + 1 + k') s)"
    if "i + 1 + k' \<le> length s" "drop (i + 1) ?cur = replicate k' NUL @ drop (i + 1 + k') s" for k'
    using Suc.hyps(1)[of "i + 1" ?cur k'] Suc.hyps(2) Suc.prems(2) i that by simp
  have next_cur: "drop (i + 1) c = tl (drop i c)" for c :: string by (simp add: drop_Suc tl_drop)
  have goal: "fold (ansi_step sg) [i..<?n] cur = ?rest" unfolding i(2) by simp
  show ?case unfolding goal rest
  proof (cases k)
    case (Suc k')
    have "drop i cur ! 0 = NUL" using Suc.prems(4) Suc by simp
    then have z: "cur ! i = NUL" using i Suc.prems(2) by simp
    then have c: "?cur = cur" by (rule ansi_step_nul)
    have "drop (i + 1) ?cur = replicate k' NUL @ drop (i + 1 + k') s" unfolding c next_cur using Suc.prems(4) Suc by simp
    from IH[OF _ this] show "visible (?cur ! i # drop (i + 1) ?rest) = strip_ansi (drop (i + k) s)"
      using z Suc.prems(3) Suc unfolding c by simp
  next
    case 0
    then have d: "drop i cur = drop i s" using Suc.prems(4) by simp
    have n: "cur ! j = s ! j" if "i \<le> j" "j < length s" for j
    proof -
      have "drop i cur ! (j - i) = drop i s ! (j - i)" unfolding d ..
      then show ?thesis using that Suc.prems(2) by (simp add: nth_drop)
    qed
    show "visible (?cur ! i # drop (i + 1) ?rest) = strip_ansi (drop (i + k) s)"
    proof (cases "cur ! i = ESC \<and> cur ! (i + 1) = CHR ''[''")
      case True
      define t where "t = tl (dropWhile (\<lambda>c. \<not> letter c) (drop (i + 2) cur))"
      define K where "K = length (drop i cur) - length t"
      have e: "drop i ?cur = replicate K NUL @ t"
        unfolding K_def t_def by (rule ansi_step_escape) (use i Suc.prems(2) True in auto)
      have "length t < length (drop (i + 2) cur)"
        using length_dropWhile_le[of "\<lambda>c. \<not> letter c" "drop (i + 2) cur"] i Suc.prems(2) unfolding t_def length_tl length_drop by linarith
      then have K: "K = Suc (K - 1)" "i + K + length t = length s" using i Suc.prems(2) unfolding K_def length_drop by linarith+
      have t: "t = drop (i + K) s"
      proof -
        have "t = drop (length (drop (i + 2) cur) - length t) (drop (i + 2) cur)"
          unfolding t_def by (rule tl_dropWhile_suffix[symmetric])
        also have "\<dots> = drop (K - 2) (drop 2 (drop i cur))"
          using K(2) i Suc.prems(2) unfolding drop_drop length_drop by (intro arg_cong2[where f = drop]) simp_all
        also have "\<dots> = drop (i + K) s"
        proof -
          have "K - 2 + (2 + i) = i + K"
            using K(2) \<open>length t < length (drop (i + 2) cur)\<close> i(1) Suc.prems(2) unfolding length_drop by linarith
          then show ?thesis unfolding d drop_drop by (rule arg_cong)
        qed
        finally show ?thesis .
      qed
      have z: "?cur ! i = NUL" using arg_cong[OF e, of hd] K i Suc.prems(2) by (simp add: hd_drop_conv_nth)
      have "drop (i + 1) ?cur = replicate (K - 1) NUL @ drop (i + 1 + (K - 1)) s" unfolding next_cur e using K t by (cases K) simp_all
      then have "visible (drop (i + 1) ?rest) = strip_ansi (drop (i + K) s)" using IH[of "K - 1"] K by simp
      moreover have "strip_ansi (drop i s) = strip_ansi t"
      proof -
        have d2: "drop (i + 2) cur = drop 2 (drop i s)" unfolding d[symmetric] by (simp add: add.commute)
        show ?thesis unfolding t_def d2 using True n[of i] n[of "i + 1"] i(1) by (intro strip_ansi_drop) simp_all
      qed
      ultimately show ?thesis using z by (simp add: 0 t)
    next
      case False
      then have c: "?cur = cur" by (auto simp: ansi_step_def)
      have "drop (i + 1) ?cur = replicate 0 NUL @ drop (i + 1 + 0) s" unfolding c next_cur d by (simp add: drop_Suc tl_drop)
      then have v: "visible (drop (i + 1) ?rest) = strip_ansi (drop (i + 1) s)" using IH[of 0] i by simp
      have "s ! i \<noteq> NUL" using assms i by (metis diff_le_self less_le_trans nth_mem)
      moreover have "drop i s = s ! i # drop (i + 1) s" using i by (simp add: Cons_nth_drop_Suc)
      moreover have "strip_ansi (s ! i # drop (i + 1) s) = s ! i # strip_ansi (drop (i + 1) s)"
        using False n i by (intro strip_ansi_keep) auto
      ultimately show ?thesis using v n[of i] i unfolding c by (simp add: 0)
    qed
  qed
qed

text \<open>C23. Without colours the printed text is the formatted text with every escape sequence removed, from ESC and an opening bracket
  to the next letter, for every text that can be formatted (no NUL byte), whatever the signedness of char.\<close>

theorem filter_ansi_strips:
  assumes "NUL \<notin> set s"
  shows "filter_ansi sg False s = strip_ansi s"
proof (cases "2 \<le> length s")
  case True
  have "visible (drop 0 (fold (ansi_step sg) [0..<length s - 2] s)) = strip_ansi (drop (0 + 0) s)"
    by (rule ansi_pass[OF assms]) simp_all
  then show ?thesis using True by (simp add: filter_ansi_def ansi_print_visible)
next
  case False
  then show ?thesis using assms by (simp add: filter_ansi_def ansi_print_visible strip_ansi_short visible_id)
qed

theorem filter_ansi_strips_witness:
  "NUL \<notin> set (ESC # ''[1mpeer'' @ ESC # ''[0m: k'') \<and>
   filter_ansi True False (ESC # ''[1mpeer'' @ ESC # ''[0m: k'') = strip_ansi (ESC # ''[1mpeer'' @ ESC # ''[0m: k'') \<and>
   strip_ansi (ESC # ''[1mpeer'' @ ESC # ''[0m: k'') = ''peer: k''"
proof -
  have "strip_ansi (ESC # ''[1mpeer'' @ ESC # ''[0m: k'') = ''peer: k''" by code_simp
  then show ?thesis using filter_ansi_strips[of "ESC # ''[1mpeer'' @ ESC # ''[0m: k''" True] by simp
qed

end
