(* ===== verification/Show.thy ===== *)
theory Show
  imports Terminal
begin

text \<open>
  Model of \<^verbatim>\<open>wireguard-tools/src/show.c\<close>: sorting the peers by their latest handshake, writing times and amounts, and the
  output of \<^verbatim>\<open>wg show\<close> in all its forms. What is modelled of a run is its exit status and its standard output; a run
  that follows a null pointer is \<open>None\<close>. The results: the order of the peers, that times fit their buffer, and that
  hidden keys do not influence what is printed.
\<close>

section \<open>Model\<close>

text \<open>What a run depends on: \<^verbatim>\<open>color_mode\<close>, the signedness of \<^verbatim>\<open>char\<close>, the variable \<^verbatim>\<open>WG_HIDE_KEYS\<close>, the clock, whether the
  \<^verbatim>\<open>calloc\<close> of \<^verbatim>\<open>sort_peers\<close> fails, \<^verbatim>\<open>gai_strerror\<close> of what \<^verbatim>\<open>getnameinfo\<close> returns for an address, and how addresses
  are written.\<close>

record show_env =
  sh_color :: bool
  sh_signed :: bool
  sh_hide_keys :: "string option"
  sh_now :: int
  sh_oom :: bool
  sh_gai_error :: "sockaddr \<Rightarrow> string"
  sh_printer :: printer

definition TERMINAL_FG_RED :: string where "TERMINAL_FG_RED = ESC # ''[31m''"
definition TERMINAL_FG_GREEN :: string where "TERMINAL_FG_GREEN = ESC # ''[32m''"
definition TERMINAL_FG_YELLOW :: string where "TERMINAL_FG_YELLOW = ESC # ''[33m''"
definition TERMINAL_FG_CYAN :: string where "TERMINAL_FG_CYAN = ESC # ''[36m''"
definition TERMINAL_BOLD :: string where "TERMINAL_BOLD = ESC # ''[1m''"
definition TERMINAL_RESET :: string where "TERMINAL_RESET = ESC # ''[0m''"

definition terminal_printf :: "show_env \<Rightarrow> string \<Rightarrow> string" where
  "terminal_printf se text = filter_ansi (sh_signed se) (sh_color se) text"

subsection \<open>The order of the peers\<close>

definition no_handshake :: "timespec64 \<Rightarrow> bool" where
  "no_handshake t \<longleftrightarrow> tv_sec t = 0 \<and> tv_nsec t = 0"

definition show_peer_cmp :: "wgpeer \<Rightarrow> wgpeer \<Rightarrow> int" where
  "show_peer_cmp a b =
     (let s = last_handshake_time a; t = last_handshake_time b
      in if no_handshake s \<and> \<not> no_handshake t then 1
         else if no_handshake t \<and> \<not> no_handshake s then - 1
         else let diff = (if tv_sec s - tv_sec t = 0 then tv_nsec s - tv_nsec t else tv_sec s - tv_sec t)
              in if sint diff < 0 then 1 else if sint diff > 0 then - 1 else 0)"

text \<open>The array holds pointers to the peers, which are here the positions in the list; behind the sort the list is linked in the
  order of the array.\<close>

definition peer_at :: "wgpeer list \<Rightarrow> nat \<Rightarrow> wgpeer" where
  "peer_at ps i = (if i < length ps then ps ! i else new_peer)"

definition sort_peers :: "bool \<Rightarrow> nat qsort \<Rightarrow> wgpeer list \<Rightarrow> wgpeer list" where
  "sort_peers oom qsort ps =
     (if ps = [] then ps
      else if oom then ps
      else map (peer_at ps) (qsort (\<lambda>i j. show_peer_cmp (peer_at ps i) (peer_at ps j)) [0..<length ps]))"

subsection \<open>Keys and addresses\<close>

definition show_key :: "wgkey \<Rightarrow> string" where
  "show_key k = key_to_base64 k"

definition maybe_key :: "wgkey \<Rightarrow> bool \<Rightarrow> string" where
  "maybe_key k have_it = (if \<not> have_it then ''(none)'' else show_key k)"

definition masked_key :: "show_env \<Rightarrow> wgkey \<Rightarrow> string" where
  "masked_key se k = (if sh_hide_keys se = Some ''never'' then show_key k else ''(hidden)'')"

definition show_ip :: "show_env \<Rightarrow> wgallowedip \<Rightarrow> string" where
  "show_ip se a = (case ip_text (sh_printer se) (ip a) of None \<Rightarrow> [] | Some t \<Rightarrow> t)"

definition show_endpoint :: "show_env \<Rightarrow> sockaddr \<Rightarrow> string" where
  "show_endpoint se sa =
     (case getnameinfo (sh_printer se) sa of
        None \<Rightarrow> take 4613 (sh_gai_error se sa)
      | Some (host, service) \<Rightarrow>
          (case sa of SaIn6 _ _ _ _ \<Rightarrow>
             if strchr host (CHR '':'') \<noteq> None then ''['' @ host @ '']:'' @ service else host @ '':'' @ service
           | _ \<Rightarrow> host @ '':'' @ service))"

definition has_endpoint :: "wgpeer \<Rightarrow> bool" where
  "has_endpoint p \<longleftrightarrow> (case endpoint p of SaUnspec \<Rightarrow> False | _ \<Rightarrow> True)"

subsection \<open>Times\<close>

text \<open>One \<^verbatim>\<open>snprintf\<close> of \<^verbatim>\<open>pretty_time\<close>: the text in the buffer and \<^verbatim>\<open>offset\<close>, which counts what would have been written.\<close>

definition pretty_unit :: "nat \<Rightarrow> nat \<Rightarrow> string \<Rightarrow> string \<times> nat \<Rightarrow> string \<times> nat" where
  "pretty_unit len n label st =
     (let (buf, offset) = st;
          text = (if offset \<noteq> 0 then '', '' else []) @ dec n @ '' '' @ TERMINAL_FG_CYAN @ label @ (if n = 1 then [] else ''s'') @ TERMINAL_RESET
      in if n \<noteq> 0 then (take offset buf @ take (len - offset - 1) text, offset + length text) else st)"

definition pretty_time :: "nat \<Rightarrow> u64 \<Rightarrow> string \<times> nat" where
  "pretty_time len left0 =
     (let years = unat left0 div (365 * 24 * 60 * 60); left1 = unat left0 mod (365 * 24 * 60 * 60);
          days = left1 div (24 * 60 * 60); left2 = left1 mod (24 * 60 * 60);
          hours = left2 div (60 * 60); left3 = left2 mod (60 * 60);
          minutes = left3 div 60; seconds = left3 mod 60
      in pretty_unit len seconds ''second'' (pretty_unit len minutes ''minute'' (pretty_unit len hours ''hour''
           (pretty_unit len days ''day'' (pretty_unit len years ''year'' ([], 0))))))"

definition ago :: "show_env \<Rightarrow> timespec64 \<Rightarrow> string" where
  "ago se t =
     (if sh_now se = sint (tv_sec t) then ''Now''
      else if sh_now se < sint (tv_sec t) then
        ''('' @ TERMINAL_FG_RED @ ''System clock wound backward; connection problems may ensue.'' @ TERMINAL_RESET @ '')''
      else (case pretty_time 1024 (of_int (sh_now se - sint (tv_sec t))) of
         (buf, offset) \<Rightarrow> take offset buf @ take (1024 - offset - 1) '' ago''))"

definition every :: "u16 \<Rightarrow> string" where
  "every seconds = ''every '' @ fst (pretty_time (1024 - 6 - 1) (of_nat (unat seconds)))"

subsection \<open>Amounts\<close>

text \<open>The conversion to \<^verbatim>\<open>double\<close> rounds to 53 bits, ties to even; dividing by a power of two is exact; \<^verbatim>\<open>%.2f\<close> rounds the exact
  value to hundredths, ties to even.\<close>

definition round_half_even :: "nat \<Rightarrow> nat \<Rightarrow> nat" where
  "round_half_even a d =
     (let q = a div d; r = a mod d in if 2 * r > d \<or> (2 * r = d \<and> odd q) then q + 1 else q)"

fun double_shift :: "nat \<Rightarrow> nat" where
  "double_shift n = (if n < 2 ^ 53 then 0 else Suc (double_shift (n div 2)))"

declare double_shift.simps [simp del]

definition to_double :: "nat \<Rightarrow> nat" where
  "to_double n = round_half_even n (2 ^ double_shift n) * 2 ^ double_shift n"

definition fixed2 :: "nat \<Rightarrow> nat \<Rightarrow> string" where
  "fixed2 n d =
     (let h = round_half_even (to_double n * 100) d
      in dec (h div 100) @ ''.'' @ dec (h mod 100 div 10) @ dec (h mod 10))"

definition bytes :: "u64 \<Rightarrow> string" where
  "bytes b =
     (let n = unat b
      in if n < 1024 then dec n @ '' '' @ TERMINAL_FG_CYAN @ ''B'' @ TERMINAL_RESET
         else if n < 1024 * 1024 then fixed2 n 1024 @ '' '' @ TERMINAL_FG_CYAN @ ''KiB'' @ TERMINAL_RESET
         else if n < 1024 * 1024 * 1024 then fixed2 n (1024 * 1024) @ '' '' @ TERMINAL_FG_CYAN @ ''MiB'' @ TERMINAL_RESET
         else if n < 1024 * 1024 * 1024 * 1024 then fixed2 n (1024 * 1024 * 1024) @ '' '' @ TERMINAL_FG_CYAN @ ''GiB'' @ TERMINAL_RESET
         else fixed2 n (1024 * 1024 * 1024 * 1024) @ '' '' @ TERMINAL_FG_CYAN @ ''TiB'' @ TERMINAL_RESET)"

subsection \<open>The output\<close>

abbreviation tab :: char where "tab \<equiv> CHR 0x09"

definition pretty_field :: "show_env \<Rightarrow> string \<Rightarrow> string \<Rightarrow> string" where
  "pretty_field se label v = terminal_printf se (''  '' @ TERMINAL_BOLD @ label @ TERMINAL_RESET @ '': '' @ v)"

fun pretty_allowedips :: "show_env \<Rightarrow> wgallowedip list \<Rightarrow> string" where
  "pretty_allowedips se [] = []"
| "pretty_allowedips se (a # as) =
     terminal_printf se (show_ip se a @ TERMINAL_FG_CYAN @ ''/'' @ TERMINAL_RESET @ dec (unat (cidr a)) @ (if as \<noteq> [] then '', '' else [newline])) @
     pretty_allowedips se as"

definition pretty_peer :: "show_env \<Rightarrow> wgpeer \<Rightarrow> string" where
  "pretty_peer se p =
     terminal_printf se (TERMINAL_FG_YELLOW @ TERMINAL_BOLD @ ''peer'' @ TERMINAL_RESET @ '': '' @ TERMINAL_FG_YELLOW @ show_key (public_key p) @
       TERMINAL_RESET @ [newline]) @
     (if flag_test (p_flags p) WGPEER_HAS_PRESHARED_KEY then pretty_field se ''preshared key'' (masked_key se (preshared_key p) @ [newline]) else []) @
     (if has_endpoint p then pretty_field se ''endpoint'' (show_endpoint se (endpoint p) @ [newline]) else []) @
     pretty_field se ''allowed ips'' [] @
     (if allowedips p \<noteq> [] then pretty_allowedips se (allowedips p) else terminal_printf se (''(none)'' @ [newline])) @
     (if tv_sec (last_handshake_time p) \<noteq> 0 then pretty_field se ''latest handshake'' (ago se (last_handshake_time p) @ [newline]) else []) @
     (if rx_bytes p \<noteq> 0 \<or> tx_bytes p \<noteq> 0 then
        pretty_field se ''transfer'' [] @ terminal_printf se (bytes (rx_bytes p) @ '' received, '') @ terminal_printf se (bytes (tx_bytes p) @ '' sent'' @ [newline])
      else []) @
     (if persistent_keepalive_interval p \<noteq> 0
      then pretty_field se ''persistent keepalive'' (every (persistent_keepalive_interval p) @ [newline]) else [])"

fun pretty_peers :: "show_env \<Rightarrow> wgpeer list \<Rightarrow> string" where
  "pretty_peers se [] = []"
| "pretty_peers se (p # ps) = pretty_peer se p @ (if ps \<noteq> [] then terminal_printf se [newline] else []) @ pretty_peers se ps"

definition pretty_print :: "show_env \<Rightarrow> nat qsort \<Rightarrow> wgdevice \<Rightarrow> string" where
  "pretty_print se qsort dev =
     terminal_printf se TERMINAL_RESET @
     terminal_printf se (TERMINAL_FG_GREEN @ TERMINAL_BOLD @ ''interface'' @ TERMINAL_RESET @ '': '' @ TERMINAL_FG_GREEN @ name dev @ TERMINAL_RESET @ [newline]) @
     (if flag_test (d_flags dev) WGDEVICE_HAS_PUBLIC_KEY then pretty_field se ''public key'' (show_key (d_public_key dev) @ [newline]) else []) @
     (if flag_test (d_flags dev) WGDEVICE_HAS_PRIVATE_KEY then pretty_field se ''private key'' (masked_key se (private_key dev) @ [newline]) else []) @
     (if listen_port dev \<noteq> 0 then pretty_field se ''listening port'' (dec (unat (listen_port dev)) @ [newline]) else []) @
     (if fwmark dev \<noteq> 0 then pretty_field se ''fwmark'' (''0x'' @ numstr 16 (unat (fwmark dev)) @ [newline]) else []) @
     (if peers dev \<noteq> [] then terminal_printf se [newline] else []) @
     pretty_peers se (sort_peers (sh_oom se) qsort (peers dev))"

fun dump_allowedips :: "show_env \<Rightarrow> char \<Rightarrow> char \<Rightarrow> wgallowedip list \<Rightarrow> string" where
  "dump_allowedips se sep fin [] = []"
| "dump_allowedips se sep fin (a # as) =
     show_ip se a @ ''/'' @ dec (unat (cidr a)) @ [if as \<noteq> [] then sep else fin] @ dump_allowedips se sep fin as"

definition iface_column :: "wgdevice \<Rightarrow> bool \<Rightarrow> string" where
  "iface_column dev with_interface = (if with_interface then name dev @ [tab] else [])"

definition dump_peer :: "show_env \<Rightarrow> wgpeer \<Rightarrow> string" where
  "dump_peer se p =
     show_key (public_key p) @ [tab] @
     maybe_key (preshared_key p) (flag_test (p_flags p) WGPEER_HAS_PRESHARED_KEY) @ [tab] @
     (if has_endpoint p then show_endpoint se (endpoint p) @ [tab] else ''(none)'' @ [tab]) @
     (if allowedips p \<noteq> [] then dump_allowedips se (CHR '','') tab (allowedips p) else ''(none)'' @ [tab]) @
     dec (unat (tv_sec (last_handshake_time p))) @ [tab] @
     dec (unat (rx_bytes p)) @ [tab] @ dec (unat (tx_bytes p)) @ [tab] @
     (if persistent_keepalive_interval p \<noteq> 0 then dec (unat (persistent_keepalive_interval p)) @ [newline] else ''off'' @ [newline])"

definition fwmark_text :: "wgdevice \<Rightarrow> string" where
  "fwmark_text dev = (if fwmark dev \<noteq> 0 then ''0x'' @ numstr 16 (unat (fwmark dev)) @ [newline] else ''off'' @ [newline])"

definition dump_print :: "show_env \<Rightarrow> wgdevice \<Rightarrow> bool \<Rightarrow> string" where
  "dump_print se dev with_interface =
     iface_column dev with_interface @
     maybe_key (private_key dev) (flag_test (d_flags dev) WGDEVICE_HAS_PRIVATE_KEY) @ [tab] @
     maybe_key (d_public_key dev) (flag_test (d_flags dev) WGDEVICE_HAS_PUBLIC_KEY) @ [tab] @
     dec (unat (listen_port dev)) @ [tab] @ fwmark_text dev @
     concat (map (\<lambda>p. iface_column dev with_interface @ dump_peer se p) (peers dev))"

text \<open>A column for every peer, behind its public key.\<close>

definition show_peer_lines :: "(wgpeer \<Rightarrow> string) \<Rightarrow> wgdevice \<Rightarrow> bool \<Rightarrow> string" where
  "show_peer_lines f dev with_interface =
     concat (map (\<lambda>p. iface_column dev with_interface @ show_key (public_key p) @ f p) (peers dev))"

text \<open>\<^verbatim>\<open>ugly_print\<close>: its result and its output. The device may be null, which only the branches of known parameters follow.\<close>

definition with_device :: "wgdevice option \<Rightarrow> (wgdevice \<Rightarrow> string) \<Rightarrow> (bool \<times> string) option" where
  "with_device dev f = (case dev of None \<Rightarrow> None | Some d \<Rightarrow> Some (True, f d))"

definition ugly_print :: "show_env \<Rightarrow> wgdevice option \<Rightarrow> string \<Rightarrow> bool \<Rightarrow> (bool \<times> string) option" where
  "ugly_print se dev param wi =
     (if param = ''public-key'' then
        with_device dev (\<lambda>d. iface_column d wi @ maybe_key (d_public_key d) (flag_test (d_flags d) WGDEVICE_HAS_PUBLIC_KEY) @ [newline])
      else if param = ''private-key'' then
        with_device dev (\<lambda>d. iface_column d wi @ maybe_key (private_key d) (flag_test (d_flags d) WGDEVICE_HAS_PRIVATE_KEY) @ [newline])
      else if param = ''listen-port'' then with_device dev (\<lambda>d. iface_column d wi @ dec (unat (listen_port d)) @ [newline])
      else if param = ''fwmark'' then with_device dev (\<lambda>d. iface_column d wi @ fwmark_text d)
      else if param = ''endpoints'' then
        with_device dev (\<lambda>d. show_peer_lines (\<lambda>p. [tab] @ (if has_endpoint p then show_endpoint se (endpoint p) @ [newline] else ''(none)'' @ [newline])) d wi)
      else if param = ''allowed-ips'' then
        with_device dev (\<lambda>d. show_peer_lines (\<lambda>p. [tab] @ (if allowedips p \<noteq> [] then dump_allowedips se (CHR '' '') newline (allowedips p)
                                                  else ''(none)'' @ [newline])) d wi)
      else if param = ''latest-handshakes'' then
        with_device dev (\<lambda>d. show_peer_lines (\<lambda>p. [tab] @ dec (unat (tv_sec (last_handshake_time p))) @ [newline]) d wi)
      else if param = ''transfer'' then
        with_device dev (\<lambda>d. show_peer_lines (\<lambda>p. [tab] @ dec (unat (rx_bytes p)) @ [tab] @ dec (unat (tx_bytes p)) @ [newline]) d wi)
      else if param = ''persistent-keepalive'' then
        with_device dev (\<lambda>d. show_peer_lines (\<lambda>p. if persistent_keepalive_interval p \<noteq> 0
            then [tab] @ dec (unat (persistent_keepalive_interval p)) @ [newline] else [tab] @ ''off'' @ [newline]) d wi)
      else if param = ''preshared-keys'' then
        with_device dev (\<lambda>d. show_peer_lines (\<lambda>p. [tab] @ maybe_key (preshared_key p) (flag_test (p_flags p) WGPEER_HAS_PRESHARED_KEY) @ [newline]) d wi)
      else if param = ''peers'' then with_device dev (\<lambda>d. show_peer_lines (\<lambda>p. [newline]) d wi)
      else if param = ''dump'' then with_device dev (\<lambda>d. dump_print se d wi)
      else Some (False, []))"

text \<open>The loop over all interfaces. An interface is read with its return value and \<^verbatim>\<open>device\<close>.\<close>

fun show_all ::
  "show_env \<Rightarrow> nat qsort \<Rightarrow> (string \<Rightarrow> int \<times> wgdevice option) \<Rightarrow> string option \<Rightarrow> int \<Rightarrow> string list \<Rightarrow> (int \<times> string) option" where
  "show_all se qsort ipc_get param ret [] = Some (ret, [])"
| "show_all se qsort ipc_get param ret (iface # ifaces) =
     (case ipc_get iface of (r, dev) \<Rightarrow>
        if r < 0 then show_all se qsort ipc_get param ret ifaces
        else (case param of
           Some p \<Rightarrow>
             (case ugly_print se dev p True of
                None \<Rightarrow> None
              | Some (False, text) \<Rightarrow> Some (1, text)
              | Some (True, text) \<Rightarrow> map_option (apsnd ((@) text)) (show_all se qsort ipc_get param 0 ifaces))
         | None \<Rightarrow>
             (case dev of
                None \<Rightarrow> None
              | Some d \<Rightarrow>
                  map_option (apsnd ((@) (pretty_print se qsort d @ (if ifaces \<noteq> [] then [newline] else []))))
                    (show_all se qsort ipc_get param 0 ifaces))))"

fun show_interfaces :: "string list \<Rightarrow> string" where
  "show_interfaces [] = []"
| "show_interfaces (iface # ifaces) = iface @ [if ifaces \<noteq> [] then CHR '' '' else newline] @ show_interfaces ifaces"

text \<open>\<^verbatim>\<open>ipc_list\<close> is what \<^verbatim>\<open>ipc_list_devices\<close> returns; the loops over its buffer see the names of \<^const>\<open>unpack\<close>.\<close>

definition show_main ::
  "show_env \<Rightarrow> nat qsort \<Rightarrow> string option \<Rightarrow> (string \<Rightarrow> int \<times> wgdevice option) \<Rightarrow> string list \<Rightarrow> (int \<times> string) option" where
  "show_main se qsort ipc_list ipc_get argv =
     (let argc = length argv
      in if argc > 3 then Some (1, [])
         else if argc = 1 \<or> argv ! 1 = ''all'' then
           (case ipc_list of
              None \<Rightarrow> Some (1, [])
            | Some interfaces \<Rightarrow>
                show_all se qsort ipc_get (if argc = 3 then Some (argv ! 2) else None) (if cstr interfaces \<noteq> [] then 1 else 0) (unpack interfaces))
         else if argv ! 1 = ''interfaces'' then
           (if argc > 2 then Some (1, [])
            else (case ipc_list of None \<Rightarrow> Some (1, []) | Some interfaces \<Rightarrow> Some (0, show_interfaces (unpack interfaces))))
         else if argc = 2 \<and> (argv ! 1 = ''-h'' \<or> argv ! 1 = ''--help'' \<or> argv ! 1 = ''help'') then Some (0, [])
         else (case ipc_get (argv ! 1) of (r, dev) \<Rightarrow>
            if r < 0 then Some (1, [])
            else if argc = 3 then
              (case ugly_print se dev (argv ! 2) False of
                 None \<Rightarrow> None
               | Some (ok, text) \<Rightarrow> Some (if ok then 0 else 1, text))
            else map_option (\<lambda>d. (0, pretty_print se qsort d)) dev))"


section \<open>The order of the peers\<close>

text \<open>The time of the latest handshake, with \<^verbatim>\<open>int64_t\<close> read as numbers; a kernel and a userspace implementation report times that
  are not negative.\<close>

definition handshake :: "wgpeer \<Rightarrow> nat \<times> nat" where
  "handshake p = (unat (tv_sec (last_handshake_time p)), unat (tv_nsec (last_handshake_time p)))"

definition time_ok :: "wgpeer \<Rightarrow> bool" where
  "time_ok p \<longleftrightarrow> fst (handshake p) < 2 ^ 63 \<and> snd (handshake p) < 2 ^ 63"

definition not_earlier :: "wgpeer \<Rightarrow> wgpeer \<Rightarrow> bool" where
  "not_earlier p q \<longleftrightarrow> fst (handshake q) < fst (handshake p) \<or> fst (handshake q) = fst (handshake p) \<and> snd (handshake q) \<le> snd (handshake p)"

lemma sint_diff:
  fixes a b :: u64
  assumes "unat a < 2 ^ 63" "unat b < 2 ^ 63"
  shows "sint (a - b) = int (unat a) - int (unat b)"
proof -
  have "int (unat a) < int (2 ^ 63)" "int (unat b) < int (2 ^ 63)" using assms by (simp_all only: of_nat_less_iff)
  then have u: "uint a < 2 ^ 63" "uint b < 2 ^ 63" by simp_all
  have s: "sint c = uint c" if "uint c < 2 ^ 63" for c :: u64
    using that signed_take_bit_int_eq_self[of 63 "uint c"] uint_ge_0[of c] by (simp add: sint_uint)
  have "sint (a - b) = signed_take_bit 63 (uint a - uint b)" using s u by (simp add: sint_word_ariths)
  also have "\<dots> = uint a - uint b" using u uint_ge_0[of a] uint_ge_0[of b] by (intro signed_take_bit_int_eq_self) linarith+
  finally show ?thesis by simp
qed

lemma cmp_nat:
  "(if (a = 0 \<and> c = 0) \<and> \<not> (b = 0 \<and> d = 0) then 1 else if (b = 0 \<and> d = 0) \<and> \<not> (a = 0 \<and> c = 0) then - 1
    else if (if a = b then int c - int d else int a - int b) < 0 then 1
    else if 0 < (if a = b then int c - int d else int a - int b) then - 1 else 0) \<le> (0 :: int) \<longleftrightarrow>
   b < a \<or> b = a \<and> d \<le> c" for a b c d :: nat
  by (simp split: if_split)

lemma show_peer_cmp_le:
  assumes "time_ok p" "time_ok q"
  shows "show_peer_cmp p q \<le> 0 \<longleftrightarrow> not_earlier p q"
proof -
  let ?s = "last_handshake_time p" and ?t = "last_handshake_time q"
  have z: "no_handshake t \<longleftrightarrow> unat (tv_sec t) = 0 \<and> unat (tv_nsec t) = 0" for t
    by (simp add: no_handshake_def unat_eq_zero)
  have d: "sint (tv_sec ?s - tv_sec ?t) = int (unat (tv_sec ?s)) - int (unat (tv_sec ?t))"
    "sint (tv_nsec ?s - tv_nsec ?t) = int (unat (tv_nsec ?s)) - int (unat (tv_nsec ?t))"
    using assms by (simp_all add: sint_diff time_ok_def handshake_def)
  have e: "tv_sec ?s - tv_sec ?t = 0 \<longleftrightarrow> unat (tv_sec ?s) = unat (tv_sec ?t)"
    unfolding right_minus_eq by (rule word_unat_eq_iff)
  show ?thesis
    unfolding show_peer_cmp_def Let_def z e if_distrib[of sint] d unfolding cmp_nat not_earlier_def handshake_def fst_conv snd_conv ..
qed

lemma not_earlier_trans: "not_earlier p q \<Longrightarrow> not_earlier q r \<Longrightarrow> not_earlier p r"
  by (auto simp: not_earlier_def)

lemma not_earlier_total: "not_earlier p q \<or> not_earlier q p"
  by (auto simp: not_earlier_def)

lemma show_peer_cmp_total:
  assumes "\<forall>p \<in> set ps. time_ok p"
  shows "total_preorder (\<lambda>i j. show_peer_cmp (peer_at ps i) (peer_at ps j)) (set [0..<length ps])"
proof -
  have "show_peer_cmp (peer_at ps i) (peer_at ps j) \<le> 0 \<longleftrightarrow> not_earlier (peer_at ps i) (peer_at ps j)"
    if "i \<in> set [0..<length ps]" "j \<in> set [0..<length ps]" for i j
    using that assms by (intro show_peer_cmp_le) (simp_all add: peer_at_def)
  then show ?thesis
    unfolding total_preorder_def using not_earlier_trans not_earlier_total by meson
qed


definition peer_with_time :: "u64 \<Rightarrow> wgpeer" where
  "peer_with_time s = new_peer\<lparr> last_handshake_time := \<lparr> tv_sec = s, tv_nsec = 5 \<rparr> \<rparr>"



section \<open>Times fit their buffers\<close>

text \<open>The text of a time without a buffer: the units that are not zero, separated by commas.\<close>

definition unit_text :: "nat \<times> string \<Rightarrow> string" where
  "unit_text u = (case u of (n, label) \<Rightarrow> dec n @ '' '' @ TERMINAL_FG_CYAN @ label @ (if n = 1 then [] else ''s'') @ TERMINAL_RESET)"

fun join_units :: "(nat \<times> string) list \<Rightarrow> string" where
  "join_units [] = []"
| "join_units [u] = unit_text u"
| "join_units (u # v # us) = unit_text u @ '', '' @ join_units (v # us)"

definition time_units :: "nat \<Rightarrow> (nat \<times> string) list" where
  "time_units t =
     [(t div 31536000, ''year''), (t mod 31536000 div 86400, ''day''), (t mod 31536000 mod 86400 div 3600, ''hour''),
      (t mod 31536000 mod 86400 mod 3600 div 60, ''minute''), (t mod 31536000 mod 86400 mod 3600 mod 60, ''second'')]"

lemma unit_text_nonempty: "unit_text u \<noteq> []"
  by (cases u) (simp add: unit_text_def)

lemma join_units_snoc: "join_units (us @ [u]) = (if us = [] then unit_text u else join_units us @ '', '' @ unit_text u)"
  by (induction us rule: join_units.induct) auto

lemma join_units_empty: "join_units us = [] \<longleftrightarrow> us = []"
  by (cases us rule: join_units.cases) (simp_all add: unit_text_nonempty)

lemma pretty_unit_run:
  assumes "st = (join_units us, length (join_units us))" "length (join_units us) + length (unit_text (n, label)) + 2 < len"
  shows "pretty_unit len n label st =
    (let us' = (if n = 0 then us else us @ [(n, label)]) in (join_units us', length (join_units us')))"
  using assms by (auto simp: pretty_unit_def join_units_snoc join_units_empty unit_text_def Let_def)

lemma length_numstr_le:
  assumes "n < 10 ^ k" "0 < k"
  shows "length (dec n) \<le> k"
  using assms
proof (induction k arbitrary: n)
  case (Suc k)
  show ?case
  proof (cases "n < 10")
    case True
    then show ?thesis by (subst numstr.simps) simp
  next
    case False
    have k: "0 < k" using False Suc.prems(1) by (cases k) auto
    have "n div 10 < 10 ^ k" using Suc.prems(1) by (simp add: less_mult_imp_div_less mult.commute)
    then have "length (dec (n div 10)) \<le> k" using k by (rule Suc.IH)
    then show ?thesis using False by (subst numstr.simps) simp
  qed
qed simp

lemma unit_text_length: "n < 10 ^ 20 \<Longrightarrow> length label \<le> 6 \<Longrightarrow> length (unit_text (n, label)) \<le> 37"
  using length_numstr_le[of n 20] by (cases "n = 1") (simp_all add: unit_text_def TERMINAL_FG_CYAN_def TERMINAL_RESET_def)

lemma join_units_length: "\<forall>u \<in> set us. length (unit_text u) \<le> 37 \<Longrightarrow> length (join_units us) \<le> 39 * length us"
  by (induction us rule: join_units.induct) auto

lemma pretty_units_run:
  "\<forall>u \<in> set (vs @ us). length (unit_text u) \<le> 37 \<Longrightarrow> 39 * (length vs + length us) + 2 < len \<Longrightarrow>
   fold (\<lambda>(n, label). pretty_unit len n label) us (join_units vs, length (join_units vs)) =
     (join_units (vs @ filter (\<lambda>u. fst u \<noteq> 0) us), length (join_units (vs @ filter (\<lambda>u. fst u \<noteq> 0) us)))"
proof (induction us arbitrary: vs)
  case (Cons u us)
  obtain n label where u: "u = (n, label)" by (cases u)
  let ?vs = "if n = 0 then vs else vs @ [u]"
  have "length (join_units vs) \<le> 39 * length vs" using Cons.prems(1) by (intro join_units_length) auto
  then have "pretty_unit len n label (join_units vs, length (join_units vs)) = (join_units ?vs, length (join_units ?vs))"
    using Cons.prems pretty_unit_run[OF refl, of vs n label len] by (simp add: u Let_def)
  then show ?case using Cons.IH[of ?vs] Cons.prems by (simp add: u split: if_splits)
qed simp

lemma pretty_time_fold:
  "pretty_time len t = fold (\<lambda>(n, label). pretty_unit len n label) (time_units (unat t)) ([], 0)"
  by (simp add: pretty_time_def time_units_def Let_def)

text \<open>C29. Whatever 64-bit time is left, \<^verbatim>\<open>pretty_time\<close> never cuts its text off and never moves behind its buffer, so that \<^verbatim>\<open>ago\<close> and
  \<^verbatim>\<open>every\<close> write inside theirs: it writes the units that are not zero, separated by commas, in at most 195 characters, and the
  units add up to the time.\<close>

theorem pretty_time_fits:
  assumes "200 \<le> len"
  shows "pretty_time len t =
      (join_units (filter (\<lambda>u. fst u \<noteq> 0) (time_units (unat t))), length (join_units (filter (\<lambda>u. fst u \<noteq> 0) (time_units (unat t))))) \<and>
    length (join_units (filter (\<lambda>u. fst u \<noteq> 0) (time_units (unat t)))) \<le> 195 \<and>
    unat t = sum_list (map2 (*) (map fst (time_units (unat t))) [31536000, 86400, 3600, 60, 1])"
proof -
  define us where "us = time_units (unat t)"
  have t: "unat t < 10 ^ 20"
  proof -
    have "unat t < 2 ^ 64" using unat_below[of t] by simp
    also have "(2 :: nat) ^ 64 < 10 ^ 20" by simp
    finally show ?thesis .
  qed
  have m: "a div k < 10 ^ 20" "a mod k < 10 ^ 20" if "a < 10 ^ 20" for a k :: nat
    using that div_le_dividend[of a k] mod_less_eq_dividend[of a k] by linarith+
  have u: "\<forall>u \<in> set us. length (unit_text u) \<le> 37" unfolding us_def time_units_def by (auto intro!: unit_text_length m t)
  have l: "length us = 5" by (simp add: us_def time_units_def)
  define vs where "vs = filter (\<lambda>u. fst u \<noteq> 0) us"
  have "length (join_units vs) \<le> 39 * length vs" by (rule join_units_length) (use u in \<open>simp add: vs_def\<close>)
  moreover have "length vs \<le> 5" using length_filter_le[of "\<lambda>u. fst u \<noteq> 0" us] l by (simp add: vs_def)
  ultimately have "length (join_units vs) \<le> 195" by linarith
  moreover have "unat t = sum_list (map2 (*) (map fst us) [31536000, 86400, 3600, 60, 1])"
    by (simp add: us_def time_units_def)
  moreover have "pretty_time len t = (join_units vs, length (join_units vs))"
    using pretty_units_run[of "[]" us len] u assms l unfolding pretty_time_fold us_def[symmetric] vs_def by simp
  ultimately show ?thesis unfolding vs_def us_def by blast
qed

theorem pretty_time_fits_witness:
  "(200 :: nat) \<le> 1024 \<and> pretty_time 1024 90061 = (join_units (filter (\<lambda>u. fst u \<noteq> 0) (time_units 90061)), length (join_units (filter (\<lambda>u. fst u \<noteq> 0) (time_units 90061)))) \<and>
   filter (\<lambda>u. fst u \<noteq> 0) (time_units 90061) = [(1, ''day''), (1, ''hour''), (1, ''minute''), (1, ''second'')]"
  using pretty_time_fits[of 1024 90061] by (simp add: time_units_def)


section \<open>Hidden keys\<close>

text \<open>A device without its private key and the preshared keys.\<close>

definition public_peer :: "wgpeer \<Rightarrow> wgpeer" where
  "public_peer p = p\<lparr> preshared_key := zero_key \<rparr>"

definition public_view :: "wgdevice \<Rightarrow> wgdevice" where
  "public_view d = d\<lparr> private_key := zero_key, peers := map public_peer (peers d) \<rparr>"

definition hides_keys :: "show_env \<Rightarrow> bool" where
  "hides_keys se \<longleftrightarrow> sh_hide_keys se \<noteq> Some ''never''"

lemma public_peer_sel [simp]:
  "public_key (public_peer p) = public_key p" "p_flags (public_peer p) = p_flags p" "endpoint (public_peer p) = endpoint p"
  "allowedips (public_peer p) = allowedips p" "last_handshake_time (public_peer p) = last_handshake_time p"
  "rx_bytes (public_peer p) = rx_bytes p" "tx_bytes (public_peer p) = tx_bytes p"
  "persistent_keepalive_interval (public_peer p) = persistent_keepalive_interval p"
  by (simp_all add: public_peer_def)

lemma public_view_sel [simp]:
  "name (public_view d) = name d" "d_flags (public_view d) = d_flags d" "d_public_key (public_view d) = d_public_key d"
  "listen_port (public_view d) = listen_port d" "fwmark (public_view d) = fwmark d" "peers (public_view d) = map public_peer (peers d)"
  by (simp_all add: public_view_def)

lemma show_peer_cmp_public [simp]: "show_peer_cmp (public_peer p) (public_peer q) = show_peer_cmp p q"
  by (simp add: show_peer_cmp_def)

lemma peer_at_public: "peer_at (map public_peer ps) i = public_peer (peer_at ps i)"
  by (simp add: peer_at_def public_peer_def new_peer_def)

lemma sort_peers_public: "sort_peers oom qsort (map public_peer ps) = map public_peer (sort_peers oom qsort ps)"
  by (simp add: sort_peers_def peer_at_public)

lemma masked_key_public: "hides_keys se \<Longrightarrow> masked_key se k = masked_key se k'"
  by (simp add: masked_key_def hides_keys_def)

lemma pretty_peer_public: "hides_keys se \<Longrightarrow> pretty_peer se (public_peer p) = pretty_peer se p"
  using masked_key_public[of se "preshared_key (public_peer p)" "preshared_key p"]
  by (simp add: pretty_peer_def has_endpoint_def)

lemma pretty_peers_public: "hides_keys se \<Longrightarrow> pretty_peers se (map public_peer ps) = pretty_peers se ps"
  by (induction ps) (simp_all add: pretty_peer_public)

lemma pretty_print_public: "hides_keys se \<Longrightarrow> pretty_print se qsort (public_view d) = pretty_print se qsort d"
  using masked_key_public[of se "private_key (public_view d)" "private_key d"]
  by (simp add: pretty_print_def sort_peers_public pretty_peers_public)

text \<open>The parameters that ask for a secret.\<close>

definition secret_params :: "string list" where
  "secret_params = [''private-key'', ''preshared-keys'', ''dump'']"

lemma peer_lines_public: "(\<And>p. f (public_peer p) = f p) \<Longrightarrow> show_peer_lines f (public_view d) wi = show_peer_lines f d wi"
  by (simp add: show_peer_lines_def iface_column_def o_def)

lemma with_device_public: "(\<And>d. f (public_view d) = f d) \<Longrightarrow> with_device (map_option public_view dev) f = with_device dev f"
  by (cases dev) (simp_all add: with_device_def)

lemma ugly_print_public:
  assumes "param \<notin> set secret_params"
  shows "ugly_print se (map_option public_view dev) param wi = ugly_print se dev param wi"
proof -
  have n: "(param = ''private-key'') = False" "(param = ''preshared-keys'') = False" "(param = ''dump'') = False"
    using assms by (auto simp: secret_params_def)
  have c: "iface_column (public_view d) wi = iface_column d wi" "fwmark_text (public_view d) = fwmark_text d"
    "has_endpoint (public_peer p) = has_endpoint p" for d p by (simp_all add: iface_column_def fwmark_text_def has_endpoint_def)
  show ?thesis
    unfolding ugly_print_def n if_False
    by (intro if_cong refl with_device_public peer_lines_public; simp only: c public_view_sel public_peer_sel)
qed

lemma show_all_public:
  assumes "hides_keys se" "case param of None \<Rightarrow> True | Some p \<Rightarrow> p \<notin> set secret_params"
  shows "show_all se qsort (\<lambda>i. apsnd (map_option public_view) (g i)) param ret is = show_all se qsort g param ret is"
proof (induction "is" arbitrary: ret)
  case (Cons i "is")
  obtain r dev where g: "g i = (r, dev)" by (cases "g i")
  show ?case
  proof (cases param)
    case None
    then show ?thesis using Cons pretty_print_public[OF assms(1)] by (cases dev) (simp_all add: g)
  next
    case (Some p)
    then have "p \<notin> set secret_params" using assms(2) by simp
    note u = ugly_print_public[OF this]
    show ?thesis unfolding show_all.simps g apsnd_conv prod.case Some option.case u Cons.IH[unfolded Some] ..
  qed
qed simp

lemma show_main_public:
  assumes "hides_keys se" "length argv < 3 \<or> argv ! 2 \<notin> set secret_params"
  shows "show_main se qsort l (\<lambda>i. apsnd (map_option public_view) (g i)) argv = show_main se qsort l g argv"
proof -
  obtain r dev where g: "g (argv ! 1) = (r, dev)" by (cases "g (argv ! 1)")
  define par where "par = (if length argv = 3 then Some (argv ! 2) else None)"
  have a: "show_all se qsort (\<lambda>i. apsnd (map_option public_view) (g i)) par ret is = show_all se qsort g par ret is" for ret "is"
    using assms by (intro show_all_public) (auto simp: par_def)
  have p: "map_option (\<lambda>d. (0, pretty_print se qsort d)) (map_option public_view dev) = map_option (\<lambda>d. (0 :: int, pretty_print se qsort d)) dev"
    by (cases dev) (simp_all add: pretty_print_public[OF assms(1)])
  have u: "length argv = 3 \<Longrightarrow> ugly_print se (map_option public_view dev) (argv ! 2) wi = ugly_print se dev (argv ! 2) wi" for wi
    using assms(2) by (intro ugly_print_public) simp
  show ?thesis
    unfolding show_main_def Let_def par_def[symmetric] a g apsnd_conv prod.case p by (intro if_cong refl) (simp only: u)
qed

text \<open>C8. Unless \<^verbatim>\<open>WG_HIDE_KEYS\<close> is \<^verbatim>\<open>never\<close>, or a parameter asks for them, the exit status and the output of \<^verbatim>\<open>wg show\<close> do not depend on
  any private or preshared key: two systems that differ in nothing else show the same, for one interface and for all.\<close>

theorem show_hides_keys:
  assumes "hides_keys se" "length argv < 3 \<or> argv ! 2 \<notin> set secret_params"
    and "\<And>i. fst (g i) = fst (g' i) \<and> map_option public_view (snd (g i)) = map_option public_view (snd (g' i))"
  shows "show_main se qsort l g argv = show_main se qsort l g' argv"
proof -
  have "apsnd (map_option public_view) (g i) = apsnd (map_option public_view) (g' i)" for i
    using assms(3)[of i] by (simp add: prod_eq_iff)
  then have "(\<lambda>i. apsnd (map_option public_view) (g i)) = (\<lambda>i. apsnd (map_option public_view) (g' i))" by auto
  then show ?thesis using show_main_public[OF assms(1,2), of qsort l] by metis
qed

definition sample_show :: show_env where
  "sample_show = \<lparr> sh_color = False, sh_signed = True, sh_hide_keys = None, sh_now = 0, sh_oom = False, sh_gai_error = (\<lambda>_. []),
     sh_printer = numeric_printer \<rparr>"

theorem show_hides_keys_witness:
  "hides_keys sample_show \<and> sample_device \<noteq> sample_device\<lparr> private_key := replicate 32 9 \<rparr> \<and>
   show_main sample_show insertion_sort None (\<lambda>_. (0, Some sample_device)) [''show'', ''wg0''] =
   show_main sample_show insertion_sort None (\<lambda>_. (0, Some (sample_device\<lparr> private_key := replicate 32 9 \<rparr>))) [''show'', ''wg0'']"
proof -
  have "hides_keys sample_show" by (simp add: hides_keys_def sample_show_def)
  moreover have "sample_device \<noteq> sample_device\<lparr> private_key := replicate 32 9 \<rparr>" by (simp add: sample_device_def new_device_def)
  moreover have "public_view sample_device = public_view (sample_device\<lparr> private_key := replicate 32 9 \<rparr>)" by (simp add: public_view_def)
  ultimately show ?thesis
    using show_hides_keys[of sample_show "[''show'', ''wg0'']" "\<lambda>_. (0, Some sample_device)" "\<lambda>_. (0, Some (sample_device\<lparr> private_key := replicate 32 9 \<rparr>))"
        insertion_sort None] by auto
qed


section \<open>A null device\<close>

text \<open>C34. \<^verbatim>\<open>wg show\<close> follows a null pointer when a userspace implementation reports a peer whose endpoint cannot be resolved: the reader
  releases the device and returns a positive error, which \<^verbatim>\<open>show_main\<close>, testing for a negative one, takes for success.\<close>

theorem show_null_device:
  assumes "iface \<notin> {''all'', ''interfaces'', ''-h'', ''--help'', ''help''}" "userspace_interface_file w iface = (Inr p, w')"
    and "\<not> alloc_fails env CallocDevice []" "\<not> alloc_fails env CallocPeer (key_to_hex k)" "length k = WG_KEY_LEN"
    and "line_ok (key_to_hex k)" "line_ok v" "uapi_split_endpoint v = Some (h, s)" "gai env h s 0 = GaiError e"
    and "server p (''get=1'' @ [newline, newline]) = ''public_key='' @ key_to_hex k @ [newline] @ ''endpoint='' @ v @ [newline] @ rest"
  shows "show_main se qsort l (\<lambda>i. fst (userspace_get_device env gen server w i)) [''show'', iface] = None"
proof -
  let ?ctx = "\<lparr> g_dev = new_device\<lparr> name := take (IFNAMSIZ - 1) iface \<rparr>, g_peer = None, g_allowedip = None, g_ret = - EPROTO \<rparr>"
  define pub where "pub = ''public_key='' @ key_to_hex k"
  define ep where "ep = ''endpoint='' @ v"
  have ok: "line_ok pub" "line_ok ep" using assms(6,7) by (simp_all add: pub_def ep_def line_ok_def)
  have reply: "server p (''get=1'' @ [newline, newline]) = pub @ newline # ep @ newline # rest" using assms(10) by (simp add: pub_def ep_def)
  have gl: "getlines (pub @ newline # ep @ newline # rest) = (pub @ [newline]) # (ep @ [newline]) # getlines rest"
    using ok by (simp add: getlines_Cons line_ok_def)
  obtain ctx where run: "run env gen ?ctx [pub] = Some ctx" and peer: "g_peer ctx \<noteq> None"
    using run_public_key[OF assms(4,5), of ?ctx gen] by (simp add: pub_def ptr_ok_def new_device_def)
  have "get_lines env gen ?ctx ((pub @ [newline]) # (ep @ [newline]) # getlines rest) = get_lines env gen ctx ((ep @ [newline]) # getlines rest)"
    using get_lines_run[OF _ run, of "(ep @ [newline]) # getlines rest"] ok by simp
  moreover have "fst (get_lines env gen ctx ((''endpoint='' @ v @ [newline]) # getlines rest)) = ENETUNREACH \<and> 0 < ENETUNREACH"
    using unreachable_endpoint[OF peer _ assms(8,9), of gen "getlines rest"] assms(7) by (simp add: line_ok_def)
  ultimately have "fst (get_lines env gen ?ctx (getlines (pub @ newline # ep @ newline # rest))) = ENETUNREACH" "0 < ENETUNREACH"
    unfolding gl by (simp_all add: ep_def)
  then have "fst (userspace_get_device env gen server w iface) = (ENETUNREACH, None)"
    unfolding userspace_get_device_def assms(2) prod.case sum.case reply using assms(3) by (auto split: prod.splits)
  then show ?thesis using assms(1) \<open>0 < ENETUNREACH\<close> by (simp add: show_main_def)
qed

theorem show_null_device_witness:
  "show_main sample_show insertion_sort None
     (\<lambda>i. fst (userspace_get_device plain_env id (\<lambda>_ _. ''public_key='' @ key_to_hex zero_key @ [newline] @ ''endpoint='' @ ''nohost:1'' @ [newline] @ [])
        sample_sockets i)) [''show'', ''wg0''] = None"
proof (rule show_null_device[where v = "''nohost:1''" and rest = "[]" and k = zero_key and h = "''nohost''" and s = "''1''" and e = EAI_NONAME and p = "''/var/run/wireguard/wg0.sock''" and w' = sample_sockets])
  show "line_ok (key_to_hex zero_key)" by code_simp
qed (simp_all add: plain_env_def uapi_split_endpoint_def strrchr_def char_at_def line_ok_def userspace_interface_file_def
    sample_sockets_def sock_path_def strchr_None)

end
