(* ===== verification/Regex.thy ===== *)
theory Regex
  imports Show
begin

text \<open>
  The parts of the C library that \<^verbatim>\<open>wireguard-tools/src/wg-quick/android.c\<close> uses beyond those of \<^verbatim>\<open>wg\<close>: \<^verbatim>\<open>regexec\<close> on the expressions that
  occur there, which are sequences of repeated character classes with one group between optional anchors, \<^verbatim>\<open>strtok\<close> and
  \<^verbatim>\<open>atoi\<close>.
\<close>

section \<open>Regular expressions\<close>

datatype rep = One | Upto nat | Plus | Star

type_synonym elem = "(char \<Rightarrow> bool) \<times> rep"

text \<open>The lengths of the prefixes of a text that match.\<close>

function match_ends :: "elem list \<Rightarrow> string \<Rightarrow> nat list" where
  "match_ends [] s = [0]"
| "match_ends ((p, One) # es) s = (case s of [] \<Rightarrow> [] | c # cs \<Rightarrow> if p c then map Suc (match_ends es cs) else [])"
| "match_ends ((p, Upto n) # es) s =
     match_ends es s @ (case s of [] \<Rightarrow> [] | c # cs \<Rightarrow> if p c \<and> 0 < n then map Suc (match_ends ((p, Upto (n - 1)) # es) cs) else [])"
| "match_ends ((p, Star) # es) s =
     match_ends es s @ (case s of [] \<Rightarrow> [] | c # cs \<Rightarrow> if p c then map Suc (match_ends ((p, Star) # es) cs) else [])"
| "match_ends ((p, Plus) # es) s = (case s of [] \<Rightarrow> [] | c # cs \<Rightarrow> if p c then map Suc (match_ends ((p, Star) # es) cs) else [])"
  by pat_completeness auto
termination
  by (relation "measure (\<lambda>(es, s). length es + length s)") auto

declare match_ends.simps(3,4) [simp del]

lemma match_ends_Upto [simp]:
  "match_ends ((p, Upto n) # es) [] = match_ends es []"
  "match_ends ((p, Upto n) # es) (c # cs) =
     match_ends es (c # cs) @ (if p c \<and> 0 < n then map Suc (match_ends ((p, Upto (n - 1)) # es) cs) else [])"
  by (simp_all add: match_ends.simps(3))

lemma match_ends_Star [simp]:
  "match_ends ((p, Star) # es) [] = match_ends es []"
  "match_ends ((p, Star) # es) (c # cs) = match_ends es (c # cs) @ (if p c then map Suc (match_ends ((p, Star) # es) cs) else [])"
  by (simp_all add: match_ends.simps(4))

text \<open>The language of a sequence of elements.\<close>

inductive matches :: "elem list \<Rightarrow> string \<Rightarrow> bool" where
  empty: "matches [] []"
| one: "p c \<Longrightarrow> matches es s \<Longrightarrow> matches ((p, One) # es) (c # s)"
| upto_none: "matches es s \<Longrightarrow> matches ((p, Upto n) # es) s"
| upto_more: "p c \<Longrightarrow> matches ((p, Upto n) # es) s \<Longrightarrow> matches ((p, Upto (Suc n)) # es) (c # s)"
| star_none: "matches es s \<Longrightarrow> matches ((p, Star) # es) s"
| star_more: "p c \<Longrightarrow> matches ((p, Star) # es) s \<Longrightarrow> matches ((p, Star) # es) (c # s)"
| plus: "p c \<Longrightarrow> matches ((p, Star) # es) s \<Longrightarrow> matches ((p, Plus) # es) (c # s)"

lemma matches_Nil [simp]: "matches [] s \<longleftrightarrow> s = []"
  by (subst matches.simps) auto

lemma matches_One_Nil [simp]: "\<not> matches ((p, One) # es) []"
  by (subst matches.simps) simp

lemma matches_Upto_Nil [simp]: "matches ((p, Upto n) # es) [] \<longleftrightarrow> matches es []"
  by (subst matches.simps) simp

lemma matches_Star_Nil [simp]: "matches ((p, Star) # es) [] \<longleftrightarrow> matches es []"
  by (subst matches.simps) simp

lemma matches_Plus_Nil [simp]: "\<not> matches ((p, Plus) # es) []"
  by (subst matches.simps) simp

lemma matches_One_Cons [simp]: "matches ((p, One) # es) (c # s) \<longleftrightarrow> p c \<and> matches es s"
  by (subst matches.simps) simp

lemma matches_Upto_Cons [simp]:
  "matches ((p, Upto n) # es) (c # s) \<longleftrightarrow> matches es (c # s) \<or> (p c \<and> 0 < n) \<and> matches ((p, Upto (n - 1)) # es) s"
  by (subst matches.simps) (cases n, simp_all)

lemma matches_Star_Cons [simp]: "matches ((p, Star) # es) (c # s) \<longleftrightarrow> matches es (c # s) \<or> p c \<and> matches ((p, Star) # es) s"
  by (subst matches.simps) simp

lemma matches_Plus_Cons [simp]: "matches ((p, Plus) # es) (c # s) \<longleftrightarrow> p c \<and> matches ((p, Star) # es) s"
  by (subst matches.simps) simp

text \<open>The executable matcher finds exactly the prefixes of the language.\<close>

lemma match_ends_iff: "k \<in> set (match_ends es s) \<longleftrightarrow> k \<le> length s \<and> matches es (take k s)"
proof (induction es s arbitrary: k rule: match_ends.induct)
  case (2 p es s)
  show ?case
  proof (cases s)
    case (Cons c cs)
    from 2[OF Cons] show ?thesis using Cons by (cases k) (auto simp: image_iff)
  qed (use 2 in simp)
next
  case (3 p n es s)
  show ?case
  proof (cases s)
    case (Cons c cs)
    from 3(2)[OF Cons] show ?thesis using 3(1)[unfolded Cons] unfolding Cons
      by (cases k; cases "p c"; cases n) (simp_all add: image_iff conj_disj_distribL)
  next
    case Nil
    show ?thesis using 3(1)[of k, unfolded Nil] unfolding Nil by (cases k) simp_all
  qed
next
  case (4 p es s)
  show ?case
  proof (cases s)
    case (Cons c cs)
    from 4(2)[OF Cons] show ?thesis using 4(1)[unfolded Cons] unfolding Cons by (cases k; cases "p c") (simp_all add: image_iff conj_disj_distribL)
  next
    case Nil
    show ?thesis using 4(1)[of k, unfolded Nil] unfolding Nil by (cases k) simp_all
  qed
next
  case (5 p es s)
  show ?case
  proof (cases s)
    case (Cons c cs)
    from 5[OF Cons] show ?thesis using Cons by (cases k) (auto simp: image_iff)
  qed (use 5 in simp)
qed auto

text \<open>An expression: whether it is anchored at the start, what stands in front of the group, the group, what stands behind it, and whether it is
  anchored at the end.\<close>

record regex =
  rx_start :: bool
  rx_pre :: "elem list"
  rx_group :: "elem list"
  rx_post :: "elem list"
  rx_end :: bool

text \<open>The ways to match at a position: the lengths of the three parts.\<close>

definition match_at :: "regex \<Rightarrow> string \<Rightarrow> (nat \<times> nat \<times> nat) list" where
  "match_at rx s =
     [(a, b, c). a \<leftarrow> match_ends (rx_pre rx) s, b \<leftarrow> match_ends (rx_group rx) (drop a s), c \<leftarrow> match_ends (rx_post rx) (drop (a + b) s),
        \<not> rx_end rx \<or> a + b + c = length s]"

text \<open>Of two ways to match at one position POSIX prefers the longer one and then the one whose parts are longer from the left.\<close>

fun better :: "nat \<times> nat \<times> nat \<Rightarrow> nat \<times> nat \<times> nat \<Rightarrow> bool" where
  "better (a, b, c) (a', b', c') \<longleftrightarrow>
     a + b + c > a' + b' + c' \<or> a + b + c = a' + b' + c' \<and> (a > a' \<or> a = a' \<and> b > b')"

definition best :: "(nat \<times> nat \<times> nat) list \<Rightarrow> nat \<times> nat \<times> nat" where
  "best ms = fold (\<lambda>m acc. if better m acc then m else acc) (tl ms) (hd ms)"

text \<open>\<^verbatim>\<open>regexec\<close> with \<^verbatim>\<open>matches[1]\<close>: start and end of the group in the leftmost match.\<close>

fun regexec_from :: "regex \<Rightarrow> nat \<Rightarrow> string \<Rightarrow> (nat \<times> nat) option" where
  "regexec_from rx i s =
     (case match_at rx s of
        m # ms \<Rightarrow> (case best (m # ms) of (a, b, c) \<Rightarrow> Some (i + a, i + a + b))
      | [] \<Rightarrow> (case s of [] \<Rightarrow> None | c # cs \<Rightarrow> if rx_start rx then None else regexec_from rx (Suc i) cs))"

declare regexec_from.simps [simp del]

definition regexec :: "regex \<Rightarrow> string \<Rightarrow> (nat \<times> nat) option" where
  "regexec rx s = regexec_from rx 0 s"

text \<open>The text of the group.\<close>

definition group_text :: "string \<Rightarrow> nat \<times> nat \<Rightarrow> string" where
  "group_text s m = drop (fst m) (take (snd m) s)"

definition lit :: "string \<Rightarrow> elem list" where
  "lit t = map (\<lambda>c. ((=) c, One)) t"

definition repeat :: "nat \<Rightarrow> (char \<Rightarrow> bool) \<Rightarrow> elem list" where
  "repeat n p = [(p, One), (p, Upto (n - 1))]"

text \<open>A name put into an expression: a dot stands for any character and a plus repeats what is in front of it; the other
  characters of interface names stand for themselves.\<close>

fun ere_name :: "elem list \<Rightarrow> string \<Rightarrow> elem list" where
  "ere_name acc [] = rev acc"
| "ere_name acc (c # cs) =
     (if c = CHR ''.'' then ere_name ((\<lambda>_. True, One) # acc) cs
      else if c = CHR ''+'' \<and> acc \<noteq> [] then
        ere_name ((fst (hd acc), Plus) # tl acc) cs
      else ere_name (((=) c, One) # acc) cs)"


section \<open>Tokens and numbers\<close>

text \<open>The tokens \<^verbatim>\<open>strtok\<close> delivers one by one.\<close>

definition is_delim :: "string \<Rightarrow> char \<Rightarrow> bool" where
  "is_delim delims c \<longleftrightarrow> c \<in> set delims"

function strtok_tokens :: "string \<Rightarrow> string \<Rightarrow> string list" where
  "strtok_tokens delims s =
     (case dropWhile (is_delim delims) s of
        [] \<Rightarrow> []
      | c # cs \<Rightarrow> takeWhile (\<lambda>x. \<not> is_delim delims x) (c # cs) # strtok_tokens delims (dropWhile (\<lambda>x. \<not> is_delim delims x) cs))"
  by pat_completeness auto
termination
proof (relation "measure (\<lambda>(delims, s). length s)")
  fix delims s c cs
  assume "dropWhile (is_delim delims) s = c # cs"
  then have "Suc (length cs) \<le> length s" using length_dropWhile_le[of "is_delim delims" s] by simp
  then show "((delims, dropWhile (\<lambda>x. \<not> is_delim delims x) cs), delims, s) \<in> measure (\<lambda>(delims, s). length s)"
    using length_dropWhile_le[of "\<lambda>x. \<not> is_delim delims x" cs] by simp
qed simp

declare strtok_tokens.simps [simp del]

text \<open>\<^verbatim>\<open>atoi\<close> reads a \<^verbatim>\<open>long\<close> and converts it to \<^verbatim>\<open>int\<close>.\<close>

definition atoi :: "string \<Rightarrow> int" where
  "atoi s = sint (of_int (fst (strtoll s)) :: u32)"

lemma strtok_tokens_clean: "t \<in> set (strtok_tokens delims s) \<Longrightarrow> t \<noteq> [] \<and> (\<forall>c \<in> set t. c \<in> set s \<and> \<not> is_delim delims c)"
proof (induction delims s rule: strtok_tokens.induct)
  case (1 delims s)
  show ?case
  proof (cases "dropWhile (is_delim delims) s")
    case Nil
    have "strtok_tokens delims s = []" by (subst strtok_tokens.simps) (simp only: Nil list.case)
    then show ?thesis using 1(2) by simp
  next
    case (Cons c cs)
    have c: "\<not> is_delim delims c" using Cons by (metis hd_dropWhile list.sel(1) list.distinct(1))
    have sub: "set (c # cs) \<subseteq> set s" using Cons set_dropWhileD by (metis subsetI)
    have "t = takeWhile (\<lambda>x. \<not> is_delim delims x) (c # cs) \<or> t \<in> set (strtok_tokens delims (dropWhile (\<lambda>x. \<not> is_delim delims x) cs))"
    proof -
      have "strtok_tokens delims s = takeWhile (\<lambda>x. \<not> is_delim delims x) (c # cs) # strtok_tokens delims (dropWhile (\<lambda>x. \<not> is_delim delims x) cs)"
        by (subst strtok_tokens.simps) (simp only: Cons list.case)
      then show ?thesis using 1(2) by (metis set_ConsD)
    qed
    then show ?thesis
    proof
      assume "t = takeWhile (\<lambda>x. \<not> is_delim delims x) (c # cs)"
      then show ?thesis using c sub by (auto dest!: set_takeWhileD)
    next
      assume "t \<in> set (strtok_tokens delims (dropWhile (\<lambda>x. \<not> is_delim delims x) cs))"
      from 1(1)[OF Cons this] show ?thesis using sub by (auto dest: set_dropWhileD)
    qed
  qed
qed

end
