(* ===== verification/Quick.thy ===== *)
theory Quick
  imports Regex
begin

text \<open>
  The way \<^verbatim>\<open>wireguard-tools/src/wg-quick/android.c\<close> works: a shell script written in C. A program runs commands, reads the output of
  others and may exit at any command. Its state is the sequence of what it has done so far; what the commands answer is
  an argument and may depend on all that was done before. What the program prints is not modelled, nor a failing
  \<^verbatim>\<open>xmalloc\<close>, which ends the program.
\<close>

section \<open>Programs\<close>

datatype event =
    System string               \<comment> \<open>run by \<^verbatim>\<open>system\<close>\<close>
  | Popen string                \<comment> \<open>opened for reading\<close>
  | Wrote string string         \<comment> \<open>opened for writing, and the text\<close>
  | Transact nat "u32 list"     \<comment> \<open>call of a service with its parcel\<close>

record quick =
  q_trace :: "event list"
  q_exiting :: bool

datatype halt = Exit int | Crash | Execs "string list" | Loops

type_synonym 'a prog = "quick \<Rightarrow> (halt + 'a) \<times> quick"

definition returns :: "'a \<Rightarrow> 'a prog" where
  "returns x s = (Inr x, s)"

definition halts :: "halt \<Rightarrow> 'a prog" where
  "halts h s = (Inl h, s)"

abbreviation exit :: "int \<Rightarrow> 'a prog" where
  "exit c \<equiv> halts (Exit c)"

definition andthen :: "'a prog \<Rightarrow> ('a \<Rightarrow> 'b prog) \<Rightarrow> 'b prog" where
  "andthen m f s = (case m s of (Inl h, s') \<Rightarrow> (Inl h, s') | (Inr x, s') \<Rightarrow> f x s')"

fun run_all :: "unit prog list \<Rightarrow> unit prog" where
  "run_all [] = returns ()"
| "run_all (m # ms) = andthen m (\<lambda>_. run_all ms)"

text \<open>What surrounds the program: the status \<^verbatim>\<open>system\<close> returns, the errno of a failing \<^verbatim>\<open>popen\<close> or the lines a command writes with the errno
  at their end, the errno of a failing write or the status of \<^verbatim>\<open>pclose\<close>, the numbers \<^verbatim>\<open>random\<close> delivers, the version of the system,
  the user, the errno of \<^verbatim>\<open>execvp\<close>, the calling package, files, the bytes that follow a string in its allocation, and the
  resolver service.\<close>

record service =
  b_class :: bool                                  \<comment> \<open>the class can be defined and associated\<close>
  b_prepare :: int
  b_write :: "u32 list \<Rightarrow> int"                     \<comment> \<open>status of a write to a parcel\<close>
  b_seek :: "nat \<Rightarrow> int"                         \<comment> \<open>status of setting the position\<close>
  b_strings :: "string list \<Rightarrow> u32 list"           \<comment> \<open>how an array of strings is written\<close>
  b_string :: "string \<Rightarrow> u32 list"
  b_transact :: "nat \<Rightarrow> u32 list \<Rightarrow> int"
  b_header :: "nat \<Rightarrow> int"                         \<comment> \<open>status of reading the header of the reply\<close>
  b_exception :: "nat \<Rightarrow> (int \<times> int) option"       \<comment> \<open>exception and status of the reply\<close>

record shell =
  qs_system :: "event list \<Rightarrow> string \<Rightarrow> int"
  qs_popen :: "event list \<Rightarrow> string \<Rightarrow> int + (string list \<times> int)"
  qs_write :: "event list \<Rightarrow> string \<Rightarrow> string \<Rightarrow> int + int"
  qs_random :: "nat \<Rightarrow> u32"
  qs_sdk :: u32
  qs_root :: bool
  qs_exec :: int
  qs_package :: "string option"
  qs_fopen :: "string \<Rightarrow> int + string"
  qs_after :: "string \<Rightarrow> string"
  qs_resolver :: "service option"

definition EIO :: int where "EIO = 5"
definition EEXIST :: int where "EEXIST = 17"
definition ENONET :: int where "ENONET = 64"
definition EMEDIUMTYPE :: int where "EMEDIUMTYPE = 124"


section \<open>Commands\<close>

text \<open>\<^verbatim>\<open>WIFEXITED(s) ? WEXITSTATUS(s) : EIO\<close>\<close>

definition exit_status :: "int \<Rightarrow> int" where
  "exit_status r = (if r mod 128 = 0 then r div 256 mod 256 else EIO)"

definition cmd :: "shell \<Rightarrow> string \<Rightarrow> unit prog" where
  "cmd sh text s =
     (let r = qs_system sh (q_trace s) text;
          s' = s\<lparr> q_trace := q_trace s @ [System text] \<rparr>;
          ret = (if r < 0 then ESRCH else if r > 0 then exit_status r else r)
      in if ret \<noteq> 0 \<and> \<not> q_exiting s then (Inl (Exit ret), s') else (Inr (), s'))"

text \<open>\<^verbatim>\<open>struct command_buffer\<close> is the stream, as the lines still to come and the errno behind them.\<close>

type_synonym command_buffer = "(string list \<times> int) option"

fun buffer_getline :: "string list \<times> int \<Rightarrow> (string option \<times> command_buffer) prog" where
  "buffer_getline ([], e) = (if e \<noteq> 0 then exit e else returns (None, Some ([], e)))"
| "buffer_getline (l # ls, e) = returns (Some (cstr l), Some (ls, e))"

definition vcmd_ret :: "shell \<Rightarrow> command_buffer \<Rightarrow> string option \<Rightarrow> (string option \<times> command_buffer) prog" where
  "vcmd_ret sh c cmd_text s =
     (case cmd_text of
        None \<Rightarrow> (case c of None \<Rightarrow> returns (None, c) s | Some st \<Rightarrow> buffer_getline st s)
      | Some text \<Rightarrow>
          (case qs_popen sh (q_trace s) text of
             Inl e \<Rightarrow> exit e s
           | Inr st \<Rightarrow> buffer_getline st (s\<lparr> q_trace := q_trace s @ [Popen text] \<rparr>)))"

definition cmd_ret :: "shell \<Rightarrow> command_buffer \<Rightarrow> string option \<Rightarrow> (string option \<times> command_buffer) prog" where
  "cmd_ret sh c cmd_text = vcmd_ret sh c cmd_text"

text \<open>The loops \<^verbatim>\<open>for (x = cmd_ret(&c, text); x; x = cmd_ret(&c, NULL))\<close>, with a value the body changes; \<^verbatim>\<open>break\<close> is the flag it returns.\<close>

fun loop_lines :: "('a \<Rightarrow> string \<Rightarrow> (bool \<times> 'a) prog) \<Rightarrow> 'a \<Rightarrow> string list \<times> int \<Rightarrow> 'a prog" where
  "loop_lines body x ([], e) = (if e \<noteq> 0 then exit e else returns x)"
| "loop_lines body x (l # ls, e) = andthen (body x (cstr l)) (\<lambda>(brk, x'). if brk then returns x' else loop_lines body x' (ls, e))"

definition for_lines :: "shell \<Rightarrow> string \<Rightarrow> ('a \<Rightarrow> string \<Rightarrow> (bool \<times> 'a) prog) \<Rightarrow> 'a \<Rightarrow> 'a prog" where
  "for_lines sh text body x s =
     (case qs_popen sh (q_trace s) text of
        Inl e \<Rightarrow> exit e s
      | Inr st \<Rightarrow> loop_lines body x st (s\<lparr> q_trace := q_trace s @ [Popen text] \<rparr>))"

definition cndc :: "shell \<Rightarrow> string \<Rightarrow> unit prog" where
  "cndc sh text =
     andthen (vcmd_ret sh None (Some (''ndc '' @ text))) (\<lambda>(ret, c).
       case ret of
         None \<Rightarrow> exit ENOSYS
       | Some line \<Rightarrow> let error_code = atoi line in if error_code \<ge> 400 \<and> error_code < 600 then exit ENONET else returns ())"

definition concat_and_free :: "string option \<Rightarrow> string \<Rightarrow> string \<Rightarrow> string option" where
  "concat_and_free orig delim new_line = Some (case orig of None \<Rightarrow> new_line | Some t \<Rightarrow> t @ delim @ new_line)"

text \<open>The loop over a stream is the iteration of \<^const>\<open>cmd_ret\<close>.\<close>

lemma loop_lines_cmd_ret:
  "loop_lines body x st s =
     andthen (cmd_ret sh (Some st) None) (\<lambda>(line, c).
       case line of None \<Rightarrow> returns x | Some l \<Rightarrow> andthen (body x l) (\<lambda>(brk, x'). if brk then returns x' else loop_lines body x' (the c))) s"
  by (cases st rule: buffer_getline.cases) (simp_all add: cmd_ret_def vcmd_ret_def andthen_def returns_def halts_def split: prod.split sum.split)

lemma for_lines_cmd_ret:
  "for_lines sh text body x s =
     andthen (cmd_ret sh None (Some text)) (\<lambda>(line, c).
       case line of None \<Rightarrow> returns x | Some l \<Rightarrow> andthen (body x l) (\<lambda>(brk, x'). if brk then returns x' else loop_lines body x' (the c))) s"
proof (cases "qs_popen sh (q_trace s) text")
  case (Inr st)
  then show ?thesis
    by (cases st rule: buffer_getline.cases)
      (simp_all add: for_lines_def cmd_ret_def vcmd_ret_def andthen_def returns_def halts_def split: prod.split sum.split)
qed (simp add: for_lines_def cmd_ret_def vcmd_ret_def andthen_def halts_def)


section \<open>Reasoning about traces\<close>

text \<open>A program that only adds events with a property and leaves the flag alone, whatever the commands answer.\<close>

definition emits :: "(event \<Rightarrow> bool) \<Rightarrow> 'a prog \<Rightarrow> bool" where
  "emits P m \<longleftrightarrow> (\<forall>s. \<exists>es. q_trace (snd (m s)) = q_trace s @ es \<and> list_all P es \<and> q_exiting (snd (m s)) = q_exiting s)"

named_theorems emits_intros

lemma emitsE:
  assumes "emits P m"
  obtains es where "q_trace (snd (m s)) = q_trace s @ es" "list_all P es" "q_exiting (snd (m s)) = q_exiting s"
  using assms unfolding emits_def by blast

lemma emits_returns [emits_intros]: "emits P (returns x)"
  by (simp add: emits_def returns_def)

lemma emits_halts [emits_intros]: "emits P (halts h)"
  by (simp add: emits_def halts_def)

lemma emits_andthen [emits_intros]:
  assumes "emits P m" "\<And>x. emits P (f x)"
  shows "emits P (andthen m f)"
  unfolding emits_def
proof
  fix s
  obtain r s1 where m: "m s = (r, s1)" by (cases "m s")
  obtain es where es: "q_trace s1 = q_trace s @ es" "list_all P es" "q_exiting s1 = q_exiting s"
    using emitsE[OF assms(1), of s] m by auto
  show "\<exists>es. q_trace (snd (andthen m f s)) = q_trace s @ es \<and> list_all P es \<and> q_exiting (snd (andthen m f s)) = q_exiting s"
  proof (cases r)
    case (Inr x)
    obtain fs where "q_trace (snd (f x s1)) = q_trace s1 @ fs" "list_all P fs" "q_exiting (snd (f x s1)) = q_exiting s1"
      using emitsE[OF assms(2)] .
    then show ?thesis using m es Inr by (auto simp: andthen_def)
  qed (use m es in \<open>auto simp: andthen_def\<close>)
qed

lemma emits_run_all [emits_intros]: "(\<And>m. m \<in> set ms \<Longrightarrow> emits P m) \<Longrightarrow> emits P (run_all ms)"
  by (induction ms) (auto intro!: emits_intros)

lemma emits_cmd [emits_intros]: "P (System text) \<Longrightarrow> emits P (cmd sh text)"
  by (auto simp: emits_def cmd_def Let_def)

lemma emits_getline: "emits P (buffer_getline st)"
  by (cases st rule: buffer_getline.cases) (auto intro!: emits_intros)

lemma emits_popen:
  assumes "P (Popen text)" "\<And>st. emits P (m st)"
  shows "emits P (\<lambda>s. case qs_popen sh (q_trace s) text of Inl e \<Rightarrow> exit e s | Inr st \<Rightarrow> m st (s\<lparr> q_trace := q_trace s @ [Popen text] \<rparr>))"
  unfolding emits_def
proof
  fix s
  show "\<exists>es. q_trace (snd (case qs_popen sh (q_trace s) text of Inl e \<Rightarrow> exit e s | Inr st \<Rightarrow> m st (s\<lparr> q_trace := q_trace s @ [Popen text] \<rparr>))) =
      q_trace s @ es \<and> list_all P es \<and>
      q_exiting (snd (case qs_popen sh (q_trace s) text of Inl e \<Rightarrow> exit e s | Inr st \<Rightarrow> m st (s\<lparr> q_trace := q_trace s @ [Popen text] \<rparr>))) = q_exiting s"
  proof (cases "qs_popen sh (q_trace s) text")
    case (Inr st)
    let ?s = "s\<lparr> q_trace := q_trace s @ [Popen text] \<rparr>"
    obtain es where "q_trace (snd (m st ?s)) = q_trace ?s @ es" "list_all P es" "q_exiting (snd (m st ?s)) = q_exiting ?s"
      using emitsE[OF assms(2)] .
    then show ?thesis using Inr assms(1) by (intro exI[of _ "Popen text # es"]) simp
  qed (simp add: halts_def)
qed

lemma emits_vcmd_ret [emits_intros]:
  assumes "case t of None \<Rightarrow> True | Some text \<Rightarrow> P (Popen text)"
  shows "emits P (vcmd_ret sh c t)"
proof (cases t)
  case None
  then show ?thesis using emits_getline[of P "the c"] by (cases c) (simp_all add: emits_def vcmd_ret_def returns_def)
next
  case (Some x)
  then show ?thesis using emits_popen[of P x buffer_getline sh] assms emits_getline by (simp add: vcmd_ret_def[abs_def])
qed

lemma emits_cmd_ret [emits_intros]:
  "(case t of None \<Rightarrow> True | Some text \<Rightarrow> P (Popen text)) \<Longrightarrow> emits P (cmd_ret sh c t)"
  unfolding cmd_ret_def by (rule emits_vcmd_ret)

lemma emits_loop_lines: "(\<And>x l. emits P (body x l)) \<Longrightarrow> emits P (loop_lines body x st)"
proof (induction body x st rule: loop_lines.induct)
  case (2 body x l ls e)
  then show ?case by (auto intro!: emits_intros)
qed (auto intro!: emits_intros)

lemma emits_for_lines [emits_intros]:
  "P (Popen text) \<Longrightarrow> (\<And>x l. emits P (body x l)) \<Longrightarrow> emits P (for_lines sh text body x)"
  unfolding for_lines_def[abs_def] by (rule emits_popen) (auto intro: emits_loop_lines)

lemma emits_cndc [emits_intros]: "P (Popen (''ndc '' @ text)) \<Longrightarrow> emits P (cndc sh text)"
  unfolding cndc_def by (auto simp: Let_def intro!: emits_intros split: option.split)

end
