(* ===== verification/Quick_Options.thy ===== *)
theory Quick_Options
  imports Quick
begin

text \<open>
  \<^verbatim>\<open>parse_options\<close> of \<^verbatim>\<open>wg-quick/android.c\<close>: finding the configuration file of an interface and splitting it into the keys
  \<^verbatim>\<open>wg-quick\<close> handles itself and the text it passes on to \<^verbatim>\<open>wg\<close>. That \<^verbatim>\<open>fstat\<close> fails on the open file is not modelled.
\<close>

section \<open>Model\<close>

record opts =
  o_iface :: "string option"
  o_config :: "string option"
  o_mtu :: u32
  o_addrs :: "string option"
  o_dnses :: "string option"
  o_excluded :: "string option"
  o_included :: "string option"
  o_section :: bool

definition no_opts :: opts where
  "no_opts = \<lparr> o_iface = None, o_config = None, o_mtu = 0, o_addrs = None, o_dnses = None, o_excluded = None, o_included = None,
     o_section = False \<rparr>"

definition iface_char :: "char \<Rightarrow> bool" where
  "iface_char c \<longleftrightarrow> is_alpha c \<or> is_digit c \<or> c \<in> set ''_=+.-''"

definition regex_iface :: regex where
  "regex_iface = \<lparr> rx_start = True, rx_pre = [], rx_group = repeat 15 iface_char, rx_post = [], rx_end = True \<rparr>"

definition regex_conf :: regex where
  "regex_conf = \<lparr> rx_start = False, rx_pre = [((=) (CHR ''/''), Upto 1)], rx_group = repeat 15 iface_char, rx_post = lit ''.conf'', rx_end = True \<rparr>"

text \<open>One pass of the loop over the lines: \<open>None\<close> is the early return.\<close>

definition option_line :: "opts \<Rightarrow> string \<Rightarrow> opts option" where
  "option_line o1 line =
     (if length line > 65536 then None
      else
        let clean = filter (\<lambda>c. \<not> is_space c) line;
            j = length clean;
            section1 = (if char_at clean 0 = CHR ''['' then False else o_section o1);
            section2 = (if strcaseeq clean ''[Interface]'' then True else section1);
            o2 = o1\<lparr> o_section := section2 \<rparr>
        in Some (if section2 \<and> strncaseeq clean ''Address='' 8 \<and> j > 8 then o2\<lparr> o_addrs := concat_and_free (o_addrs o2) '','' (drop 8 clean) \<rparr>
           else if section2 \<and> strncaseeq clean ''DNS='' 4 \<and> j > 4 then o2\<lparr> o_dnses := concat_and_free (o_dnses o2) '','' (drop 4 clean) \<rparr>
           else if section2 \<and> strncaseeq clean ''ExcludedApplications='' 21 \<and> j > 4 then
             o2\<lparr> o_excluded := concat_and_free (o_excluded o2) '','' (drop 21 clean) \<rparr>
           else if section2 \<and> strncaseeq clean ''IncludedApplications='' 21 \<and> j > 4 then
             o2\<lparr> o_included := concat_and_free (o_included o2) '','' (drop 21 clean) \<rparr>
           else if section2 \<and> strncaseeq clean ''MTU='' 4 \<and> j > 4 then o2\<lparr> o_mtu := of_int (atoi (drop 4 clean)) \<rparr>
           else o2\<lparr> o_config := concat_and_free (o_config o2) [] line \<rparr>))"

definition some_text :: "string option \<Rightarrow> string option" where
  "some_text t = (case t of None \<Rightarrow> Some [] | Some x \<Rightarrow> Some x)"

fun option_lines :: "opts \<Rightarrow> string list \<Rightarrow> opts" where
  "option_lines o1 [] = o1\<lparr> o_iface := some_text (o_iface o1), o_config := some_text (o_config o1), o_addrs := some_text (o_addrs o1),
     o_dnses := some_text (o_dnses o1) \<rparr>"
| "option_lines o1 (line # ls) = (case option_line o1 (cstr line) of None \<Rightarrow> o1 | Some o2 \<Rightarrow> option_lines o2 ls)"

definition WG_CONFIG_SEARCH_PATHS :: string where
  "WG_CONFIG_SEARCH_PATHS = ''/data/misc/wireguard /data/data/com.wireguard.android/files''"

text \<open>The search for the file: its name and content, or the last errno.\<close>

fun find_config :: "shell \<Rightarrow> string \<Rightarrow> int \<Rightarrow> string list \<Rightarrow> int + (string \<times> string)" where
  "find_config sh arg e [] = Inl e"
| "find_config sh arg e (path # paths) =
     (case qs_fopen sh (path @ ''/'' @ arg @ ''.conf'') of
        Inr content \<Rightarrow> Inr (path @ ''/'' @ arg @ ''.conf'', content)
      | Inl e' \<Rightarrow> find_config sh arg e' paths)"

definition open_config :: "shell \<Rightarrow> string \<Rightarrow> int + (string \<times> string)" where
  "open_config sh arg =
     (if regexec regex_iface arg \<noteq> None then find_config sh arg 0 (strtok_tokens '' '' WG_CONFIG_SEARCH_PATHS)
      else (case qs_fopen sh arg of Inl e \<Rightarrow> Inl e | Inr content \<Rightarrow> Inr (arg, content)))"

definition parse_options :: "shell \<Rightarrow> string \<Rightarrow> opts prog" where
  "parse_options sh arg =
     (case open_config sh arg of
        Inl e \<Rightarrow> exit e
      | Inr (filename, content) \<Rightarrow>
          (case regexec regex_conf filename of
             None \<Rightarrow> exit EINVAL
           | Some m \<Rightarrow> returns (option_lines (no_opts\<lparr> o_iface := Some (group_text filename m) \<rparr>) (getlines content))))"


section \<open>Splitting a file\<close>

text \<open>The text collected so far, and adding to it.\<close>

definition opt_text :: "string option \<Rightarrow> string" where
  "opt_text t = (case t of None \<Rightarrow> [] | Some x \<Rightarrow> x)"

lemma concat_and_free_text: "concat_and_free t [] l = Some (opt_text t @ l)"
  by (cases t) (simp_all add: concat_and_free_def opt_text_def)

text \<open>A cleaned line with a key \<^verbatim>\<open>wg-quick\<close> handles.\<close>

definition quick_key :: "string \<Rightarrow> bool" where
  "quick_key cl \<longleftrightarrow> strncaseeq cl ''Address='' 8 \<or> strncaseeq cl ''DNS='' 4 \<or> strncaseeq cl ''ExcludedApplications='' 21 \<or>
     strncaseeq cl ''IncludedApplications='' 21 \<or> strncaseeq cl ''MTU='' 4"

definition next_section :: "bool \<Rightarrow> string \<Rightarrow> bool" where
  "next_section sec cl = (if strcaseeq cl ''[Interface]'' then True else if char_at cl 0 = CHR ''['' then False else sec)"

lemma option_line_keep:
  assumes "length line \<le> 65536" "\<not> (next_section (o_section o1) (despace line) \<and> quick_key (despace line))"
  shows "option_line o1 line =
    Some (o1\<lparr> o_section := next_section (o_section o1) (despace line), o_config := Some (opt_text (o_config o1) @ line) \<rparr>)"
proof -
  have sec: "(if strcaseeq (despace line) ''[Interface]'' then True else if char_at (despace line) 0 = CHR ''['' then False else o_section o1) =
      next_section (o_section o1) (despace line)" by (simp add: next_section_def)
  have c: "\<not> (next_section (o_section o1) (despace line) \<and> strncaseeq (despace line) ''Address='' 8)"
    "\<not> (next_section (o_section o1) (despace line) \<and> strncaseeq (despace line) ''DNS='' 4)"
    "\<not> (next_section (o_section o1) (despace line) \<and> strncaseeq (despace line) ''ExcludedApplications='' 21)"
    "\<not> (next_section (o_section o1) (despace line) \<and> strncaseeq (despace line) ''IncludedApplications='' 21)"
    "\<not> (next_section (o_section o1) (despace line) \<and> strncaseeq (despace line) ''MTU='' 4)"
    using assms(2) unfolding quick_key_def by blast+
  show ?thesis
    unfolding option_line_def despace_def[symmetric] Let_def sec concat_and_free_text
    using assms(1) c by (simp only: not_less[symmetric] if_False conj_assoc[symmetric] simp_thms) simp
qed

text \<open>The lines of a file for \<^verbatim>\<open>wg-quick\<close>.\<close>

datatype quick_kind = Address | Dns | Excluded | Included | Mtu

fun kind_text :: "quick_kind \<Rightarrow> string" where
  "kind_text Address = ''Address''"
| "kind_text Dns = ''DNS''"
| "kind_text Excluded = ''ExcludedApplications''"
| "kind_text Included = ''IncludedApplications''"
| "kind_text Mtu = ''MTU''"

definition quick_text :: "quick_kind \<times> string \<Rightarrow> string" where
  "quick_text q = kind_text (fst q) @ '' = '' @ snd q"

definition quick_ok :: "quick_kind \<times> string \<Rightarrow> bool" where
  "quick_ok q \<longleftrightarrow> plain_text (snd q) \<and> length (snd q) < 65000"

fun quick_apply :: "quick_kind \<times> string \<Rightarrow> opts \<Rightarrow> opts" where
  "quick_apply (Address, v) o1 = o1\<lparr> o_addrs := concat_and_free (o_addrs o1) '','' v \<rparr>"
| "quick_apply (Dns, v) o1 = o1\<lparr> o_dnses := concat_and_free (o_dnses o1) '','' v \<rparr>"
| "quick_apply (Excluded, v) o1 = o1\<lparr> o_excluded := concat_and_free (o_excluded o1) '','' v \<rparr>"
| "quick_apply (Included, v) o1 = o1\<lparr> o_included := concat_and_free (o_included o1) '','' v \<rparr>"
| "quick_apply (Mtu, v) o1 = o1\<lparr> o_mtu := of_int (atoi v) \<rparr>"

lemma despace_quick: "plain_text v \<Longrightarrow> despace (quick_text (k, v) @ [newline]) = kind_text k @ ''='' @ v"
  by (cases k) (simp_all add: quick_text_def despace_def filter_id_conv plain_text_def text_char_def)

lemma option_line_quick:
  assumes "quick_ok q" "o_section o1"
  shows "option_line o1 (quick_text q @ [newline]) = Some (quick_apply q o1)"
proof -
  obtain k v where q: "q = (k, v)" by (cases q)
  have v: "plain_text v" "v \<noteq> []" "length v < 65000" using assms(1) by (auto simp: quick_ok_def q plain_text_def)
  have d: "filter (\<lambda>c. \<not> is_space c) (quick_text (k, v) @ [newline]) = kind_text k @ ''='' @ v"
    using despace_quick[OF v(1)] by (simp only: despace_def)
  have l: "\<not> 65536 < length (quick_text (k, v) @ [newline])" using v(3) by (cases k) (simp_all add: quick_text_def)
  have o1: "o1\<lparr> o_section := True \<rparr> = o1" using assms(2) by (cases o1) simp
  show ?thesis
    unfolding q option_line_def d Let_def using l v(2) assms(2) o1
    by (cases k) (simp_all add: strncaseeq_def strcaseeq_def tolower_def char_at_def char_of_def bit_iff_odd)
qed

lemma option_lines_quick:
  assumes "list_all quick_ok qs" "o_section o1"
  shows "option_lines o1 (map (\<lambda>q. quick_text q @ [newline]) qs @ ls) = option_lines (fold quick_apply qs o1) ls"
  using assms
proof (induction qs arbitrary: o1)
  case (Cons q qs)
  obtain k v where q: "q = (k, v)" by (cases q)
  have ok: "line_ok (quick_text q)"
    using Cons.prems(1) plain_text_line_ok[of v] by (cases k) (simp_all add: q quick_ok_def quick_text_def line_ok_def)
  have "o_section (quick_apply q o1)" using Cons.prems(2) by (cases k) (simp_all add: q)
  moreover have "option_line o1 (cstr (quick_text q @ [newline])) = Some (quick_apply q o1)"
    unfolding cstr_line[OF ok] using Cons.prems by (intro option_line_quick) simp_all
  ultimately show ?case using Cons by simp
qed simp

text \<open>Lines that are passed on, and the section behind them.\<close>

fun keeps :: "bool \<Rightarrow> string list \<Rightarrow> bool" where
  "keeps sec [] = True"
| "keeps sec (l # ls) \<longleftrightarrow> \<not> (next_section sec (despace l) \<and> quick_key (despace l)) \<and> keeps (next_section sec (despace l)) ls"

definition section_after :: "bool \<Rightarrow> string list \<Rightarrow> bool" where
  "section_after sec ls = fold (\<lambda>l sec. next_section sec (despace l)) ls sec"

lemma keeps_append: "keeps sec (a @ b) \<longleftrightarrow> keeps sec a \<and> keeps (section_after sec a) b"
  by (induction a arbitrary: sec) (simp_all add: section_after_def)

lemma section_after_append: "section_after sec (a @ b) = section_after (section_after sec a) b"
  by (simp add: section_after_def)

lemma option_lines_keeps:
  assumes "keeps (o_section o1) ls" "\<forall>l \<in> set ls. line_ok l \<and> length l < 65536" "o_config o1 = Some t"
  shows "option_lines o1 (map (\<lambda>l. l @ [newline]) ls @ rest) =
    option_lines (o1\<lparr> o_section := section_after (o_section o1) ls, o_config := Some (t @ unlines ls) \<rparr>) rest"
  using assms
proof (induction ls arbitrary: o1 t)
  case Nil
  then show ?case by (cases o1) (simp add: section_after_def)
next
  case (Cons l ls)
  have d: "despace (l @ [newline]) = despace l" by (simp add: despace_def)
  have "option_line o1 (cstr (l @ [newline])) =
      Some (o1\<lparr> o_section := next_section (o_section o1) (despace l), o_config := Some (t @ l @ [newline]) \<rparr>)"
    using Cons.prems cstr_line[of l] option_line_keep[of "l @ [newline]" o1] unfolding d by (simp add: opt_text_def)
  then show ?case using Cons.IH[of "o1\<lparr> o_section := next_section (o_section o1) (despace l), o_config := Some (t @ l @ [newline]) \<rparr>"] Cons.prems
    by (simp add: section_after_def)
qed

text \<open>A line that is no header leaves the section; outside the section of the interface every line is passed on.\<close>

definition no_header :: "string \<Rightarrow> bool" where
  "no_header l \<longleftrightarrow> (case despace l of [] \<Rightarrow> True | c # _ \<Rightarrow> c \<noteq> CHR ''['')"

lemma next_section_no_header:
  assumes "no_header l"
  shows "next_section sec (despace l) = sec"
proof (cases "despace l")
  case Nil
  then show ?thesis by (simp add: next_section_def strcaseeq_def char_at_def)
next
  case (Cons c cs)
  then have c: "c \<noteq> CHR ''[''" using assms by (simp add: no_header_def)
  have "\<not> strcaseeq (c # cs) ''[Interface]''"
  proof
    assume "strcaseeq (c # cs) ''[Interface]''"
    then have "tolower c = tolower (CHR ''['')" unfolding strcaseeq_def list.map by (rule list.inject[THEN iffD1, THEN conjunct1])
    then show False using c tolower_bracket[of c] tolower_bracket[of "CHR ''[''"] by simp
  qed
  then show ?thesis using c unfolding Cons by (simp add: next_section_def char_at_def)
qed

lemma next_section_peer: "\<not> next_section sec (despace ''[Peer]'')"
  by (simp add: next_section_def strcaseeq_def tolower_def char_at_def despace_def)

lemma keeps_no_header: "\<forall>l \<in> set ls. no_header l \<Longrightarrow> keeps False ls \<and> \<not> section_after False ls"
  by (induction ls) (simp_all add: next_section_no_header section_after_def)

lemma keeps_no_key: "\<forall>l \<in> set ls. no_header l \<and> \<not> quick_key (despace l) \<Longrightarrow> keeps True ls \<and> section_after True ls"
  by (induction ls) (simp_all add: next_section_no_header section_after_def)

lemma interface_keeps: "keeps True (tl (interface_lines d)) \<and> section_after True (tl (interface_lines d))"
proof (rule keeps_no_key, rule ballI)
  fix l assume "l \<in> set (tl (interface_lines d))"
  then consider v where "l = ''ListenPort = '' @ v" | v where "l = ''FwMark = 0x'' @ v" | v where "l = ''PrivateKey = '' @ v" | "l = []"
    unfolding interface_lines_def by (auto simp del: append.simps split: if_splits)
  then show "no_header l \<and> \<not> quick_key (despace l)"
    by cases (simp_all add: no_header_def quick_key_def strncaseeq_def despace_def tolower_def char_of_def bit_iff_odd)
qed

lemma peer_lines_cases:
  assumes "l \<in> set (tl (peer_lines pr p))"
  shows "no_header l"
proof -
  have e: "\<exists>v. m = ''Endpoint = '' @ v" if "m \<in> set (endpoint_lines pr sa)" for m sa
    using that by (auto simp: endpoint_lines_def split: sockaddr.splits option.splits)
  have "(\<exists>v. l = ''PublicKey = '' @ v) \<or> (\<exists>v. l = ''PresharedKey = '' @ v) \<or> (\<exists>v. l = ''AllowedIPs = '' @ v) \<or>
      (\<exists>v. l = ''Endpoint = '' @ v) \<or> (\<exists>v. l = ''PersistentKeepalive = '' @ v)"
    using assms e unfolding peer_lines_def by (auto simp del: append.simps split: if_splits)
  then show ?thesis by (elim disjE exE) (simp_all add: no_header_def despace_def)
qed

lemma peer_keeps: "keeps sec (peer_lines pr p) \<and> \<not> section_after sec (peer_lines pr p)"
proof -
  have l: "peer_lines pr p = ''[Peer]'' # tl (peer_lines pr p)" by (simp add: peer_lines_def)
  have "keeps False (tl (peer_lines pr p)) \<and> \<not> section_after False (tl (peer_lines pr p))"
    by (rule keeps_no_header) (use peer_lines_cases in blast)
  then show ?thesis by (subst (1 2) l) (simp add: next_section_peer section_after_def)
qed

lemma peers_keeps: "keeps sec (peers_lines pr ps)"
proof (induction ps arbitrary: sec)
  case (Cons p ps)
  have n: "next_section sec [] = sec" for sec using next_section_no_header[of "[]" sec] by (simp add: no_header_def)
  show ?case using Cons peer_keeps[of sec pr p] by (auto simp: keeps_append section_after_append n section_after_def)
qed simp

text \<open>The values of one kind, and the values collected with commas.\<close>

definition kind_values :: "quick_kind \<Rightarrow> (quick_kind \<times> string) list \<Rightarrow> string list" where
  "kind_values k qs = map snd (filter (\<lambda>q. fst q = k) qs)"

definition joined :: "string option \<Rightarrow> string list \<Rightarrow> string option" where
  "joined t vs = fold (\<lambda>v t. concat_and_free t '','' v) vs t"

lemma joined_Some: "joined (Some t) vs = Some (t @ concat (map (\<lambda>v. CHR '','' # v) vs))"
  by (induction vs arbitrary: t) (simp_all add: joined_def concat_and_free_def)

lemma join_with_Cons: "join_with d (t # ts) = t @ concat (map (\<lambda>v. d # v) ts)"
  by (induction ts arbitrary: t) simp_all

lemma joined_None: "joined None vs = (if vs = [] then None else Some (join_with (CHR '','') vs))"
proof (cases vs)
  case (Cons v ws)
  have "joined None vs = joined (Some v) ws" by (simp add: Cons joined_def concat_and_free_def)
  then show ?thesis unfolding joined_Some by (simp add: Cons join_with_Cons)
qed (simp add: joined_def)

lemma fold_quick_apply:
  "o_addrs (fold quick_apply qs o1) = joined (o_addrs o1) (kind_values Address qs)"
  "o_dnses (fold quick_apply qs o1) = joined (o_dnses o1) (kind_values Dns qs)"
  "o_excluded (fold quick_apply qs o1) = joined (o_excluded o1) (kind_values Excluded qs)"
  "o_included (fold quick_apply qs o1) = joined (o_included o1) (kind_values Included qs)"
  "o_mtu (fold quick_apply qs o1) = fold (\<lambda>v _. of_int (atoi v)) (kind_values Mtu qs) (o_mtu o1)"
  "o_config (fold quick_apply qs o1) = o_config o1" "o_section (fold quick_apply qs o1) = o_section o1"
  "o_iface (fold quick_apply qs o1) = o_iface o1"
proof (induction qs arbitrary: o1)
  case (Cons q qs)
  obtain k v where q: "q = (k, v)" by (cases q)
  { case 1 show ?case using Cons(1) by (cases k) (simp_all add: q kind_values_def joined_def) }
  { case 2 show ?case using Cons(2) by (cases k) (simp_all add: q kind_values_def joined_def) }
  { case 3 show ?case using Cons(3) by (cases k) (simp_all add: q kind_values_def joined_def) }
  { case 4 show ?case using Cons(4) by (cases k) (simp_all add: q kind_values_def joined_def) }
  { case 5 show ?case using Cons(5) by (cases k) (simp_all add: q kind_values_def) }
  { case 6 show ?case using Cons(6) by (cases k) (simp_all add: q) }
  { case 7 show ?case using Cons(7) by (cases k) (simp_all add: q) }
  { case 8 show ?case using Cons(8) by (cases k) (simp_all add: q) }
qed (simp_all add: kind_values_def joined_def)

lemma fold_quick_apply_config:
  "(fold quick_apply qs (o1\<lparr> o_section := b, o_config := c \<rparr>))\<lparr> o_section := b', o_config := c' \<rparr> =
   (fold quick_apply qs o1)\<lparr> o_config := c', o_section := b' \<rparr>"
proof (induction qs arbitrary: o1)
  case (Cons q qs)
  obtain k v where q: "q = (k, v)" by (cases q)
  have "quick_apply q (o1\<lparr> o_section := b, o_config := c \<rparr>) = (quick_apply q o1)\<lparr> o_section := b, o_config := c \<rparr>" by (cases k) (simp_all add: q)
  then show ?case using Cons by simp
qed simp

text \<open>A file with the keys of \<^verbatim>\<open>wg-quick\<close> in front of the other lines of the interface.\<close>

definition quick_lines :: "printer \<Rightarrow> wgdevice \<Rightarrow> (quick_kind \<times> string) list \<Rightarrow> string list" where
  "quick_lines pr d qs = hd (interface_lines d) # map quick_text qs @ tl (interface_lines d) @ peers_lines pr (peers d)"

lemma quick_text_line_ok: "quick_ok q \<Longrightarrow> line_ok (quick_text q)"
  using plain_text_line_ok[of "snd q"] by (cases "fst q") (simp_all add: quick_ok_def quick_text_def line_ok_def)

lemma quick_lines_ok:
  assumes "config_world env pr" "printable pr d" "list_all quick_ok qs" "l \<in> set (quick_lines pr d qs)"
  shows "line_ok l"
proof -
  have i: "interface_lines d = hd (interface_lines d) # tl (interface_lines d)" by (simp add: interface_lines_def)
  have "l \<in> set (interface_lines d) \<or> l \<in> quick_text ` set qs \<or> l \<in> set (peers_lines pr (peers d))"
    using assms(4) by (subst i) (auto simp: quick_lines_def)
  then show ?thesis
    using assms(3) quick_text_line_ok config_world.interface_lines_ok[OF assms(1)] config_world.peers_lines_ok[OF assms(1)] assms(2)
    by (auto simp: list_all_iff printable_def)
qed

lemma option_lines_split:
  assumes "config_world env pr" "printable pr d" "list_all quick_ok qs" "\<forall>l \<in> set (quick_lines pr d qs). length l < 65536"
  shows "option_lines (no_opts\<lparr> o_iface := i \<rparr>) (getlines (unlines (quick_lines pr d qs))) =
    option_lines ((fold quick_apply qs (no_opts\<lparr> o_iface := i \<rparr>))\<lparr> o_config := Some (showconf pr d),
      o_section := section_after True (tl (interface_lines d) @ peers_lines pr (peers d)) \<rparr>) []"
proof -
  let ?h = "''[Interface]''" and ?ls = "tl (interface_lines d) @ peers_lines pr (peers d)"
  let ?o = "no_opts\<lparr> o_iface := i \<rparr>"
  let ?o1 = "?o\<lparr> o_section := True, o_config := Some (?h @ [newline]) \<rparr>"
  note ok = quick_lines_ok[OF assms(1-3)]
  have h: "hd (interface_lines d) = ?h" by (simp add: interface_lines_def)
  have lines: "quick_lines pr d qs = ?h # map quick_text qs @ ?ls" by (simp add: quick_lines_def h)
  have g: "getlines (unlines (quick_lines pr d qs)) = map (\<lambda>l. l @ [newline]) (quick_lines pr d qs)"
    by (rule getlines_concat) (use ok in \<open>auto simp: line_ok_def\<close>)
  have first: "option_line ?o (cstr (?h @ [newline])) = Some ?o1"
  proof -
    have "\<not> quick_key (despace (?h @ [newline]))" "next_section False (despace (?h @ [newline]))"
      by (simp_all add: quick_key_def next_section_def strncaseeq_def strcaseeq_def despace_def tolower_def)
    moreover have "cstr (?h @ [newline]) = ?h @ [newline]" by (rule cstr_line) (simp add: line_ok_def)
    ultimately show ?thesis
      using option_line_keep[of "?h @ [newline]" ?o] by (simp only: no_opts_def) (simp add: opt_text_def)
  qed
  have "option_lines ?o (getlines (unlines (quick_lines pr d qs))) =
      option_lines ?o1 (map (\<lambda>q. quick_text q @ [newline]) qs @ map (\<lambda>l. l @ [newline]) ?ls)"
    unfolding g unfolding lines using first by (simp add: comp_def)
  also have "\<dots> = option_lines (fold quick_apply qs ?o1) (map (\<lambda>l. l @ [newline]) ?ls)"
    by (rule option_lines_quick[OF assms(3)]) simp
  also have "\<dots> = option_lines (fold quick_apply qs ?o1) (map (\<lambda>l. l @ [newline]) ?ls @ [])" by simp
  also have "\<dots> = option_lines ((fold quick_apply qs ?o1)\<lparr> o_section := section_after True ?ls, o_config := Some ((?h @ [newline]) @ unlines ?ls) \<rparr>) []"
  proof -
    have "keeps True ?ls" using interface_keeps[of d] peers_keeps by (simp add: keeps_append)
    then show ?thesis
      using option_lines_keeps[of "fold quick_apply qs ?o1" ?ls "?h @ [newline]" "[]"] ok assms(4) unfolding lines
      by (simp add: fold_quick_apply)
  qed
  also have "(?h @ [newline]) @ unlines ?ls = showconf pr d"
  proof -
    obtain t where t: "tl (interface_lines d) = t" "interface_lines d = ?h # t" by (simp add: interface_lines_def)
    show ?thesis unfolding showconf_lines t(1) unfolding t(2) by simp
  qed
  finally show ?thesis by (simp add: fold_quick_apply_config)
qed

text \<open>C11. A configuration file is split without loss: with any keys of \<^verbatim>\<open>wg-quick\<close> put into the section of the interface, what is passed on to
  \<^verbatim>\<open>wg\<close> is exactly the text \<^verbatim>\<open>wg showconf\<close> prints for the device, which \<^verbatim>\<open>wg\<close> reads as that device, and the values of the keys are
  collected in order, separated by commas. The hypothesis on the length of lines is what the code requires of them.\<close>

theorem parse_options_splits:
  assumes "config_world env pr" "printable pr d" "list_all quick_ok qs" "\<forall>l \<in> set (quick_lines pr d qs). length l < 65536"
    and "open_config sh arg = Inr (filename, unlines (quick_lines pr d qs))" "regexec regex_conf filename = Some m"
  shows "\<exists>r. parse_options sh arg s = (Inr r, s) \<and> o_config r = Some (showconf pr d) \<and>
    config_read_file env False (showconf pr d) = Inr (reread_device pr d) \<and>
    o_iface r = Some (group_text filename m) \<and>
    o_addrs r = Some (join_with (CHR '','') (kind_values Address qs)) \<and>
    o_dnses r = Some (join_with (CHR '','') (kind_values Dns qs)) \<and>
    o_excluded r = (if kind_values Excluded qs = [] then None else Some (join_with (CHR '','') (kind_values Excluded qs))) \<and>
    o_included r = (if kind_values Included qs = [] then None else Some (join_with (CHR '','') (kind_values Included qs))) \<and>
    o_mtu r = fold (\<lambda>v _. of_int (atoi v)) (kind_values Mtu qs) 0"
proof -
  let ?r = "option_lines (no_opts\<lparr> o_iface := Some (group_text filename m) \<rparr>) (getlines (unlines (quick_lines pr d qs)))"
  have "parse_options sh arg s = (Inr ?r, s)" using assms(5,6) by (simp add: parse_options_def returns_def)
  moreover have "config_read_file env False (showconf pr d) = Inr (reread_device pr d)"
    by (rule config_world.config_reads_showconf[OF assms(1,2)])
  moreover have "o_config ?r = Some (showconf pr d) \<and> o_iface ?r = Some (group_text filename m) \<and>
      o_addrs ?r = Some (join_with (CHR '','') (kind_values Address qs)) \<and> o_dnses ?r = Some (join_with (CHR '','') (kind_values Dns qs)) \<and>
      o_excluded ?r = joined None (kind_values Excluded qs) \<and> o_included ?r = joined None (kind_values Included qs) \<and>
      o_mtu ?r = fold (\<lambda>v _. of_int (atoi v)) (kind_values Mtu qs) 0"
    unfolding option_lines_split[OF assms(1-4), of "Some (group_text filename m)"]
    by (simp add: fold_quick_apply no_opts_def joined_None some_text_def)
  ultimately show ?thesis unfolding joined_None by blast
qed

definition sample_keys :: "(quick_kind \<times> string) list" where
  "sample_keys = [(Address, ''10.0.0.2''), (Dns, ''1.1.1.1''), (Address, ''10.0.0.3'')]"

definition quick_device :: wgdevice where
  "quick_device = new_device\<lparr> d_flags := WGDEVICE_HAS_PRIVATE_KEY, private_key := replicate 32 7, peers := [new_peer\<lparr> public_key := replicate 32 9 \<rparr>] \<rparr>"

definition sample_shell :: shell where
  "sample_shell = \<lparr> qs_system = (\<lambda>_ _. 0), qs_popen = (\<lambda>_ _. Inr ([], 0)), qs_write = (\<lambda>_ _ _. Inr 0), qs_random = (\<lambda>_. 4096), qs_sdk = 30,
     qs_root = True, qs_exec = 0, qs_package = None, qs_fopen = (\<lambda>_. Inr (unlines (quick_lines numeric_printer quick_device sample_keys))),
     qs_after = (\<lambda>_. []), qs_resolver = None \<rparr>"

theorem parse_options_splits_witness:
  "\<exists>r. parse_options sample_shell ''/sdcard/wg0.conf'' \<lparr> q_trace = [], q_exiting = False \<rparr> = (Inr r, \<lparr> q_trace = [], q_exiting = False \<rparr>) \<and>
     o_config r = Some (showconf numeric_printer quick_device) \<and> o_addrs r = Some ''10.0.0.2,10.0.0.3''"
proof -
  have w: "config_world numeric_env numeric_printer" by unfold_locales
  have p: "printable numeric_printer quick_device"
    by (simp add: printable_def printable_peer_def quick_device_def new_device_def new_peer_def wf_peer_def)
  have k: "list_all quick_ok sample_keys" by (simp add: sample_keys_def quick_ok_def plain_text_def text_char_def)
  have l: "\<forall>l \<in> set (quick_lines numeric_printer quick_device sample_keys). length l < 65536" 
    by (simp add: quick_lines_def interface_lines_def peer_lines_def endpoint_lines_def quick_device_def sample_keys_def quick_text_def
        new_device_def new_peer_def flag_defs flag_simps length_key_to_base64)
  have o: "open_config sample_shell ''/sdcard/wg0.conf'' = Inr (''/sdcard/wg0.conf'', unlines (quick_lines numeric_printer quick_device sample_keys))"
  proof -
    have "regexec regex_iface ''/sdcard/wg0.conf'' = None" by code_simp
    then show ?thesis by (simp add: open_config_def sample_shell_def)
  qed
  have m: "regexec regex_conf ''/sdcard/wg0.conf'' = Some (8, 11)" by code_simp
  show ?thesis using parse_options_splits[OF w p k l o m, of "\<lparr> q_trace = [], q_exiting = False \<rparr>"]
    by (auto simp: sample_keys_def kind_values_def)
qed

end
