(* ===== verification/Quick_Up.thy ===== *)
theory Quick_Up
  imports Quick_Options
begin

text \<open>
  The operations of \<^verbatim>\<open>wg-quick/android.c\<close> behind \<^verbatim>\<open>parse_options\<close>: what is run to bring an interface up and down.
\<close>

section \<open>Interface\<close>

abbreviation quote :: char where "quote \<equiv> CHR 0x27"
abbreviation dquote :: char where "dquote \<equiv> CHR 0x22"
abbreviation backslash :: char where "backslash \<equiv> CHR 0x5C"

definition add_if :: "shell \<Rightarrow> string \<Rightarrow> unit prog" where
  "add_if sh iface = cmd sh (''ip link add '' @ iface @ '' type wireguard'')"

definition rule_regex :: "string \<Rightarrow> regex" where
  "rule_regex iface = \<lparr> rx_start = False, rx_pre = lit ''0xc'',
     rx_group = [(\<lambda>c. is_digit c \<or> (97 \<le> code c \<and> code c \<le> 102), Plus)],
     rx_post = ere_name (rev (lit ''/0xcffff lookup '')) iface, rx_end = False \<rparr>"

definition iptables_regex :: "string \<Rightarrow> regex" where
  "iptables_regex iface = \<lparr> rx_start = True, rx_pre = lit ''-A '',
     rx_group = (\<lambda>_. True, Star) # ere_name (rev (lit ('' --comment '' @ [dquote] @ ''wireguard rule ''))) iface @ lit [dquote] @ [(\<lambda>c. c \<noteq> newline, Star)],
     rx_post = [((=) newline, Star)], rx_end = True \<rparr>"

definition delete_rules :: "shell \<Rightarrow> string \<Rightarrow> string \<Rightarrow> unit prog" where
  "delete_rules sh tool iface =
     for_lines sh (tool @ ''-save'') (\<lambda>x rule.
       case regexec (iptables_regex iface) rule of
         None \<Rightarrow> returns (False, ())
       | Some m \<Rightarrow> andthen (cmd sh (tool @ '' -D '' @ group_text rule m)) (\<lambda>_. returns (False, ()))) ()"

definition find_netid :: "shell \<Rightarrow> string \<Rightarrow> string option prog" where
  "find_netid sh iface =
     for_lines sh ''ip rule show'' (\<lambda>netid rule.
       case regexec (rule_regex iface) rule of
         None \<Rightarrow> returns (False, netid)
       | Some m \<Rightarrow> returns (True, Some (group_text rule m))) None"

definition del_if :: "shell \<Rightarrow> string \<Rightarrow> unit prog" where
  "del_if sh iface =
     run_all [
       cmd sh (''ip link del '' @ iface),
       delete_rules sh ''iptables'' iface,
       delete_rules sh ''ip6tables'' iface,
       andthen (find_netid sh iface) (\<lambda>netid.
         case netid of None \<Rightarrow> returns () | Some t \<Rightarrow> cndc sh (''network destroy '' @ dec (fst (strtoul 64 16 t))))]"

definition should_block_ipv6 :: "shell \<Rightarrow> string \<Rightarrow> bool prog" where
  "should_block_ipv6 sh iface =
     andthen
       (for_lines sh (''wg show '' @ iface @ '' endpoints'') (\<lambda>(has_ipv6, has_all_none) line.
          case strchr line tab of
            None \<Rightarrow> returns (False, (has_ipv6, has_all_none))
          | Some i \<Rightarrow>
              let start = char_at line (i + 1)
              in returns (False, (if start = CHR ''['' then True else has_ipv6, if start \<noteq> CHR ''('' then False else has_all_none)))
          (False, True))
       (\<lambda>(has_ipv6, has_all_none). returns (\<not> has_ipv6 \<and> \<not> has_all_none))"

definition determine_listen_port :: "shell \<Rightarrow> string \<Rightarrow> nat prog" where
  "determine_listen_port sh iface =
     andthen (cmd sh (''ip link set up dev '' @ iface)) (\<lambda>_.
       andthen (cmd_ret sh None (Some (''wg show '' @ iface @ '' listen-port''))) (\<lambda>(v, c).
         let port = (case v of None \<Rightarrow> 0
                     | Some line \<Rightarrow> let listen_port = fst (strtoul 64 10 line) in if listen_port > 65535 \<or> listen_port = 0 then 0 else listen_port)
         in andthen (cmd sh (''ip link set down dev '' @ iface)) (\<lambda>_. returns port)))"

text \<open>\<^verbatim>\<open>while (*netid < 4096) *netid = random() & 0xfffe\<close>; \<open>None\<close> is a loop that does not end.\<close>

partial_function (option) pick_netid :: "(nat \<Rightarrow> u32) \<Rightarrow> nat \<Rightarrow> u32 \<Rightarrow> u32 option" where
  "pick_netid random i netid = (if netid < 4096 then pick_netid random (i + 1) (random i AND 0xfffe) else Some netid)"

definition rule_comment :: "string \<Rightarrow> string" where
  "rule_comment iface = '' -m comment --comment '' @ [dquote] @ ''wireguard rule '' @ iface @ [dquote]"

definition up_if :: "shell \<Rightarrow> string \<Rightarrow> nat \<Rightarrow> u32 prog" where
  "up_if sh iface port =
     (case pick_netid (qs_random sh) 0 0 of
        None \<Rightarrow> halts Loops
      | Some netid \<Rightarrow>
          andthen (run_all [
            cmd sh (''wg set '' @ iface @ '' fwmark 0x20000''),
            cmd sh (''iptables -I OUTPUT 1 -m mark --mark 0x20000 -j ACCEPT'' @ rule_comment iface),
            cmd sh (''ip6tables -I OUTPUT 1 -m mark --mark 0x20000 -j ACCEPT'' @ rule_comment iface),
            if port \<noteq> 0 then
              andthen (cmd sh (''iptables -I INPUT 1 -p udp --dport '' @ dec port @ '' -j ACCEPT'' @ rule_comment iface)) (\<lambda>_.
                andthen (should_block_ipv6 sh iface) (\<lambda>block.
                  cmd sh (''ip6tables -I INPUT 1 -p udp --dport '' @ dec port @ '' -j '' @ (if block then ''DROP'' else ''ACCEPT'') @ rule_comment iface)))
            else returns (),
            cmd sh (''ip link set up dev '' @ iface),
            cndc sh (''network create '' @ dec (unat netid) @ (if qs_sdk sh < 31 then '' vpn 1 1'' else '' vpn 1'')),
            cndc sh (''network interface add '' @ dec (unat netid) @ '' '' @ iface)])
          (\<lambda>_. returns netid))"


section \<open>Applications\<close>

text \<open>A string in memory: its bytes, the terminator and what follows it in the allocation; reading behind that is \<open>None\<close>.\<close>

definition read_at :: "string \<Rightarrow> nat \<Rightarrow> char option" where
  "read_at mem i = (if i < length mem then Some (mem ! i) else None)"

text \<open>\<^verbatim>\<open>strchrnul\<close> from a position: where the character or the terminator is.\<close>

function scan :: "string \<Rightarrow> char \<Rightarrow> nat \<Rightarrow> nat option" where
  "scan mem c i =
     (case read_at mem i of None \<Rightarrow> None | Some x \<Rightarrow> if x = c \<or> x = NUL then Some i else scan mem c (i + 1))"
  by pat_completeness auto
termination
  by (relation "measure (\<lambda>(mem, c, i). length mem - i)") (auto simp: read_at_def split: if_splits)

declare scan.simps [simp del]

text \<open>The first loop of \<^verbatim>\<open>get_uid_list\<close>, which counts the elements to allocate.\<close>

lemma scan_ge: "scan mem c i = Some k \<Longrightarrow> i \<le> k \<and> k < length mem"
proof (induction mem c i rule: scan.induct)
  case (1 mem c i)
  show ?case
  proof (cases "read_at mem i")
    case None
    then show ?thesis using 1(2) by (simp add: scan.simps)
  next
    case (Some x)
    then have i: "i < length mem" by (simp add: read_at_def split: if_splits)
    show ?thesis
    proof (cases "x = c \<or> x = NUL")
      case True
      then show ?thesis using 1(2) Some i by (simp add: scan.simps)
    next
      case False
      then have "scan mem c (i + 1) = Some k" using 1(2) Some by (simp add: scan.simps)
      from 1(1)[OF Some False this] show ?thesis by simp
    qed
  qed
qed

function uid_slots :: "string \<Rightarrow> nat \<Rightarrow> nat \<Rightarrow> nat option" where
  "uid_slots mem comma i =
     (case scan mem (CHR '','') (comma + 1) of
        None \<Rightarrow> None
      | Some k \<Rightarrow> if mem ! k = NUL then Some (i + 1) else uid_slots mem k (i + 1))"
  by pat_completeness auto
termination
  by (relation "measure (\<lambda>(mem, comma, i). length mem - comma)") (auto dest: scan_ge)

declare uid_slots.simps [simp del]

text \<open>The loop over the selected names for one package: the array written so far, or \<open>None\<close> when it reads or writes outside.\<close>

function uid_tokens :: "string \<Rightarrow> nat \<Rightarrow> string \<Rightarrow> u32 \<Rightarrow> nat \<Rightarrow> u32 list \<Rightarrow> u32 list option" where
  "uid_tokens mem slots package uid start us =
     (case scan mem (CHR '','') start of
        None \<Rightarrow> None
      | Some comma \<Rightarrow>
          if mem ! start = NUL then Some us
          else
            let token = take (comma - start) (drop start mem)
            in if token \<noteq> [] \<and> token = package then
                 (if length us < slots then uid_tokens mem slots package uid (comma + 1) (us @ [uid]) else None)
               else uid_tokens mem slots package uid (comma + 1) us)"
  by pat_completeness auto
termination
  by (relation "measure (\<lambda>(mem, slots, package, uid, start, us). length mem - start)") (auto dest!: scan_ge)

declare uid_tokens.simps [simp del]

text \<open>Name and number of a line of the package list.\<close>

definition package_line :: "string \<Rightarrow> (string \<times> u32) option" where
  "package_line line =
     (case strchr line (CHR '' '') of
        None \<Rightarrow> None
      | Some i \<Rightarrow>
          let t = takeWhile (\<lambda>c. c \<noteq> CHR '' '') (drop (i + 1) line);
              (n, endptr) = strtoul 64 10 t;
              package_uid = (of_nat n :: u32)
          in if package_uid = 0 \<or> t = [] \<or> endptr \<noteq> [] then None else Some (take i line, package_uid))"

fun uid_packages :: "string \<Rightarrow> nat \<Rightarrow> string list \<Rightarrow> u32 list \<Rightarrow> u32 list option" where
  "uid_packages mem slots [] us = Some us"
| "uid_packages mem slots (line # ls) us =
     (case package_line (cstr line) of
        None \<Rightarrow> uid_packages mem slots ls us
      | Some (package, uid) \<Rightarrow>
          (case uid_tokens mem slots package uid 0 us of None \<Rightarrow> None | Some us' \<Rightarrow> uid_packages mem slots ls us'))"

definition compare_uid :: "u32 \<Rightarrow> u32 \<Rightarrow> int" where
  "compare_uid a b = sint (a - b)"

text \<open>The array, zeros included.\<close>

definition get_uid_list :: "shell \<Rightarrow> u32 qsort \<Rightarrow> string option \<Rightarrow> u32 list prog" where
  "get_uid_list sh qsort selected =
     (case selected of
        None \<Rightarrow> returns [0]
      | Some sel \<Rightarrow>
          let mem = sel @ NUL # qs_after sh sel
          in (case uid_slots mem 0 1 of
                None \<Rightarrow> halts Crash
              | Some slots \<Rightarrow>
                  (case qs_fopen sh ''/data/system/packages.list'' of
                     Inl e \<Rightarrow> exit e
                   | Inr content \<Rightarrow>
                       (case uid_packages mem slots (getlines content) [] of
                          None \<Rightarrow> halts Crash
                        | Some us \<Rightarrow> returns (qsort compare_uid us @ replicate (slots - length us) 0)))))"

text \<open>Adding a range: \<^verbatim>\<open>ranges\<close> and \<^verbatim>\<open>args_per_command\<close>.\<close>

definition add_range :: "shell \<Rightarrow> u32 \<Rightarrow> string \<Rightarrow> string option \<times> nat \<Rightarrow> (string option \<times> nat) prog" where
  "add_range sh netid txt st =
     (let ranges = concat_and_free (fst st) '' '' txt; n = snd st + 1
      in if n mod 18 = 0 then
           andthen (cndc sh (''network users add '' @ dec (unat netid) @ '' '' @ the ranges)) (\<lambda>_. returns (None, n))
         else returns (ranges, n))"

fun excluded_users :: "shell \<Rightarrow> u32 \<Rightarrow> u32 list \<Rightarrow> u32 \<Rightarrow> string option \<times> nat \<Rightarrow> (u32 \<times> string option \<times> nat) prog" where
  "excluded_users sh netid [] start st = halts Crash"
| "excluded_users sh netid (uid # uids) start st =
     (if uid = 0 then returns (start, st)
      else if start > uid - 1 then excluded_users sh netid uids (uid + 1) st
      else andthen
        (add_range sh netid (if start = uid - 1 then dec (unat start) else dec (unat start) @ ''-'' @ dec (unat (uid - 1))) st)
        (excluded_users sh netid uids (uid + 1)))"

fun included_users :: "shell \<Rightarrow> u32 \<Rightarrow> u32 list \<Rightarrow> string option \<times> nat \<Rightarrow> (string option \<times> nat) prog" where
  "included_users sh netid [] st = halts Crash"
| "included_users sh netid (uid # uids) st =
     (if uid = 0 then returns st else andthen (add_range sh netid (dec (unat uid)) st) (included_users sh netid uids))"

definition set_users :: "shell \<Rightarrow> u32 qsort \<Rightarrow> u32 \<Rightarrow> string option \<Rightarrow> string option \<Rightarrow> unit prog" where
  "set_users sh qsort netid excluded included =
     (if excluded \<noteq> None \<and> included \<noteq> None then exit EEXIST
      else andthen
        (if excluded \<noteq> None \<or> included = None then
           andthen (get_uid_list sh qsort excluded) (\<lambda>uids.
             andthen (excluded_users sh netid uids 0 (None, 0)) (\<lambda>(start, ranges, n).
               returns (if start < 99999 then concat_and_free ranges '' '' (dec (unat start) @ ''-99999'') else ranges)))
         else
           andthen (get_uid_list sh qsort included) (\<lambda>uids.
             andthen (included_users sh netid uids (None, 0)) (\<lambda>(ranges, n). returns ranges)))
        (\<lambda>ranges. case ranges of None \<Rightarrow> returns () | Some t \<Rightarrow> cndc sh (''network users add '' @ dec (unat netid) @ '' '' @ t)))"

end
