(* ===== verification/Quick_Main.thy ===== *)
theory Quick_Main
  imports Quick_Up
begin

text \<open>
  The rest of \<^verbatim>\<open>wg-quick/android.c\<close>: the resolver service, name servers, addresses, routes, the MTU, and the commands \<^verbatim>\<open>up\<close> and
  \<^verbatim>\<open>down\<close>. The library of the service is a parameter: a parcel is the words written to it with a position, and each call
  of the library delivers a status.
\<close>

section \<open>The resolver service\<close>

definition STATUS_UNKNOWN_ERROR :: int where "STATUS_UNKNOWN_ERROR = - 2147483648"
definition STATUS_FAILED_TRANSACTION :: int where "STATUS_FAILED_TRANSACTION = STATUS_UNKNOWN_ERROR + 2"
definition EX_TRANSACTION_FAILED :: int where "EX_TRANSACTION_FAILED = - 129"
definition FIRST_CALL_TRANSACTION :: nat where "FIRST_CALL_TRANSACTION = 1"

definition meaningful_status :: "(int \<times> int) option \<Rightarrow> int" where
  "meaningful_status status_out =
     (case status_out of
        None \<Rightarrow> 0
      | Some (exc_code, status) \<Rightarrow> if exc_code = EX_TRANSACTION_FAILED then status else STATUS_FAILED_TRANSACTION)"

type_synonym parcel = "u32 list \<times> nat"

definition write_words :: "service \<Rightarrow> u32 list \<Rightarrow> parcel \<Rightarrow> int + parcel" where
  "write_words b ws p =
     (let (data, pos) = p
      in if b_write b data \<noteq> 0 then Inl (b_write b data)
         else Inr (take pos data @ ws @ drop (pos + length ws) data, pos + length ws))"

definition data_position :: "parcel \<Rightarrow> nat" where
  "data_position p = 4 * snd p"

definition set_data_position :: "service \<Rightarrow> nat \<Rightarrow> parcel \<Rightarrow> int + parcel" where
  "set_data_position b k p = (if b_seek b k \<noteq> 0 then Inl (b_seek b k) else Inr (fst p, k div 4))"

fun write_all :: "service \<Rightarrow> u32 list list \<Rightarrow> parcel \<Rightarrow> int + parcel" where
  "write_all b [] p = Inr p"
| "write_all b (ws # wss) p = (case write_words b ws p of Inl e \<Rightarrow> Inl e | Inr p' \<Rightarrow> write_all b wss p')"

definition dnsresolver_get_handle :: "shell \<Rightarrow> service option" where
  "dnsresolver_get_handle sh = (case qs_resolver sh of None \<Rightarrow> None | Some b \<Rightarrow> if b_class b then Some b else None)"

text \<open>\<^verbatim>\<open>AIBinder_transact\<close> and \<^verbatim>\<open>AParcel_readStatusHeader\<close>: the status, and the call in the trace.\<close>

definition transact :: "service \<Rightarrow> nat \<Rightarrow> parcel \<Rightarrow> int prog" where
  "transact b n p s =
     (let s' = s\<lparr> q_trace := q_trace s @ [Transact n (fst p)] \<rparr>
      in if b_transact b n (fst p) \<noteq> 0 then (Inr (b_transact b n (fst p)), s')
         else if b_header b n \<noteq> 0 then (Inr (b_header b n), s')
         else (Inr (meaningful_status (b_exception b n)), s'))"

definition dnsresolver_create_network_cache :: "service \<Rightarrow> u32 \<Rightarrow> int prog" where
  "dnsresolver_create_network_cache b netid =
     (if b_prepare b \<noteq> 0 then returns (b_prepare b)
      else (case write_words b [netid] ([], 0) of
         Inl e \<Rightarrow> returns e
       | Inr p \<Rightarrow> transact b (FIRST_CALL_TRANSACTION + 7) p))"

record dnsresolver_params =
  netid :: u32
  sample_validity_seconds :: u32
  success_threshold :: u32
  min_samples :: u32
  max_samples :: u32
  base_timeout_msec :: u32
  retry_count :: u32
  servers :: "string list"
  domains :: "string list"
  tls_name :: string
  tls_servers :: "string list"
  tls_fingerprints :: "string list"

definition params_words :: "service \<Rightarrow> dnsresolver_params \<Rightarrow> u32 list list" where
  "params_words b ps =
     [[netid ps], [sample_validity_seconds ps], [success_threshold ps], [min_samples ps], [max_samples ps], [base_timeout_msec ps],
      [retry_count ps], b_strings b (servers ps), b_strings b (domains ps), b_string b (tls_name ps), b_strings b (tls_servers ps),
      b_strings b (tls_fingerprints ps)]"

text \<open>The size of the structure is written over a zero once the structure stands behind it.\<close>

definition dnsresolver_set_resolver_configuration :: "service \<Rightarrow> dnsresolver_params \<Rightarrow> int prog" where
  "dnsresolver_set_resolver_configuration b ps =
     (if b_prepare b \<noteq> 0 then returns (b_prepare b)
      else (case write_words b [1] ([], 0) of
         Inl e \<Rightarrow> returns e
       | Inr p1 \<Rightarrow>
           let start_position = data_position p1
           in (case write_all b ([0] # params_words b ps) p1 of
                 Inl e \<Rightarrow> returns e
               | Inr p2 \<Rightarrow>
                   let end_position = data_position p2
                   in (case set_data_position b start_position p2 of
                         Inl e \<Rightarrow> returns e
                       | Inr p3 \<Rightarrow>
                           (case write_words b [of_nat (end_position - start_position)] p3 of
                              Inl e \<Rightarrow> returns e
                            | Inr p4 \<Rightarrow>
                                (case set_data_position b end_position p4 of
                                   Inl e \<Rightarrow> returns e
                                 | Inr p5 \<Rightarrow> transact b (FIRST_CALL_TRANSACTION + 2) p5))))))"


section \<open>Name servers\<close>

text \<open>\<^verbatim>\<open>(^[0-9.]+$)|(^.*:.*$)\<close>\<close>

definition regex_numeric :: regex where
  "regex_numeric = \<lparr> rx_start = True, rx_pre = [], rx_group = [(\<lambda>c. is_digit c \<or> c = CHR ''.'', Plus)], rx_post = [], rx_end = True \<rparr>"

definition regex_colon :: regex where
  "regex_colon = \<lparr> rx_start = True, rx_pre = [], rx_group = [(\<lambda>_. True, Star), ((=) (CHR '':''), One), (\<lambda>_. True, Star)], rx_post = [], rx_end = True \<rparr>"

definition is_ip :: "string \<Rightarrow> bool" where
  "is_ip dns \<longleftrightarrow> regexec regex_numeric dns \<noteq> None \<or> regexec regex_colon dns \<noteq> None"

definition list_delims :: string where
  "list_delims = '', '' @ [tab, newline]"

definition quotable :: "string \<Rightarrow> bool" where
  "quotable t \<longleftrightarrow> strchr t quote = None \<and> strchr t backslash = None"

record dns_lists =
  dns_shell :: string
  dns_search_shell :: string
  dns_function :: string
  dns_search_function :: string
  dns_list :: "string list"
  dns_search_list :: "string list"

text \<open>\<^verbatim>\<open>strncat\<close> of at most \<^term>\<open>n\<close> characters.\<close>

definition strncat :: "string \<Rightarrow> string \<Rightarrow> nat \<Rightarrow> string" where
  "strncat dest src n = dest @ take n src"

definition dns_step :: "nat \<Rightarrow> string \<Rightarrow> dns_lists \<Rightarrow> dns_lists" where
  "dns_step len dns l =
     (let arg = take (len + 2) ([quote] @ dns @ [quote] @ '' '');
          fn = (\<lambda>old. strncat old (take (len + 1) (if old = [] then dns else '', '' @ dns)) (len * 4 - 1))
      in if is_ip dns
         then l\<lparr> dns_shell := strncat (dns_shell l) arg (len * 4 - 1), dns_function := fn (dns_function l), dns_list := dns_list l @ [dns] \<rparr>
         else l\<lparr> dns_search_shell := strncat (dns_search_shell l) arg (len * 4 - 1), dns_search_function := fn (dns_search_function l),
                 dns_search_list := dns_search_list l @ [dns] \<rparr>)"

definition no_dns :: dns_lists where
  "no_dns = \<lparr> dns_shell = [], dns_search_shell = [], dns_function = [], dns_search_function = [], dns_list = [], dns_search_list = [] \<rparr>"

definition dns_collect :: "string \<Rightarrow> dns_lists" where
  "dns_collect dnses = fold (dns_step (length dnses)) (filter quotable (strtok_tokens list_delims dnses)) no_dns"

definition resolver_params :: "u32 \<Rightarrow> dns_lists \<Rightarrow> dnsresolver_params" where
  "resolver_params n l = \<lparr> netid = n, sample_validity_seconds = 1800, success_threshold = 25, min_samples = 8, max_samples = 8,
     base_timeout_msec = 5000, retry_count = 2, servers = dns_list l, domains = dns_search_list l, tls_name = [], tls_servers = [],
     tls_fingerprints = [] \<rparr>"

definition set_dnses :: "shell \<Rightarrow> u32 \<Rightarrow> string option \<Rightarrow> unit prog" where
  "set_dnses sh n dnses =
     (case dnses of
        None \<Rightarrow> halts Crash
      | Some t \<Rightarrow>
          if length t > 65536 then returns ()
          else if length t = 0 then returns ()
          else if filter is_ip (filter quotable (strtok_tokens list_delims t)) = [] then returns ()
          else
            let l = dns_collect t
            in (case dnsresolver_get_handle sh of
                  Some b \<Rightarrow>
                    andthen (dnsresolver_create_network_cache b n) (\<lambda>status.
                      if status \<noteq> 0 then exit ENONET
                      else andthen (dnsresolver_set_resolver_configuration b (resolver_params n l)) (\<lambda>status.
                        if status \<noteq> 0 then exit ENONET else returns ()))
                | None \<Rightarrow>
                    cndc sh (''resolver setnetdns '' @ dec (unat n) @ '' '' @ [quote] @ dns_search_shell l @ [quote] @ '' '' @ dns_shell l)))"


section \<open>Addresses, routes and the MTU\<close>

definition add_addr :: "shell \<Rightarrow> string \<Rightarrow> string \<Rightarrow> unit prog" where
  "add_addr sh iface addr =
     (if strchr addr (CHR '':'') \<noteq> None then
        andthen (cndc sh (''interface ipv6 '' @ iface @ '' enable'')) (\<lambda>_.
          cmd sh (''ip -6 addr add '' @ [quote] @ addr @ [quote] @ '' dev '' @ iface))
      else
        let (mut_addr, m) = (case strchr addr (CHR ''/'') of
                               None \<Rightarrow> (addr, 32 :: u8)
                             | Some i \<Rightarrow> (take i addr, of_int (atoi (drop (i + 1) addr))))
        in cndc sh (''interface setcfg '' @ iface @ '' '' @ [quote] @ mut_addr @ [quote] @ '' '' @ dec (unat m)))"

definition set_addr :: "shell \<Rightarrow> string \<Rightarrow> string option \<Rightarrow> unit prog" where
  "set_addr sh iface addrs =
     (case addrs of
        None \<Rightarrow> halts Crash
      | Some t \<Rightarrow> run_all (map (\<lambda>addr. if quotable addr then add_addr sh iface addr else returns ()) (strtok_tokens list_delims t)))"

definition regex_mtu :: regex where
  "regex_mtu = \<lparr> rx_start = False, rx_pre = lit ''mtu '', rx_group = [(\<lambda>c. is_digit c, Plus)], rx_post = [], rx_end = False \<rparr>"

definition regex_dev :: regex where
  "regex_dev = \<lparr> rx_start = False, rx_pre = lit ''dev '', rx_group = [(\<lambda>c. c \<noteq> CHR '' '', Plus)], rx_post = [], rx_end = False \<rparr>"

definition regex_endpoint :: regex where
  "regex_endpoint = \<lparr> rx_start = True, rx_pre = [((=) (CHR ''[''), Upto 1)],
     rx_group = [(\<lambda>c. (97 \<le> code c \<and> code c \<le> 122) \<or> is_digit c \<or> c = CHR '':'' \<or> c = CHR ''.'', Plus)],
     rx_post = [((=) (CHR '']''), Upto 1), ((=) (CHR '':''), One), (\<lambda>c. is_digit c, Plus)], rx_end = True \<rparr>"

definition get_route_mtu :: "shell \<Rightarrow> string \<Rightarrow> int prog" where
  "get_route_mtu sh endpoint1 =
     andthen (cmd_ret sh None (Some ((if endpoint1 \<noteq> ''default'' then ''ip -o route get '' else ''ip -o route show '') @ endpoint1))) (\<lambda>(r, c).
       case r of
         None \<Rightarrow> returns (- 1)
       | Some route \<Rightarrow>
           (case regexec regex_mtu route of
              Some m \<Rightarrow> returns (atoi (group_text route m))
            | None \<Rightarrow>
                (case regexec regex_dev route of
                   None \<Rightarrow> returns (- 1)
                 | Some m \<Rightarrow>
                     andthen (cmd_ret sh None (Some (''ip -o link show dev '' @ group_text route m))) (\<lambda>(r, c).
                       case r of
                         None \<Rightarrow> returns (- 1)
                       | Some link \<Rightarrow>
                           (case regexec regex_mtu link of
                              None \<Rightarrow> returns (- 1)
                            | Some m \<Rightarrow> returns (atoi (group_text link m)))))))"

text \<open>\<^verbatim>\<open>%d\<close>\<close>

definition sdec :: "int \<Rightarrow> string" where
  "sdec i = (if i < 0 then ''-'' @ dec (nat (- i)) else dec (nat i))"

definition set_mtu :: "shell \<Rightarrow> string \<Rightarrow> u32 \<Rightarrow> unit prog" where
  "set_mtu sh iface mtu =
     (if mtu \<noteq> 0 then cndc sh (''interface setmtu '' @ iface @ '' '' @ dec (unat mtu))
      else
        andthen (get_route_mtu sh ''default'') (\<lambda>default_mtu.
          andthen
            (for_lines sh (''wg show '' @ iface @ '' endpoints'') (\<lambda>endpoint_mtu line.
               case regexec regex_endpoint line of
                 None \<Rightarrow> returns (False, endpoint_mtu)
               | Some m \<Rightarrow>
                   andthen (get_route_mtu sh (group_text line m)) (\<lambda>next_mtu.
                     returns (False, if next_mtu > 0 \<and> next_mtu < endpoint_mtu then next_mtu else endpoint_mtu)))
               (if default_mtu = - 1 then 1500 else default_mtu))
            (\<lambda>endpoint_mtu. cndc sh (''interface setmtu '' @ iface @ '' '' @ sdec (endpoint_mtu - 80)))))"

definition add_route :: "shell \<Rightarrow> string \<Rightarrow> u32 \<Rightarrow> string \<Rightarrow> unit prog" where
  "add_route sh iface n route = cndc sh (''network route add '' @ dec (unat n) @ '' '' @ iface @ '' '' @ route)"

definition set_routes :: "shell \<Rightarrow> string \<Rightarrow> u32 \<Rightarrow> unit prog" where
  "set_routes sh iface n =
     for_lines sh (''wg show '' @ iface @ '' allowed-ips'') (\<lambda>x line.
       case strchr line tab of
         None \<Rightarrow> returns (False, ())
       | Some i \<Rightarrow>
           andthen (run_all (map (\<lambda>a. if a = ''(none)'' then returns () else add_route sh iface n a)
                      (strtok_tokens ('' '' @ [newline]) (drop (i + 1) line))))
             (\<lambda>_. returns (False, ()))) ()"


section \<open>Commands\<close>

definition set_config :: "shell \<Rightarrow> string \<Rightarrow> string option \<Rightarrow> unit prog" where
  "set_config sh iface config s =
     (case config of
        None \<Rightarrow> halts Crash s
      | Some t \<Rightarrow>
          let c = ''wg addconf '' @ iface @ '' /proc/self/fd/0''
          in (case qs_write sh (q_trace s) c t of
                Inl e \<Rightarrow> exit e s
              | Inr ret \<Rightarrow>
                  let s' = s\<lparr> q_trace := q_trace s @ [Wrote c t] \<rparr>
                  in if ret \<noteq> 0 then exit (exit_status ret) s' else returns () s'))"

definition broadcast_change :: "shell \<Rightarrow> unit prog" where
  "broadcast_change sh =
     (if qs_package sh \<noteq> Some ''com.wireguard.android''
      then cmd sh (''am broadcast -a com.wireguard.android.action.REFRESH_TUNNEL_STATES '' @ ''com.wireguard.android'')
      else returns ())"

text \<open>What runs between the registration of the cleanup and its withdrawal.\<close>

definition up_body :: "shell \<Rightarrow> u32 qsort \<Rightarrow> string \<Rightarrow> opts \<Rightarrow> unit prog" where
  "up_body sh qsort iface o1 =
     andthen (add_if sh iface) (\<lambda>_.
       andthen (set_config sh iface (o_config o1)) (\<lambda>_.
         andthen (determine_listen_port sh iface) (\<lambda>port.
           andthen (up_if sh iface port) (\<lambda>n.
             run_all [
               set_addr sh iface (o_addrs o1),
               set_dnses sh n (o_dnses o1),
               set_routes sh iface n,
               set_mtu sh iface (o_mtu o1),
               set_users sh qsort n (o_excluded o1) (o_included o1),
               broadcast_change sh]))))"

text \<open>\<^verbatim>\<open>exit\<close> runs \<^verbatim>\<open>cmd_up_cleanup\<close> while \<^verbatim>\<open>cleanup_iface\<close> is set; a second exit inside of it replaces the first.\<close>

definition cmd_up_cleanup :: "shell \<Rightarrow> string \<Rightarrow> int \<Rightarrow> unit prog" where
  "cmd_up_cleanup sh iface c s =
     (case del_if sh iface (s\<lparr> q_exiting := True \<rparr>) of (Inl h, s') \<Rightarrow> (Inl h, s') | (Inr _, s') \<Rightarrow> (Inl (Exit c), s'))"

definition cmd_up :: "shell \<Rightarrow> u32 qsort \<Rightarrow> string \<Rightarrow> opts \<Rightarrow> unit prog" where
  "cmd_up sh qsort iface o1 =
     andthen (cmd_ret sh None (Some (''ip link show dev '' @ iface @ '' 2>/dev/null''))) (\<lambda>(r, c).
       if r \<noteq> None then exit EEXIST
       else (\<lambda>s. case up_body sh qsort iface o1 s of
           (Inl (Exit e), s') \<Rightarrow> cmd_up_cleanup sh iface e s'
         | (Inl h, s') \<Rightarrow> (Inl h, s')
         | (Inr _, s') \<Rightarrow> exit 0 (s'\<lparr> q_exiting := True \<rparr>)))"

definition cmd_down :: "shell \<Rightarrow> string \<Rightarrow> unit prog" where
  "cmd_down sh iface =
     andthen (cmd_ret sh None (Some ''wg show interfaces'')) (\<lambda>(ifaces, c).
       if (case ifaces of None \<Rightarrow> False | Some t \<Rightarrow> iface \<in> set (strtok_tokens ('' '' @ [newline]) t))
       then run_all [del_if sh iface, broadcast_change sh, exit 0]
       else exit EMEDIUMTYPE)"

definition auto_su :: "shell \<Rightarrow> string list \<Rightarrow> unit prog" where
  "auto_su sh argv =
     (if qs_root sh then returns ()
      else if qs_exec sh = 0 then halts (Execs ([''su'', ''-p'', ''-c''] @ argv)) else exit (qs_exec sh))"

definition quick_main :: "shell \<Rightarrow> u32 qsort \<Rightarrow> string list \<Rightarrow> int prog" where
  "quick_main sh qsort argv =
     (if length argv = 2 \<and> (argv ! 1 = ''help'' \<or> argv ! 1 = ''--help'' \<or> argv ! 1 = ''-h'') then returns 0
      else if length argv = 3 \<and> argv ! 1 = ''up'' then
        andthen (auto_su sh argv) (\<lambda>_. andthen (parse_options sh (argv ! 2)) (\<lambda>o1.
          andthen (cmd_up sh qsort (the (o_iface o1)) o1) (\<lambda>_. returns 0)))
      else if length argv = 3 \<and> argv ! 1 = ''down'' then
        andthen (auto_su sh argv) (\<lambda>_. andthen (parse_options sh (argv ! 2)) (\<lambda>o1.
          andthen (cmd_down sh (the (o_iface o1))) (\<lambda>_. returns 0)))
      else returns 1)"

end
