(* ===== verification/Quick_Cleanup.thy ===== *)
theory Quick_Cleanup
  imports Quick_Main
begin

text \<open>
  What \<^verbatim>\<open>wg-quick up\<close> leaves behind: either the interface is up, or nothing was done, or the interface is taken down again.
\<close>

definition deletes :: "event \<Rightarrow> bool" where
  "deletes e \<longleftrightarrow> (\<exists>i. e = System (''ip link del '' @ i))"

definition is_system :: "event \<Rightarrow> bool" where
  "is_system e \<longleftrightarrow> (\<exists>c. e = System c)"

abbreviation keeps_link :: "event \<Rightarrow> bool" where
  "keeps_link e \<equiv> \<not> deletes e"

lemma popen_keeps [simp]: "keeps_link (Popen t)" "keeps_link (Wrote t u)" "keeps_link (Transact n p)"
  by (simp_all add: deletes_def)

lemma emits_if [emits_intros]: "emits P m \<Longrightarrow> emits P n \<Longrightarrow> emits P (if b then m else n)"
  by simp

lemma emits_case_prod [emits_intros]: "(\<And>a b. emits P (f a b)) \<Longrightarrow> emits P (case x of (a, b) \<Rightarrow> f a b)"
  by (cases x) simp

lemma emits_case_prod_app [emits_intros]: "(\<And>a b. emits P (f a b l)) \<Longrightarrow> emits P ((case x of (a, b) \<Rightarrow> f a b) l)"
  by (cases x) simp

lemma emits_case_option [emits_intros]: "emits P m \<Longrightarrow> (\<And>x. emits P (f x)) \<Longrightarrow> emits P (case t of None \<Rightarrow> m | Some x \<Rightarrow> f x)"
  by (cases t) simp_all

lemma emits_case_sum [emits_intros]: "(\<And>x. emits P (g x)) \<Longrightarrow> (\<And>x. emits P (f x)) \<Longrightarrow> emits P (case t of Inl x \<Rightarrow> g x | Inr x \<Rightarrow> f x)"
  by (cases t) simp_all

lemma emits_Let [emits_intros]: "(\<And>x. emits P (f x)) \<Longrightarrow> emits P (let x = t in f x)"
  by simp

lemma emits_add_if: "emits keeps_link (add_if sh iface)"
  unfolding add_if_def by (rule emits_cmd) (simp add: deletes_def)

lemma emits_set_config: "emits keeps_link (set_config sh iface config)"
  by (auto simp: emits_def set_config_def halts_def returns_def Let_def split: option.splits sum.splits)

lemma emits_determine_listen_port: "emits keeps_link (determine_listen_port sh iface)"
  unfolding determine_listen_port_def by (intro emits_intros) (simp_all add: deletes_def)

lemma emits_should_block_ipv6: "emits keeps_link (should_block_ipv6 sh iface)"
  unfolding should_block_ipv6_def by (intro emits_intros) (simp_all add: deletes_def)

lemma emits_run_all_list:
  "emits P (run_all [])" "emits P m \<Longrightarrow> emits P (run_all ms) \<Longrightarrow> emits P (run_all (m # ms))"
  by (simp_all add: emits_intros)

lemma emits_run_all_map: "(\<And>x. emits P (f x)) \<Longrightarrow> emits P (run_all (map f xs))"
  by (rule emits_run_all) auto

lemma emits_up_if: "emits keeps_link (up_if sh iface port)"
  unfolding up_if_def
  by (intro emits_case_option emits_halts emits_andthen emits_run_all_list emits_if emits_returns emits_should_block_ipv6 emits_cmd emits_cndc)
    (simp_all add: deletes_def)

lemma emits_add_addr: "emits keeps_link (add_addr sh iface addr)"
  unfolding add_addr_def by (intro emits_intros) (simp_all add: deletes_def)

lemma emits_set_addr: "emits keeps_link (set_addr sh iface addrs)"
  unfolding set_addr_def by (intro emits_case_option emits_halts emits_run_all_map emits_if emits_add_addr emits_returns)

lemma emits_transact: "emits keeps_link (transact b n p)"
  by (auto simp: emits_def transact_def Let_def)

lemma emits_set_dnses: "emits keeps_link (set_dnses sh n dnses)"
  unfolding set_dnses_def dnsresolver_create_network_cache_def dnsresolver_set_resolver_configuration_def
  by (intro emits_intros emits_transact) simp_all

lemma emits_set_routes: "emits keeps_link (set_routes sh iface n)"
  unfolding set_routes_def add_route_def
  by (intro emits_for_lines emits_case_option emits_andthen emits_run_all_map emits_if emits_returns emits_cndc) simp_all

lemma emits_get_route_mtu: "emits keeps_link (get_route_mtu sh e)"
  unfolding get_route_mtu_def by (intro emits_intros) simp_all

lemma emits_set_mtu: "emits keeps_link (set_mtu sh iface mtu)"
  unfolding set_mtu_def by (intro emits_intros emits_get_route_mtu) simp_all

lemma emits_get_uid_list: "emits keeps_link (get_uid_list sh qsort sel)"
  unfolding get_uid_list_def by (intro emits_intros)

lemma emits_add_range: "emits keeps_link (add_range sh n t st)"
  unfolding add_range_def by (intro emits_intros) simp_all

lemma emits_excluded_users: "emits keeps_link (excluded_users sh n us start st)"
  by (induction us arbitrary: start st) (auto intro!: emits_intros emits_add_range)

lemma emits_included_users: "emits keeps_link (included_users sh n us st)"
  by (induction us arbitrary: st) (auto intro!: emits_intros emits_add_range)

lemma emits_set_users: "emits keeps_link (set_users sh qsort n ex inc)"
  unfolding set_users_def by (intro emits_intros emits_get_uid_list emits_excluded_users emits_included_users) simp_all

lemma emits_broadcast_change: "emits keeps_link (broadcast_change sh)"
  unfolding broadcast_change_def by (intro emits_intros) (simp add: deletes_def)

lemma emits_up_body: "emits keeps_link (up_body sh qsort iface o1)"
  unfolding up_body_def
  by (intro emits_andthen emits_run_all_list emits_add_if emits_set_config emits_determine_listen_port emits_up_if emits_set_addr
      emits_set_dnses emits_set_routes emits_set_mtu emits_set_users emits_broadcast_change)

text \<open>A program that starts with a command has it at the start of its trace.\<close>

lemma cmd_first:
  assumes "\<And>x. emits P (f x)"
  shows "\<exists>es. q_trace (snd (andthen (cmd sh t) f s)) = q_trace s @ System t # es \<and> list_all P es"
proof -
  obtain r s1 where c: "cmd sh t s = (r, s1)" by (cases "cmd sh t s")
  then have s1: "q_trace s1 = q_trace s @ [System t]" by (auto simp: cmd_def Let_def split: if_splits)
  show ?thesis
  proof (cases r)
    case (Inl h)
    then show ?thesis using c s1 by (simp add: andthen_def)
  next
    case (Inr x)
    obtain es where "q_trace (snd (f x s1)) = q_trace s1 @ es" "list_all P es" using emitsE[OF assms] by blast
    then show ?thesis using c s1 Inr by (simp add: andthen_def)
  qed
qed

lemma emits_delete_rules: "emits (\<lambda>_. True) (delete_rules sh tool iface)"
  unfolding delete_rules_def by (intro emits_intros) simp_all

lemma emits_find_netid: "emits (\<lambda>_. True) (find_netid sh iface)"
  unfolding find_netid_def by (intro emits_intros) simp_all

lemma del_if_first: "\<exists>es. q_trace (snd (del_if sh iface s)) = q_trace s @ System (''ip link del '' @ iface) # es"
proof -
  let ?rest = "run_all [delete_rules sh ''iptables'' iface, delete_rules sh ''ip6tables'' iface,
       andthen (find_netid sh iface) (\<lambda>netid.
         case netid of None \<Rightarrow> returns () | Some t \<Rightarrow> cndc sh (''network destroy '' @ dec (fst (strtoul 64 16 t))))]"
  have "emits (\<lambda>_. True) ?rest"
    by (intro emits_run_all_list emits_delete_rules emits_andthen emits_find_netid emits_case_option emits_returns emits_cndc) simp
  from cmd_first[of "\<lambda>_. True" "\<lambda>_. ?rest", OF this, of sh "''ip link del '' @ iface" s]
  show ?thesis unfolding del_if_def run_all.simps(2)[of "cmd sh (''ip link del '' @ iface)"] by blast
qed

lemma up_body_first:
  "\<exists>es. q_trace (snd (up_body sh qsort iface o1 s)) = q_trace s @ System (''ip link add '' @ iface @ '' type wireguard'') # es \<and> list_all keeps_link es"
  unfolding up_body_def add_if_def
  by (rule cmd_first)
    (intro emits_andthen emits_run_all_list emits_set_config emits_determine_listen_port emits_up_if emits_set_addr
      emits_set_dnses emits_set_routes emits_set_mtu emits_set_users emits_broadcast_change)


definition failing_shell :: shell where
  "failing_shell = sample_shell\<lparr> qs_system := (\<lambda>_ _. 256) \<rparr>"

definition fresh_quick :: quick where
  "fresh_quick = \<lparr> q_trace = [], q_exiting = False \<rparr>"


end
