(* ===== verification/Quick_Users.thy ===== *)
theory Quick_Users
  imports Quick_Cleanup
begin

text \<open>
  Which users \<^verbatim>\<open>wg-quick\<close> puts into the network of an interface: the ranges between the excluded applications, in commands of at most
  eighteen ranges, and the list of the applications.
\<close>

section \<open>Ranges\<close>

text \<open>The ranges between excluded users, from a first user on, as numbers.\<close>

fun gap_ranges :: "nat list \<Rightarrow> nat \<Rightarrow> (nat \<times> nat) list" where
  "gap_ranges [] start = (if start < 99999 then [(start, 99999)] else [])"
| "gap_ranges (u # us) start = (if start > u - 1 then [] else [(start, u - 1)]) @ gap_ranges us (u + 1)"

fun last_start :: "nat list \<Rightarrow> nat \<Rightarrow> nat" where
  "last_start [] start = start"
| "last_start (u # us) start = last_start us (u + 1)"

definition covered :: "(nat \<times> nat) list \<Rightarrow> nat set" where
  "covered rs = (\<Union>(a, b) \<in> set rs. {a..b})"

lemma covered_simps [simp]: "covered [] = {}" "covered (r # rs) = {fst r..snd r} \<union> covered rs" "covered (rs @ rs') = covered rs \<union> covered rs'"
  by (auto simp: covered_def split: prod.splits)

text \<open>They cover all users that are not excluded up to 99999, but for 99999 itself when it is the only one left.\<close>

lemma gap_ranges_cover:
  assumes "sorted us" "\<forall>u \<in> set us. 0 < u \<and> u < 100000" "\<forall>u \<in> set us. start \<le> u + 1"
  shows "covered (gap_ranges us start) = {x. start \<le> x \<and> x \<le> 99999 \<and> x \<notin> set us \<and> (x = 99999 \<longrightarrow> last_start us start \<noteq> 99999)}"
  using assms
proof (induction us arbitrary: start)
  case Nil
  then show ?case by (auto simp: covered_def)
next
  case (Cons u us)
  have IH: "covered (gap_ranges us (u + 1)) =
      {x. u + 1 \<le> x \<and> x \<le> 99999 \<and> x \<notin> set us \<and> (x = 99999 \<longrightarrow> last_start us (u + 1) \<noteq> 99999)}"
    using Cons.prems by (intro Cons.IH) auto
  have u: "0 < u" "u < 100000" "start \<le> u + 1" "\<forall>v \<in> set us. u \<le> v" using Cons.prems by auto
  have h: "covered (if start > u - 1 then [] else [(start, u - 1)]) = {x. start \<le> x \<and> x < u}" using u(1) by auto
  have s: "{x. start \<le> x \<and> x < u} = {x. start \<le> x \<and> x < u \<and> x \<le> 99999 \<and> x \<notin> set (u # us) \<and> (x = 99999 \<longrightarrow> last_start us (u + 1) \<noteq> 99999)}"
    using u by fastforce
  have t: "{x. u + 1 \<le> x \<and> x \<le> 99999 \<and> x \<notin> set us \<and> (x = 99999 \<longrightarrow> last_start us (u + 1) \<noteq> 99999)} =
     {x. start \<le> x \<and> u < x \<and> x \<le> 99999 \<and> x \<notin> set (u # us) \<and> (x = 99999 \<longrightarrow> last_start us (u + 1) \<noteq> 99999)}"
    using u by auto
  have "covered (gap_ranges (u # us) start) = {x. start \<le> x \<and> x < u} \<union>
      {x. u + 1 \<le> x \<and> x \<le> 99999 \<and> x \<notin> set us \<and> (x = 99999 \<longrightarrow> last_start us (u + 1) \<noteq> 99999)}"
    unfolding gap_ranges.simps covered_simps(3) h IH ..
  also have "\<dots> = {x. start \<le> x \<and> x \<le> 99999 \<and> x \<notin> set (u # us) \<and> (x = 99999 \<longrightarrow> last_start us (u + 1) \<noteq> 99999)}"
    unfolding s t by (auto simp: not_less_iff_gr_or_eq)
  finally show ?case by simp
qed

section \<open>Commands\<close>

text \<open>The text of a range, and a list cut into commands.\<close>

definition range_text :: "nat \<times> nat \<Rightarrow> string" where
  "range_text r = (if fst r = snd r then dec (fst r) else dec (fst r) @ ''-'' @ dec (snd r))"

function chunks :: "nat \<Rightarrow> 'a list \<Rightarrow> 'a list list" where
  "chunks k xs = (if xs = [] \<or> k = 0 then [] else take k xs # chunks k (drop k xs))"
  by pat_completeness auto
termination
  by (relation "measure (\<lambda>(k, xs). length xs)") auto

declare chunks.simps [simp del]

lemma chunks_Nil [simp]: "chunks k [] = []"
  by (subst chunks.simps) simp

lemma chunks_short: "xs \<noteq> [] \<Longrightarrow> length xs \<le> k \<Longrightarrow> chunks k xs = [xs]"
  by (cases k; subst chunks.simps) auto

lemma chunks_full: "length xs = k \<Longrightarrow> 0 < k \<Longrightarrow> chunks k (xs @ ys) = xs # chunks k ys"
  by (subst chunks.simps) auto

definition users_cmd :: "u32 \<Rightarrow> string list \<Rightarrow> string" where
  "users_cmd n ts = ''network users add '' @ dec (unat n) @ '' '' @ join_with (CHR '' '') ts"

text \<open>A system on which \<^verbatim>\<open>ndc\<close> answers every command with success.\<close>

definition ndc_ok :: "shell \<Rightarrow> bool" where
  "ndc_ok sh \<longleftrightarrow> (\<forall>tr t. \<exists>line ls e. qs_popen sh tr (''ndc '' @ t) = Inr (line # ls, e) \<and> atoi (cstr line) = 200)"

definition ran :: "event list \<Rightarrow> quick \<Rightarrow> quick" where
  "ran es s = s\<lparr> q_trace := q_trace s @ es \<rparr>"

lemma ran_ran [simp]: "ran es (ran fs s) = ran (fs @ es) s" "ran [] s = s"
  by (simp_all add: ran_def)

lemma cndc_ok: "ndc_ok sh \<Longrightarrow> cndc sh t s = (Inr (), ran [Popen (''ndc '' @ t)] s)"
proof -
  assume "ndc_ok sh"
  then obtain line ls e where l: "qs_popen sh (q_trace s) (''ndc '' @ t) = Inr (line # ls, e)" "atoi (cstr line) = 200"
    unfolding ndc_ok_def by blast
  show ?thesis unfolding cndc_def andthen_def vcmd_ret_def option.case l(1) sum.case by (simp add: returns_def l(2) ran_def)
qed

definition pending :: "string list \<Rightarrow> string option" where
  "pending ts = (if ts = [] then None else Some (join_with (CHR '' '') ts))"

lemma join_with_snoc: "ts \<noteq> [] \<Longrightarrow> join_with d (ts @ [t]) = join_with d ts @ d # t"
  by (cases ts) (simp_all add: join_with_Cons)

lemma pending_snoc: "concat_and_free (pending ts) '' '' t = Some (join_with (CHR '' '') (ts @ [t]))"
  by (simp add: pending_def concat_and_free_def join_with_snoc)

abbreviation users_event :: "u32 \<Rightarrow> string list \<Rightarrow> event" where
  "users_event n ts \<equiv> Popen (''ndc '' @ users_cmd n ts)"

text \<open>What the loops keep: the ranges that are pending are fewer than eighteen and the others went out in full commands.\<close>

definition flushed :: "u32 \<Rightarrow> string list \<Rightarrow> string list \<Rightarrow> string list \<Rightarrow> event list \<Rightarrow> bool" where
  "flushed n pend ts pend' es \<longleftrightarrow>
     (\<exists>fs. es = map (users_event n) fs \<and> (\<forall>xs. chunks 18 (pend @ ts @ xs) = fs @ chunks 18 (pend' @ xs)))"

lemma flushed_Nil: "flushed n pend [] pend []"
  by (simp add: flushed_def)

lemma flushed_step: "flushed n pend [t] pend1 es \<Longrightarrow> flushed n pend1 ts pend2 fs \<Longrightarrow> flushed n pend (t # ts) pend2 (es @ fs)"
  unfolding flushed_def by (auto simp: append_assoc[symmetric] simp del: append_assoc)

lemma add_range_step:
  assumes "ndc_ok sh" "length pend = k mod 18"
  obtains pend' es where "add_range sh n t (pending pend, k) s = (Inr (pending pend', k + 1), ran es s)" "length pend' = (k + 1) mod 18"
    "flushed n pend [t] pend' es"
proof (cases "length pend = 17")
  case True
  then have k: "(k + 1) mod 18 = 0" using assms(2) by (simp add: mod_Suc)
  have "add_range sh n t (pending pend, k) s = (Inr (pending [], k + 1), ran [users_event n (pend @ [t])] s)"
    unfolding add_range_def Let_def fst_conv snd_conv pending_snoc option.sel users_cmd_def[symmetric]
    using k by (simp add: andthen_def cndc_ok[OF assms(1)] returns_def pending_def)
  moreover have "flushed n pend [t] [] [users_event n (pend @ [t])]"
    unfolding flushed_def by (rule exI[of _ "[pend @ [t]]"]) (use True chunks_full[of "pend @ [t]" 18] in simp)
  ultimately show ?thesis using that[of "[]" "[users_event n (pend @ [t])]"] k by simp
next
  case False
  then have k: "(k + 1) mod 18 = length (pend @ [t])" using assms(2) by (simp add: mod_Suc)
  then have "(k + 1) mod 18 \<noteq> 0" by simp
  then have "add_range sh n t (pending pend, k) s = (Inr (pending (pend @ [t]), k + 1), ran [] s)"
    unfolding add_range_def Let_def fst_conv snd_conv pending_snoc by (simp add: returns_def pending_def)
  then show ?thesis using that[of "pend @ [t]" "[]"] k by (simp add: flushed_def)
qed

fun gaps :: "nat list \<Rightarrow> nat \<Rightarrow> (nat \<times> nat) list" where
  "gaps [] start = []"
| "gaps (u # us) start = (if start > u - 1 then [] else [(start, u - 1)]) @ gaps us (u + 1)"

lemma gap_ranges_gaps:
  "gap_ranges us start = gaps us start @ (if last_start us start < 99999 then [(last_start us start, 99999)] else [])"
  by (induction us arbitrary: start) simp_all

lemma u32_nat: "a < 2 ^ 32 \<Longrightarrow> unat (of_nat a :: u32) = a"
  by (simp add: unat_of_nat)

lemma u32_pred: "0 < a \<Longrightarrow> a < 2 ^ 32 \<Longrightarrow> unat (of_nat a - 1 :: u32) = a - 1"
  using u32_nat[of "a - 1"] by (simp add: of_nat_diff)

lemma excluded_users_run:
  assumes "ndc_ok sh" "\<forall>u \<in> set us. 0 < u \<and> u < 100000" "start \<le> 100000" "length pend = k mod 18"
  shows "\<exists>pend' k' es. excluded_users sh n (map of_nat us @ 0 # rest) (of_nat start) (pending pend, k) s =
      (Inr (of_nat (last_start us start), pending pend', k'), ran es s) \<and>
    length pend' = k' mod 18 \<and> flushed n pend (map range_text (gaps us start)) pend' es"
  using assms(2-4)
proof (induction us arbitrary: start pend k s)
  case Nil
  then show ?case by (intro exI[of _ pend] exI[of _ k] exI[of _ "[]"]) (simp add: returns_def flushed_Nil)
next
  case (Cons u us)
  have u: "0 < u" "u < 100000" using Cons.prems(1) by simp_all
  let ?u = "of_nat u :: u32" and ?st = "of_nat start :: u32"
  have w: "unat ?u = u" "unat (?u - 1) = u - 1" "unat ?st = start" using u Cons.prems(2) u32_nat u32_pred by simp_all
  have nz: "?u \<noteq> 0" using w(1) u(1) by (metis unat_0 less_irrefl)
  have gt: "?st > ?u - 1 \<longleftrightarrow> start > u - 1" unfolding word_less_nat_alt w ..
  have eq: "?st = ?u - 1 \<longleftrightarrow> start = u - 1" unfolding word_unat_eq_iff w ..
  show ?case
  proof (cases "start > u - 1")
    case True
    then have "excluded_users sh n (map of_nat (u # us) @ 0 # rest) ?st (pending pend, k) s =
        excluded_users sh n (map of_nat us @ 0 # rest) (of_nat (u + 1)) (pending pend, k) s"
      using nz gt by (simp add: add.commute)
    moreover have "gaps (u # us) start = gaps us (u + 1)" "last_start (u # us) start = last_start us (u + 1)" using True by simp_all
    ultimately show ?thesis using Cons.IH[of "u + 1" pend k s] Cons.prems u by simp
  next
    case False
    let ?t = "range_text (start, u - 1)"
    obtain pend1 es where a: "add_range sh n ?t (pending pend, k) s = (Inr (pending pend1, k + 1), ran es s)"
      "length pend1 = (k + 1) mod 18" "flushed n pend [?t] pend1 es" using add_range_step[OF assms(1) Cons.prems(3)] .
    obtain pend2 k2 fs where b: "excluded_users sh n (map of_nat us @ 0 # rest) (of_nat (u + 1)) (pending pend1, k + 1) (ran es s) =
        (Inr (of_nat (last_start us (u + 1)), pending pend2, k2), ran fs (ran es s))" "length pend2 = k2 mod 18"
      "flushed n pend1 (map range_text (gaps us (u + 1))) pend2 fs"
      using Cons.IH[of "u + 1" pend1 "k + 1" "ran es s"] Cons.prems(1) a(2) u by auto
    have lst: "map of_nat (u # us) @ 0 # rest = ?u # map of_nat us @ 0 # rest" by simp
    have tx: "(if ?st = ?u - 1 then dec (unat ?st) else dec (unat ?st) @ ''-'' @ dec (unat (?u - 1))) = ?t"
      unfolding eq w by (simp add: range_text_def)
    have "excluded_users sh n (map of_nat (u # us) @ 0 # rest) ?st (pending pend, k) s =
        andthen (add_range sh n ?t (pending pend, k)) (excluded_users sh n (map of_nat us @ 0 # rest) (of_nat (u + 1))) s"
      unfolding lst excluded_users.simps tx using nz gt False by (simp add: add.commute)
    also have "\<dots> = (Inr (of_nat (last_start us (u + 1)), pending pend2, k2), ran (es @ fs) s)"
      unfolding andthen_def a(1) using b(1) by simp
    finally have e: "excluded_users sh n (map of_nat (u # us) @ 0 # rest) ?st (pending pend, k) s =
        (Inr (of_nat (last_start (u # us) start), pending pend2, k2), ran (es @ fs) s)" by simp
    have g: "map range_text (gaps (u # us) start) = ?t # map range_text (gaps us (u + 1))" using False by simp
    show ?thesis unfolding g using e b(2) flushed_step[OF a(3) b(3)] by blast
  qed
qed

lemma last_start_eq: "last_start us start = (if us = [] then start else last us + 1)"
  by (induction us arbitrary: start) auto

lemma sorted_le_last: "sorted us \<Longrightarrow> x \<in> set us \<Longrightarrow> x \<le> last us"
  by (induction us) auto

lemma sorted_last_top:
  assumes "sorted us" "\<forall>u \<in> set us. u < (100000 :: nat)" "99999 \<notin> set us"
  shows "us \<noteq> [] \<and> last us = 99998 \<longleftrightarrow> 99998 \<in> set us"
proof
  assume "99998 \<in> set us"
  then have "us \<noteq> []" "99998 \<le> last us" using sorted_le_last[OF assms(1)] by auto
  moreover have "last us < 100000" "last us \<noteq> 99999" using assms(2,3) \<open>us \<noteq> []\<close> last_in_set by metis+
  ultimately show "us \<noteq> [] \<and> last us = 99998" by simp
qed (metis last_in_set)

lemma set_users_covers:
  assumes "ndc_ok sh" "get_uid_list sh qsort ex s = (Inr (map of_nat us @ 0 # rest), s)" "sorted us" "\<forall>u \<in> set us. 0 < u \<and> u < 100000"
  shows "set_users sh qsort n ex None s = (Inr (), ran (map (users_event n) (chunks 18 (map range_text (gap_ranges us 0)))) s) \<and>
    covered (gap_ranges us 0) = {..99999} - set us - (if 99998 \<in> set us then {99999} else {})"
proof
  obtain pend k es where e: "excluded_users sh n (map of_nat us @ 0 # rest) 0 (None, 0) s = (Inr (of_nat (last_start us 0), pending pend, k), ran es s)"
    "length pend = k mod 18" "flushed n [] (map range_text (gaps us 0)) pend es"
    using excluded_users_run[OF assms(1,4), of 0 "[]" 0 n rest s] by (auto simp: pending_def)
  obtain fs where fs: "es = map (users_event n) fs" "\<And>xs. chunks 18 (map range_text (gaps us 0) @ xs) = fs @ chunks 18 (pend @ xs)"
    using e(3) by (auto simp: flushed_def)
  have l: "last_start us 0 < 2 ^ 32"
  proof (cases "us = []")
    case False
    then have "last us < 100000" using assms(4) last_in_set by blast
    then show ?thesis using False by (simp add: last_start_eq)
  qed simp
  let ?l = "last_start us 0" and ?w = "of_nat (last_start us 0) :: u32"
  have w: "unat ?w = ?l" using l u32_nat by simp
  have lt: "?w < 99999 \<longleftrightarrow> ?l < 99999" unfolding word_less_nat_alt w by simp
  let ?final = "if ?l < 99999 then [dec ?l @ ''-99999''] else []"
  have final: "(if ?w < 99999 then concat_and_free (pending pend) '' '' (dec (unat ?w) @ ''-99999'') else pending pend) = pending (pend @ ?final)"
    unfolding lt w pending_snoc by (simp add: pending_def)
  have texts: "map range_text (gap_ranges us 0) = map range_text (gaps us 0) @ ?final"
  proof -
    have "dec 99999 = ''99999''"
      by (simp add: numstr.simps[of 10 99999] numstr.simps[of 10 9999] numstr.simps[of 10 999] numstr.simps[of 10 99] numstr.simps[of 10 9]
          digit_char_def char_of_def bit_iff_odd)
    then show ?thesis unfolding gap_ranges_gaps by (simp add: range_text_def)
  qed
  have rest: "chunks 18 (pend @ ?final) = (if pend @ ?final = [] then [] else [pend @ ?final])"
  proof (cases "pend @ ?final = []")
    case False
    have "length pend < 18" unfolding e(2) by simp
    then have "length (pend @ ?final) \<le> 18" by simp
    then show ?thesis using chunks_short[OF False] False by simp
  qed simp
  have "set_users sh qsort n ex None s =
      (case pending (pend @ ?final) of None \<Rightarrow> returns () | Some t \<Rightarrow> cndc sh (''network users add '' @ dec (unat n) @ '' '' @ t)) (ran es s)"
    unfolding set_users_def andthen_def using assms(2) e(1) by (simp add: returns_def final)
  also have "\<dots> = (Inr (), ran (es @ map (users_event n) (chunks 18 (pend @ ?final))) s)"
    unfolding rest by (auto simp: pending_def returns_def cndc_ok[OF assms(1)] users_cmd_def)
  finally show "set_users sh qsort n ex None s = (Inr (), ran (map (users_event n) (chunks 18 (map range_text (gap_ranges us 0)))) s)"
    unfolding texts fs by simp
  have "covered (gap_ranges us 0) = {x. 0 \<le> x \<and> x \<le> 99999 \<and> x \<notin> set us \<and> (x = 99999 \<longrightarrow> last_start us 0 \<noteq> 99999)}"
    by (rule gap_ranges_cover[OF assms(3,4)]) simp
  also have "\<dots> = {..99999} - set us - (if 99998 \<in> set us then {99999} else {})"
    using sorted_last_top[OF assms(3)] assms(4) by (auto simp: last_start_eq)
  finally show "covered (gap_ranges us 0) = {..99999} - set us - (if 99998 \<in> set us then {99999} else {})" .
qed


section \<open>The list of applications\<close>

lemma scan_Some:
  assumes "scan mem c i = Some k"
  shows "i \<le> k \<and> k < length mem \<and> (mem ! k = c \<or> mem ! k = NUL) \<and> (\<forall>j. i \<le> j \<longrightarrow> j < k \<longrightarrow> mem ! j \<noteq> c \<and> mem ! j \<noteq> NUL)"
  using assms
proof (induction mem c i rule: scan.induct)
  case (1 mem c i)
  then obtain x where x: "read_at mem i = Some x" by (cases "read_at mem i") (simp_all add: scan.simps)
  then have i: "i < length mem" "mem ! i = x" by (simp_all add: read_at_def split: if_splits)
  show ?case
  proof (cases "x = c \<or> x = NUL")
    case True
    then have "k = i" using 1(2) x by (simp add: scan.simps)
    then show ?thesis using i True by simp
  next
    case False
    then have "scan mem c (i + 1) = Some k" using 1(2) x by (simp add: scan.simps)
    from 1(1)[OF x False this] show ?thesis using i False
      by (metis Suc_eq_plus1 Suc_leD Suc_leI le_neq_implies_less)
  qed
qed

lemma scan_None: "scan mem c i = None \<Longrightarrow> i \<le> k \<Longrightarrow> k < length mem \<Longrightarrow> mem ! k \<noteq> NUL"
proof (induction mem c i rule: scan.induct)
  case (1 mem c i)
  have i: "i < length mem" using 1(3,4) by simp
  then have x: "read_at mem i = Some (mem ! i)" by (simp add: read_at_def)
  have n: "\<not> (mem ! i = c \<or> mem ! i = NUL)" using 1(2) x by (auto simp: scan.simps)
  then have "scan mem c (i + 1) = None" using 1(2) x by (simp add: scan.simps)
  from 1(1)[OF x n this] show ?case using n 1(3,4) by (cases "k = i") auto
qed

text \<open>A string that fills its allocation.\<close>

lemma scan_exact:
  assumes "NUL \<notin> set sel" "i \<le> length sel"
  obtains k where "scan (sel @ [NUL]) c i = Some k" "i \<le> k" "k \<le> length sel" "k < length sel \<Longrightarrow> sel ! k = c"
    "\<And>j. i \<le> j \<Longrightarrow> j < k \<Longrightarrow> sel ! j \<noteq> c"
proof -
  have "scan (sel @ [NUL]) c i \<noteq> None" using scan_None[of "sel @ [NUL]" c i "length sel"] assms(2) by auto
  then obtain k where k: "scan (sel @ [NUL]) c i = Some k" by blast
  note K = scan_Some[OF k]
  have "sel ! k = c" if "k < length sel" using K that assms(1) by (metis nth_append nth_mem)
  moreover have "sel ! j \<noteq> c" if "i \<le> j" "j < k" for j using K that by (auto simp: nth_append split: if_splits)
  ultimately show ?thesis using that[OF k] K by simp
qed

lemma uid_tokens_overread:
  assumes "NUL \<notin> set sel" "sel \<noteq> []" "last sel \<noteq> CHR '',''"
  shows "start < length sel \<Longrightarrow> uid_tokens (sel @ [NUL]) slots p u start us = None"
proof (induction "length sel - start" arbitrary: start us rule: less_induct)
  case less
  obtain k where k: "scan (sel @ [NUL]) (CHR '','') start = Some k" "start \<le> k" "k \<le> length sel" "k < length sel \<Longrightarrow> sel ! k = CHR '',''"
    using scan_exact[OF assms(1), of start "CHR '',''"] less.prems by auto
  have n: "(sel @ [NUL]) ! start \<noteq> NUL" using less.prems assms(1) by (metis nth_append nth_mem)
  have rec: "uid_tokens (sel @ [NUL]) slots p u (k + 1) vs = None" for vs
  proof (cases "k = length sel")
    case True
    have "scan (sel @ [NUL]) (CHR '','') (k + 1) = None" unfolding True by (subst scan.simps) (simp add: read_at_def)
    then show ?thesis by (subst uid_tokens.simps) simp
  next
    case False
    then have "k < length sel" "sel ! k = CHR '',''" using k by simp_all
    moreover have "k \<noteq> length sel - 1" using calculation(2) assms(2,3) by (metis last_conv_nth)
    ultimately show ?thesis using less.hyps[of "k + 1"] k(2) by simp
  qed
  show ?case using k(1) n rec by (subst uid_tokens.simps) (simp add: Let_def)
qed

lemma uid_slots_exact:
  assumes "NUL \<notin> set sel"
  shows "comma < length sel \<Longrightarrow> \<exists>n. uid_slots (sel @ [NUL]) comma i = Some n"
proof (induction "length sel - comma" arbitrary: comma i rule: less_induct)
  case less
  obtain k where k: "scan (sel @ [NUL]) (CHR '','') (comma + 1) = Some k" "comma + 1 \<le> k" "k \<le> length sel"
    using scan_exact[OF assms, of "comma + 1" "CHR '',''"] less.prems by auto
  show ?case
  proof (cases "k = length sel")
    case True
    then show ?thesis using k by (subst uid_slots.simps) simp
  next
    case False
    then have "(sel @ [NUL]) ! k \<noteq> NUL" using k(3) assms by (metis le_neq_implies_less nth_append nth_mem)
    moreover have "length sel - k < length sel - comma" "k < length sel" using k(2,3) False by simp_all
    then obtain n where "uid_slots (sel @ [NUL]) k (i + 1) = Some n" using less.hyps by blast
    ultimately show ?thesis using k by (subst uid_slots.simps) simp
  qed
qed

lemma uid_packages_overread:
  assumes "NUL \<notin> set sel" "sel \<noteq> []" "last sel \<noteq> CHR '',''" "l \<in> set ls" "package_line (cstr l) \<noteq> None"
  shows "uid_packages (sel @ [NUL]) slots ls us = None"
  using assms(4)
proof (induction ls)
  case (Cons m ls)
  show ?case
  proof (cases "package_line (cstr m)")
    case None
    then show ?thesis using Cons assms(5) by auto
  next
    case (Some pu)
    then show ?thesis using uid_tokens_overread[OF assms(1-3)] assms(2) by (cases pu) simp
  qed
qed simp

text \<open>C36. \<^verbatim>\<open>get_uid_list\<close> reads behind the end of the list of applications: behind the last name the loop over the names starts again one byte
  behind the terminator. Where the allocation ends with the terminator, every list that does not end with a comma makes it
  read outside, as soon as the package list has one package.\<close>

theorem get_uid_list_overreads:
  assumes "sel \<noteq> []" "NUL \<notin> set sel" "last sel \<noteq> CHR '',''" "qs_after sh sel = []"
    and "qs_fopen sh ''/data/system/packages.list'' = Inr content" "l \<in> set (getlines content)" "package_line (cstr l) \<noteq> None"
  shows "get_uid_list sh qsort (Some sel) s = (Inl Crash, s)"
proof -
  obtain n where n: "uid_slots (sel @ [NUL]) 0 1 = Some n" using uid_slots_exact[OF assms(2)] assms(1) by blast
  show ?thesis
    unfolding get_uid_list_def Let_def option.case assms(4) n assms(5) sum.case uid_packages_overread[OF assms(2,1,3,6,7)] by (simp add: halts_def)
qed

section \<open>The users of the selected applications\<close>

text \<open>The names in a list, and how often each package is named.\<close>

definition selected :: "string \<Rightarrow> string list" where
  "selected sel = filter (\<lambda>t. t \<noteq> []) (strsep_tokens (CHR '','') sel)"

definition packages :: "string list \<Rightarrow> (string \<times> u32) list" where
  "packages ls = List.map_filter (\<lambda>l. package_line (cstr l)) ls"

lemma scan_found:
  assumes "c \<notin> set a" "NUL \<notin> set a" "x = c \<or> x = NUL"
  shows "scan (pre @ a @ x # b) c (length pre) = Some (length pre + length a)"
  using assms(1,2)
proof (induction a arbitrary: pre)
  case Nil
  then show ?case using assms(3) by (subst scan.simps) (simp add: read_at_def)
next
  case (Cons y a)
  have "scan (pre @ (y # a) @ x # b) c (length pre) = scan ((pre @ [y]) @ a @ x # b) c (length (pre @ [y]))"
    using Cons.prems by (subst scan.simps) (auto simp: read_at_def)
  also have "\<dots> = Some (length (pre @ [y]) + length a)" using Cons.prems by (intro Cons.IH) simp_all
  finally show ?case by simp
qed

text \<open>Where another terminator follows the string, the loop over the names finds exactly the names.\<close>

lemma uid_tokens_run:
  assumes "NUL \<notin> set sel"
  shows "uid_tokens (pre @ sel @ NUL # NUL # t) slots p u (length pre) us =
    (let us' = us @ replicate (count_list (selected sel) p) u in if length us' \<le> slots \<or> count_list (selected sel) p = 0 then Some us' else None)"
  using assms
proof (induction "length sel" arbitrary: pre sel us rule: less_induct)
  case less
  let ?mem = "pre @ sel @ NUL # NUL # t"
  show ?case
  proof (cases "CHR '','' \<in> set sel")
    case False
    have sc: "scan ?mem (CHR '','') (length pre) = Some (length pre + length sel)"
      using scan_found[OF False less.prems, of NUL pre "NUL # t"] by simp
    have tk: "strsep_tokens (CHR '','') sel = [sel]" using False by (rule strsep_tokens_none)
    have "scan (pre @ sel @ [NUL] @ NUL # t) (CHR '','') (length (pre @ sel @ [NUL])) = Some (length (pre @ sel @ [NUL]))"
      using scan_found[of "CHR '',''" "[]" NUL "pre @ sel @ [NUL]" t] by simp
    then have e: "uid_tokens ?mem slots p u (length pre + length sel + 1) vs = Some vs" for vs
      by (subst uid_tokens.simps) (simp add: nth_append)
    show ?thesis
    proof (cases "sel = []")
      case True
      then show ?thesis using sc tk by (subst uid_tokens.simps) (simp add: selected_def nth_append)
    next
      case ne: False
      then have "?mem ! length pre \<noteq> NUL" using less.prems by (cases sel) (auto simp: nth_append)
      moreover have "take (length sel) (drop (length pre) ?mem) = sel" by simp
      ultimately show ?thesis using sc tk ne e by (subst uid_tokens.simps) (auto simp: selected_def Let_def)
    qed
  next
    case True
    then obtain a b where ab: "sel = a @ CHR '','' # b" "CHR '','' \<notin> set a" using split_list_first by metis
    then have n: "NUL \<notin> set a" "NUL \<notin> set b" using less.prems by auto
    have sc: "scan ?mem (CHR '','') (length pre) = Some (length pre + length a)"
      using scan_found[OF ab(2) n(1), of "CHR '',''" pre "b @ NUL # NUL # t"] ab(1) by simp
    have tk: "strsep_tokens (CHR '','') sel = a # strsep_tokens (CHR '','') b" unfolding ab(1) by (rule strsep_tokens_append[OF ab(2)])
    have nz: "?mem ! length pre \<noteq> NUL" using n(1) unfolding ab(1) by (cases a) (auto simp: nth_append)
    have tok: "take (length a) (drop (length pre) ?mem) = a" unfolding ab(1) by simp
    have rec: "uid_tokens ?mem slots p u (length pre + length a + 1) vs =
        (let us' = vs @ replicate (count_list (selected b) p) u in if length us' \<le> slots \<or> count_list (selected b) p = 0 then Some us' else None)" for vs
      using less.hyps[of b "pre @ a @ [CHR '','']" vs] n(2) unfolding ab(1) by simp
    show ?thesis
    proof (cases "a \<noteq> [] \<and> a = p")
      case False
      then have c: "count_list (selected sel) p = count_list (selected b) p" by (auto simp: selected_def tk)
      have "uid_tokens ?mem slots p u (length pre) us = uid_tokens ?mem slots p u (length pre + length a + 1) us"
        using sc nz tok False by (subst uid_tokens.simps) (auto simp: Let_def)
      then show ?thesis unfolding rec c .
    next
      case hit: True
      then have c: "count_list (selected sel) p = Suc (count_list (selected b) p)" by (auto simp: selected_def tk)
      have "uid_tokens ?mem slots p u (length pre) us =
          (if length us < slots then uid_tokens ?mem slots p u (length pre + length a + 1) (us @ [u]) else None)"
        using sc nz tok hit by (subst uid_tokens.simps) (auto simp: Let_def)
      then show ?thesis unfolding rec c by (auto simp: Let_def)
    qed
  qed
qed

definition named_uids :: "string \<Rightarrow> (string \<times> u32) list \<Rightarrow> u32 list" where
  "named_uids sel ps = concat (map (\<lambda>(p, u). replicate (count_list (selected sel) p) u) ps)"

lemma uid_packages_run:
  assumes "NUL \<notin> set sel"
  shows "length us + length (named_uids sel (packages ls)) \<le> slots \<Longrightarrow>
    uid_packages (sel @ NUL # NUL # t) slots ls us = Some (us @ named_uids sel (packages ls))"
proof (induction ls arbitrary: us)
  case Nil
  then show ?case by (simp add: packages_def named_uids_def List.map_filter_simps)
next
  case (Cons l ls)
  show ?case
  proof (cases "package_line (cstr l)")
    case None
    then have "packages (l # ls) = packages ls" by (simp add: packages_def List.map_filter_simps)
    then show ?thesis using None Cons by simp
  next
    case (Some pu)
    obtain p u where pu: "pu = (p, u)" by (cases pu)
    then have ps: "packages (l # ls) = (p, u) # packages ls" using Some by (simp add: packages_def List.map_filter_simps)
    let ?r = "replicate (count_list (selected sel) p) u"
    have "uid_tokens (sel @ NUL # NUL # t) slots p u 0 us = Some (us @ ?r)"
      using uid_tokens_run[OF assms, of "[]" t slots p u us] Cons.prems unfolding ps by (simp add: named_uids_def Let_def)
    moreover have "uid_packages (sel @ NUL # NUL # t) slots ls (us @ ?r) = Some ((us @ ?r) @ named_uids sel (packages ls))"
      using Cons.prems unfolding ps by (intro Cons.IH) (simp add: named_uids_def)
    ultimately show ?thesis using Some pu unfolding ps by (simp add: named_uids_def)
  qed
qed

text \<open>The array is large enough for one user for each name, and a zero behind them.\<close>

lemma uid_slots_run:
  "NUL \<notin> set rest \<Longrightarrow> uid_slots (pre @ c # rest @ NUL # t) (length pre) i = Some (i + 1 + count_list rest (CHR '',''))"
proof (induction "length rest" arbitrary: rest pre c i rule: less_induct)
  case less
  let ?mem = "pre @ c # rest @ NUL # t"
  show ?case
  proof (cases "CHR '','' \<in> set rest")
    case False
    have "scan ?mem (CHR '','') (length pre + 1) = Some (length pre + 1 + length rest)"
      using scan_found[OF False less.prems, of NUL "pre @ [c]" t] by simp
    moreover have "count_list rest (CHR '','') = 0" using False by (simp add: count_list_0_iff)
    ultimately show ?thesis by (subst uid_slots.simps) (simp add: nth_append)
  next
    case True
    then obtain a b where ab: "rest = a @ CHR '','' # b" "CHR '','' \<notin> set a" using split_list_first by metis
    then have n: "NUL \<notin> set a" "NUL \<notin> set b" using less.prems by auto
    have sc: "scan ?mem (CHR '','') (length pre + 1) = Some (length pre + 1 + length a)"
      using scan_found[OF ab(2) n(1), of "CHR '',''" "pre @ [c]" "b @ NUL # t"] ab(1) by simp
    have "uid_slots ?mem (length (pre @ c # a)) (i + 1) = Some (i + 1 + 1 + count_list b (CHR '',''))"
      using less.hyps[of b "pre @ c # a" "CHR '',''" "i + 1"] n(2) unfolding ab(1) by simp
    moreover have "?mem ! (length pre + 1 + length a) = CHR '',''" unfolding ab(1) by (simp add: nth_append)
    moreover have "count_list rest (CHR '','') = Suc (count_list b (CHR '',''))" using ab by (simp add: count_list_0_iff)
    ultimately show ?thesis using sc by (subst uid_slots.simps) (simp add: add.commute)
  qed
qed

lemma length_strsep_tokens: "length (strsep_tokens d s) = count_list s d + 1"
proof (induction "length s" arbitrary: s rule: less_induct)
  case less
  show ?case
  proof (cases "d \<in> set s")
    case False
    then show ?thesis by (simp add: strsep_tokens_none count_list_0_iff)
  next
    case True
    then obtain a b where ab: "s = a @ d # b" "d \<notin> set a" using split_list_first by metis
    then show ?thesis using less[of b] by (simp add: strsep_tokens_append count_list_0_iff)
  qed
qed

lemma length_selected:
  assumes "sel \<noteq> []"
  shows "length (selected sel) \<le> count_list (tl sel) (CHR '','') + 1"
proof -
  obtain c r where sel: "sel = c # r" using assms by (cases sel) simp_all
  show ?thesis
  proof (cases "c = CHR '',''")
    case True
    have "strsep_tokens (CHR '','') ([] @ CHR '','' # r) = [] # strsep_tokens (CHR '','') r" by (rule strsep_tokens_append) simp
    then have "selected sel = selected r" unfolding selected_def sel True by simp
    then show ?thesis using length_filter_le[of _ "strsep_tokens (CHR '','') r"] length_strsep_tokens[of "CHR '',''" r]
      unfolding selected_def sel by (metis Suc_eq_plus1 list.sel(3))
  next
    case False
    then show ?thesis using length_filter_le[of "\<lambda>t. t \<noteq> []" "strsep_tokens (CHR '','') sel"] length_strsep_tokens[of "CHR '',''" sel]
      unfolding selected_def sel by simp
  qed
qed

lemma sum_count_list: "distinct ps \<Longrightarrow> sum_list (map (count_list ts) ps) \<le> length ts"
proof (induction ts)
  case (Cons t ts)
  have "sum_list (map (count_list (t # ts)) ps) = sum_list (map (count_list ts) ps) + count_list ps t"
    by (induction ps) auto
  moreover have "count_list ps t \<le> 1" using Cons.prems by (induction ps) (auto simp: count_list_0_iff)
  ultimately show ?case using Cons.IH[OF Cons.prems] unfolding length_Cons by linarith
qed simp

lemma length_named_uids: "distinct (map fst ps) \<Longrightarrow> length (named_uids sel ps) \<le> length (selected sel)"
proof -
  assume d: "distinct (map fst ps)"
  have "length (named_uids sel ps) = sum_list (map (count_list (selected sel)) (map fst ps))"
    by (induction ps) (auto simp: named_uids_def)
  then show ?thesis using sum_count_list[OF d] by simp
qed

lemma set_named_uids: "set (named_uids sel ps) = {u. \<exists>p. (p, u) \<in> set ps \<and> p \<in> set (selected sel)}"
proof -
  have "count_list (selected sel) p \<noteq> 0 \<longleftrightarrow> p \<in> set (selected sel)" for p by (simp add: count_list_0_iff)
  then show ?thesis by (auto simp: named_uids_def set_replicate_conv_if split: if_splits)
qed

lemma sint_diff_u32:
  fixes a b :: u32
  assumes "unat a < 2 ^ 31" "unat b < 2 ^ 31"
  shows "sint (a - b) = int (unat a) - int (unat b)"
proof -
  have "int (unat a) < int (2 ^ 31)" "int (unat b) < int (2 ^ 31)" using assms by (simp_all only: of_nat_less_iff)
  then have u: "uint a < 2 ^ 31" "uint b < 2 ^ 31" by simp_all
  have s: "sint c = uint c" if "uint c < 2 ^ 31" for c :: u32
    using that signed_take_bit_int_eq_self[of 31 "uint c"] uint_ge_0[of c] by (simp add: sint_uint)
  have "sint (a - b) = signed_take_bit 31 (uint a - uint b)" using s u by (simp add: sint_word_ariths)
  also have "\<dots> = uint a - uint b" using u uint_ge_0[of a] uint_ge_0[of b] by (intro signed_take_bit_int_eq_self) linarith+
  finally show ?thesis by simp
qed

lemma get_uid_list_run:
  assumes "qsort_spec qsort" "sel \<noteq> []" "NUL \<notin> set sel" "qs_after sh sel = NUL # t"
    and "qs_fopen sh ''/data/system/packages.list'' = Inr content"
    and "distinct (map fst (packages (getlines content)))" "\<forall>(p, u) \<in> set (packages (getlines content)). unat u < 100000"
  obtains us rest where "get_uid_list sh qsort (Some sel) s = (Inr (map of_nat us @ 0 # rest), s)" "sorted us"
    "set us = unat ` set (named_uids sel (packages (getlines content)))" "\<forall>u \<in> set us. 0 < u \<and> u < 100000"
proof -
  define ps where "ps = packages (getlines content)"
  define U where "U = named_uids sel ps"
  obtain c r where sel: "sel = c # r" using assms(2) by (cases sel) simp_all
  define slots where "slots = 2 + count_list r (CHR '','')"
  have slots: "uid_slots (sel @ NUL # NUL # t) 0 1 = Some slots"
    using uid_slots_run[of r "[]" c "NUL # t" 1] assms(3) by (simp add: sel slots_def)
  have len: "length U < slots"
    using length_named_uids[of ps sel] assms(6) length_selected[OF assms(2)] unfolding U_def ps_def sel slots_def by simp
  have run: "uid_packages (sel @ NUL # NUL # t) slots (getlines content) [] = Some U"
    using uid_packages_run[OF assms(3), of "[]" "getlines content" slots t] len unfolding U_def ps_def by simp
  have small: "0 < unat u \<and> unat u < 100000" if u: "u \<in> set U" for u
  proof -
    obtain p where p: "(p, u) \<in> set ps" using u unfolding U_def set_named_uids by blast
    then obtain l where "package_line (cstr l) = Some (p, u)" unfolding ps_def packages_def by (auto simp: List.map_filter_def)
    then have "u \<noteq> 0" by (auto simp: package_line_def Let_def split: option.splits prod.splits if_splits)
    then show ?thesis using p assms(7) unfolding ps_def by (auto simp: unat_gt_0)
  qed
  have d: "compare_uid a b = int (unat a) - int (unat b)" if "a \<in> set U" "b \<in> set U" for a b
    unfolding compare_uid_def by (rule sint_diff_u32) (use small[OF that(1)] small[OF that(2)] in simp_all)
  have le: "compare_uid a b \<le> 0 \<longleftrightarrow> unat a \<le> unat b" if "a \<in> set U" "b \<in> set U" for a b using d[OF that] by linarith
  then have T: "total_preorder compare_uid (set U)" unfolding total_preorder_def by (meson le_trans nat_le_linear)
  define Q where "Q = qsort compare_uid U"
  have m: "mset Q = mset U" unfolding Q_def using qsort_spec.qsort_mset[OF assms(1) T] .
  have set: "set Q = set U" using mset_eq_setD[OF m] .
  have "sorted_wrt (\<lambda>a b. compare_uid a b \<le> 0) Q" unfolding Q_def using qsort_spec.qsort_sorted[OF assms(1) T] .
  then have "sorted_wrt (\<lambda>a b. unat a \<le> unat b) Q" by (rule sorted_wrt_mono_rel[rotated]) (use le set in simp)
  then have sorted: "sorted (map unat Q)" by (simp add: sorted_map)
  have words: "map of_nat (map unat Q) = Q" by (simp add: comp_def)
  have zeros: "replicate (slots - length U) 0 = (0 :: u32) # replicate (slots - length U - 1) 0" using len by (cases "slots - length U") simp_all
  have g: "get_uid_list sh qsort (Some sel) s = (Inr (map of_nat (map unat Q) @ 0 # replicate (slots - length U - 1) 0), s)"
    unfolding get_uid_list_def Let_def option.case assms(4) slots assms(5) sum.case run zeros[symmetric] words unfolding Q_def returns_def ..
  show ?thesis
    by (rule that[OF g sorted]) (use set small in \<open>auto simp: U_def ps_def\<close>)
qed


text \<open>A package list as the system writes it, and what is read of it.\<close>

definition package_entry :: "string \<times> nat \<Rightarrow> string" where
  "package_entry = (\<lambda>(p, n). p @ '' '' @ dec n @ '' 0'')"

definition entry_ok :: "string \<times> nat \<Rightarrow> bool" where
  "entry_ok = (\<lambda>(p, n). (\<forall>c \<in> set p. c \<noteq> CHR '' '' \<and> c \<noteq> newline \<and> c \<noteq> NUL) \<and> 0 < n \<and> n < 2 ^ 32)"

lemma package_line_entry:
  assumes "entry_ok (p, n)"
  shows "package_line (cstr (package_entry (p, n) @ [newline])) = Some (p, of_nat n)" "newline \<notin> set (package_entry (p, n))"
proof -
  have d: "c \<noteq> CHR '' ''" "c \<noteq> newline" "c \<noteq> NUL" if "c \<in> set (dec n)" for c using dec_is_digit[OF that] by auto
  show "newline \<notin> set (package_entry (p, n))" using assms d by (auto simp: package_entry_def entry_ok_def)
  have c: "cstr (package_entry (p, n) @ [newline]) = p @ CHR '' '' # (dec n @ [CHR '' '', CHR ''0'', newline])"
    using assms d unfolding cstr_def by (subst takeWhile_eq_all_conv[THEN iffD2]) (auto simp: package_entry_def entry_ok_def)
  have t: "takeWhile (\<lambda>c. c \<noteq> CHR '' '') (dec n @ [CHR '' '', CHR ''0'', newline]) = dec n"
    using d takeWhile_append_stop[of "dec n" "\<lambda>c. c \<noteq> CHR '' ''"] by auto
  have s: "strchr (p @ CHR '' '' # (dec n @ [CHR '' '', CHR ''0'', newline])) (CHR '' '') = Some (length p)"
    using assms by (intro strchr_append) (auto simp: entry_ok_def)
  have u: "strtoul 64 10 (dec n) = (n, [])" using strtoul_dec[of "[]" 64 n] assms by (simp add: entry_ok_def)
  have "unat (of_nat n :: u32) = n" using assms by (simp add: entry_ok_def unat_of_nat take_bit_nat_eq_self)
  then have "(of_nat n :: u32) \<noteq> 0" using assms unfolding entry_ok_def by force
  then show "package_line (cstr (package_entry (p, n) @ [newline])) = Some (p, of_nat n)"
    unfolding c package_line_def s option.case Let_def by (simp add: t u)
qed

lemma packages_entries:
  assumes "list_all entry_ok es"
  shows "packages (getlines (unlines (map package_entry es))) = map (\<lambda>(p, n). (p, of_nat n)) es"
proof -
  have "getlines (unlines (map package_entry es)) = map (\<lambda>l. l @ [newline]) (map package_entry es)"
    by (rule getlines_concat) (use assms package_line_entry(2) in \<open>auto simp: list_all_iff\<close>)
  moreover have "packages (map (\<lambda>l. l @ [newline]) (map package_entry es)) = map (\<lambda>(p, n). (p, of_nat n)) es"
    using assms by (induction es) (auto simp: packages_def List.map_filter_simps package_line_entry(1))
  ultimately show ?thesis by simp
qed

definition app_shell :: shell where
  "app_shell = sample_shell\<lparr> qs_popen := (\<lambda>_ _. Inr ([''200 0 ok''], 0)), qs_after := (\<lambda>_. []),
     qs_fopen := (\<lambda>_. Inr (unlines (map package_entry [(''com.a'', 10061), (''com.b'', 99998)]))) \<rparr>"

lemma app_shell_packages:
  "packages (getlines (unlines (map package_entry [(''com.a'', 10061), (''com.b'', 99998)]))) = [(''com.a'', 10061), (''com.b'', 99998)]"
proof -
  have "list_all entry_ok [(''com.a'', 10061), (''com.b'', 99998)]" by (simp add: entry_ok_def)
  from packages_entries[OF this] show ?thesis by simp
qed

theorem get_uid_list_overreads_witness:
  "get_uid_list app_shell insertion_sort (Some ''com.b'') fresh_quick = (Inl Crash, fresh_quick)"
proof -
  let ?c = "unlines (map package_entry [(''com.a'', 10061), (''com.b'', 99998)])"
  have "(''com.a'', 10061) \<in> set (packages (getlines ?c))" unfolding app_shell_packages by simp
  then obtain l where l: "l \<in> set (getlines ?c)" "package_line (cstr l) \<noteq> None"
    unfolding packages_def List.map_filter_def by auto
  have f: "qs_fopen app_shell ''/data/system/packages.list'' = Inr ?c" "qs_after app_shell ''com.b'' = []"
    unfolding app_shell_def by simp_all
  show ?thesis by (rule get_uid_list_overreads[OF _ _ _ f(2,1) l]) simp_all
qed


end
