(* ===== verification/Quick_Net.thy ===== *)
theory Quick_Net
  imports Quick_Users
begin

text \<open>
  What \<^verbatim>\<open>wg-quick\<close> does with the output of other commands: the endpoints it asks \<^verbatim>\<open>wg show\<close> for, the rules it searches for its network,
  and the quoting of the name servers in a command line.
\<close>

section \<open>Expressions and characters\<close>

lemma matches_chars: "matches es s \<Longrightarrow> c \<in> set s \<Longrightarrow> \<exists>(p, r) \<in> set es. p c"
  by (induction rule: matches.induct) auto

lemma match_ends_chars: "k \<in> set (match_ends es s) \<Longrightarrow> c \<in> set (take k s) \<Longrightarrow> \<exists>(p, r) \<in> set es. p c"
  using match_ends_iff matches_chars by blast

text \<open>An expression anchored at both ends matches no text with a character that none of its elements admits.\<close>

lemma regexec_foreign:
  assumes "rx_start rx" "rx_end rx" "c \<in> set s" "\<forall>(p, r) \<in> set (rx_pre rx @ rx_group rx @ rx_post rx). \<not> p c"
  shows "regexec rx s = None"
proof -
  have "match_at rx s = []"
  proof (rule ccontr)
    assume "match_at rx s \<noteq> []"
    then obtain m where "m \<in> set (match_at rx s)" by (cases "match_at rx s") auto
    then obtain x y z where m: "x \<in> set (match_ends (rx_pre rx) s)" "y \<in> set (match_ends (rx_group rx) (drop x s))"
      "z \<in> set (match_ends (rx_post rx) (drop (x + y) s))" "x + y + z = length s"
      using assms(2) unfolding match_at_def by auto
    have "s = take x s @ take y (drop x s) @ take z (drop (x + y) s)"
      using m(4) by (metis append_take_drop_id drop_drop add.commute length_drop add_diff_cancel_left' order_refl take_all)
    then have "c \<in> set (take x s) \<or> c \<in> set (take y (drop x s)) \<or> c \<in> set (take z (drop (x + y) s))" using assms(3) by (metis Un_iff set_append)
    then have "\<exists>(p, r) \<in> set (rx_pre rx @ rx_group rx @ rx_post rx). p c"
      using match_ends_chars[OF m(1), of c] match_ends_chars[OF m(2), of c] match_ends_chars[OF m(3), of c] by auto
    then show False using assms(4) by blast
  qed
  then show ?thesis unfolding regexec_def by (subst regexec_from.simps) (simp add: assms(1) split: list.split)
qed

section \<open>The endpoints and the MTU\<close>

lemma getlines_newline: "s = [] \<or> last s = newline \<Longrightarrow> l \<in> set (getlines s) \<Longrightarrow> newline \<in> set l \<and> set l \<subseteq> set s"
proof (induction s rule: getlines.induct)
  case (1 s)
  show ?case
  proof (cases "strchr s newline")
    case None
    then have "newline \<notin> set s" by (rule strchr_None[THEN iffD1])
    then have "s = []" using 1(2) last_in_set[of s] by metis
    then show ?thesis using 1(3) by (simp add: getlines.simps[of "[]"])
  next
    case (Some i)
    then have i: "i < length s" "s ! i = newline" by (auto simp: strchr_Some)
    have "s \<noteq> []" using i by auto
    have g: "getlines s = take (i + 1) s # getlines (drop (i + 1) s)" using Some \<open>s \<noteq> []\<close> by (subst getlines.simps) simp
    have "drop (i + 1) s = [] \<or> last (drop (i + 1) s) = newline" using 1(2) i by (cases "i + 1 < length s") auto
    then have "l \<in> set (getlines (drop (i + 1) s)) \<Longrightarrow> newline \<in> set l \<and> set l \<subseteq> set (drop (i + 1) s)"
      using 1(1)[OF \<open>s \<noteq> []\<close> Some] by blast
    moreover have "newline \<in> set (take (i + 1) s)" using i by (metis in_set_conv_nth length_take less_add_one min_less_iff_conj nth_take)
    ultimately show ?thesis using 1(3) unfolding g by (auto dest: in_set_takeD in_set_dropD)
  qed
qed

lemma loop_lines_skip:
  "\<forall>l \<in> set ls. \<forall>x. body x (cstr l) = returns (False, x) \<Longrightarrow> loop_lines body x (ls, 0) = returns x"
  by (induction ls) (auto simp: andthen_def returns_def fun_eq_iff)

lemma last_concat_lines: "\<forall>x \<in> set xs. \<exists>t. f x = t @ [newline] \<Longrightarrow> concat (map f xs) = [] \<or> last (concat (map f xs)) = newline"
proof (induction xs)
  case (Cons x xs)
  then obtain t where "f x = t @ [newline]" by auto
  then have "concat (map f (x # xs)) = (t @ [newline]) @ concat (map f xs)" by simp
  moreover have "concat (map f xs) = [] \<or> last (concat (map f xs)) = newline" using Cons by simp
  ultimately show ?case by (metis append_Nil2 last_append last_snoc)
qed simp

text \<open>What \<^verbatim>\<open>wg show\<close> prints of the endpoints, line by line.\<close>

definition endpoints_output :: "show_env \<Rightarrow> wgdevice \<Rightarrow> string" where
  "endpoints_output se d = snd (the (ugly_print se (Some d) ''endpoints'' False))"

lemma endpoints_output_lines:
  "ugly_print se (Some d) ''endpoints'' False = Some (True, endpoints_output se d)"
  "endpoints_output se d = [] \<or> last (endpoints_output se d) = newline"
proof -
  have e: "ugly_print se (Some d) ''endpoints'' False = Some (True, show_peer_lines (\<lambda>p. [tab] @
      (if has_endpoint p then show_endpoint se (endpoint p) @ [newline] else ''(none)'' @ [newline])) d False)"
    by (simp add: ugly_print_def with_device_def)
  then show "ugly_print se (Some d) ''endpoints'' False = Some (True, endpoints_output se d)" by (simp add: endpoints_output_def)
  show "endpoints_output se d = [] \<or> last (endpoints_output se d) = newline"
    unfolding endpoints_output_def e option.sel snd_conv show_peer_lines_def by (rule last_concat_lines) auto
qed

lemma regex_endpoint_line: "newline \<in> set s \<Longrightarrow> regexec regex_endpoint s = None"
  by (rule regexec_foreign[of _ newline]) (simp_all add: regex_endpoint_def)

text \<open>C37. The endpoints of the peers have no influence on the MTU: \<^verbatim>\<open>set_mtu\<close> matches an expression anchored at both ends against
  the lines of \<^verbatim>\<open>wg show endpoints\<close>, which begin with a key and end with a line feed that neither \<^verbatim>\<open>getline\<close> nor \<^verbatim>\<open>set_mtu\<close> removes, so
  that no line ever matches, whatever the device is. The MTU is that of the default route, or 1500, less 80.\<close>

theorem set_mtu_ignores_endpoints:
  assumes "get_route_mtu sh ''default'' s = (Inr m, s1)"
    and "qs_popen sh (q_trace s1) (''wg show '' @ iface @ '' endpoints'') = Inr (getlines (snd (the (ugly_print se (Some d) ''endpoints'' False))), 0)"
    and "NUL \<notin> set (snd (the (ugly_print se (Some d) ''endpoints'' False)))"
  shows "set_mtu sh iface 0 s =
    cndc sh (''interface setmtu '' @ iface @ '' '' @ sdec ((if m = - 1 then 1500 else m) - 80))
      (ran [Popen (''wg show '' @ iface @ '' endpoints'')] s1)"
proof -
  note lines = endpoints_output_def[symmetric]
  have "regexec regex_endpoint (cstr l) = None" if "l \<in> set (getlines (endpoints_output se d))" for l
  proof -
    have l: "newline \<in> set l" "set l \<subseteq> set (endpoints_output se d)" using getlines_newline[OF endpoints_output_lines(2) that] by simp_all
    then have "NUL \<notin> set l" using assms(3) unfolding lines by blast
    then have "cstr l = l" unfolding cstr_def by (auto simp: takeWhile_eq_all_conv)
    then show ?thesis using regex_endpoint_line[OF l(1)] by simp
  qed
  then have "for_lines sh (''wg show '' @ iface @ '' endpoints'') (\<lambda>endpoint_mtu line.
               case regexec regex_endpoint line of
                 None \<Rightarrow> returns (False, endpoint_mtu)
               | Some m \<Rightarrow>
                   andthen (get_route_mtu sh (group_text line m)) (\<lambda>next_mtu.
                     returns (False, if next_mtu > 0 \<and> next_mtu < endpoint_mtu then next_mtu else endpoint_mtu))) x s1 =
      returns x (ran [Popen (''wg show '' @ iface @ '' endpoints'')] s1)" for x
    unfolding for_lines_def assms(2)[unfolded lines] sum.case ran_def by (subst loop_lines_skip) simp_all
  then show ?thesis
    unfolding set_mtu_def using assms(1) by (simp add: andthen_def returns_def)
qed

definition endpoint_device :: wgdevice where
  "endpoint_device = new_device\<lparr> peers := [new_peer\<lparr> endpoint := SaIn 0x0A000001 51820 \<rparr>] \<rparr>"

definition endpoint_show :: show_env where
  "endpoint_show = sample_show\<lparr> sh_printer := numeric_printer\<lparr> getnameinfo := (\<lambda>_. Some (''10.0.0.1'', ''51820'')) \<rparr> \<rparr>"

definition mtu_shell :: shell where
  "mtu_shell = sample_shell\<lparr> qs_popen := (\<lambda>_ t.
     if t = ''wg show wg0 endpoints'' then Inr (getlines (endpoints_output endpoint_show endpoint_device), 0)
     else if t = ''ip -o route show default'' then Inr ([''default dev wlan0 mtu 1300''], 0)
     else Inr ([''200 0 ok''], 0)) \<rparr>"

theorem set_mtu_ignores_endpoints_witness:
  "set_mtu mtu_shell ''wg0'' 0 fresh_quick =
     (Inr (), ran [Popen ''ip -o route show default'', Popen ''wg show wg0 endpoints'', Popen ''ndc interface setmtu wg0 1220''] fresh_quick)"
proof -
  have out: "endpoints_output endpoint_show endpoint_device = key_to_base64 zero_key @ [tab] @ ''10.0.0.1:51820'' @ [newline]"
    by (simp add: endpoints_output_def ugly_print_def with_device_def show_peer_lines_def endpoint_device_def new_device_def new_peer_def iface_column_def
        has_endpoint_def show_endpoint_def endpoint_show_def sample_show_def show_key_def)
  have nul: "NUL \<notin> set (endpoints_output endpoint_show endpoint_device)"
    using key_to_base64_clean[of zero_key] unfolding out by (auto simp: clean_def)
  have r: "regexec regex_mtu ''default dev wlan0 mtu 1300'' = Some (22, 26)" by code_simp
  have "atoi ''1300'' = 1300" by code_simp
  then have m: "get_route_mtu mtu_shell ''default'' fresh_quick = (Inr 1300, ran [Popen ''ip -o route show default''] fresh_quick)"
    by (simp add: get_route_mtu_def cmd_ret_def vcmd_ret_def mtu_shell_def andthen_def returns_def r group_text_def ran_def cstr_def)
  have p: "qs_popen mtu_shell tr (''wg show '' @ ''wg0'' @ '' endpoints'') =
      Inr (getlines (snd (the (ugly_print endpoint_show (Some endpoint_device) ''endpoints'' False))), 0)" for tr
    by (simp add: mtu_shell_def endpoints_output_def)
  have a: "atoi (cstr ''200 0 ok'') = 200" by code_simp
  have d: "sdec 1220 = ''1220''" by code_simp
  show ?thesis using set_mtu_ignores_endpoints[OF m p nul[unfolded endpoints_output_def]]
    by (simp add: cndc_def vcmd_ret_def mtu_shell_def andthen_def returns_def a d ran_def)
qed


section \<open>The network of an interface\<close>

definition plain :: "string \<Rightarrow> bool" where
  "plain t \<longleftrightarrow> (\<forall>c \<in> set t. c \<noteq> CHR ''.'' \<and> c \<noteq> CHR ''+'')"

definition hex_digits :: "string \<Rightarrow> bool" where
  "hex_digits h \<longleftrightarrow> h \<noteq> [] \<and> (\<forall>c \<in> set h. is_digit c \<or> (97 \<le> code c \<and> code c \<le> 102))"

lemma ere_name_plain: "plain t \<Longrightarrow> ere_name acc t = rev acc @ lit t"
  by (induction t arbitrary: acc) (auto simp: plain_def lit_def)

lemma lit_append [simp]: "lit (a @ b) = lit a @ lit b"
  by (simp add: lit_def)

lemma matches_lit: "matches (lit t) s \<longleftrightarrow> s = t"
proof (induction t arbitrary: s)
  case (Cons c t)
  then show ?case by (cases s) (auto simp: lit_def)
qed (simp add: lit_def)

lemma match_ends_lit: "k \<in> set (match_ends (lit t) s) \<longleftrightarrow> k = length t \<and> take k s = t"
  unfolding match_ends_iff matches_lit by (metis length_take min.absorb2 nat_le_linear take_all)

lemma matches_Plus_single: "matches [(p, Plus)] s \<longleftrightarrow> s \<noteq> [] \<and> (\<forall>c \<in> set s. p c)"
proof -
  have st: "matches [(p, Star)] s \<longleftrightarrow> (\<forall>c \<in> set s. p c)" for s by (induction s) auto
  show ?thesis by (cases s) (auto simp: st)
qed

text \<open>A group of repeated characters between two literals, the second of which begins with another character.\<close>

definition between :: "string \<Rightarrow> (char \<Rightarrow> bool) \<Rightarrow> string \<Rightarrow> regex" where
  "between a p b = \<lparr> rx_start = False, rx_pre = lit a, rx_group = [(p, Plus)], rx_post = lit b, rx_end = False \<rparr>"

lemma set_match_at:
  "set (match_at rx s) = {(x, y, z). x \<in> set (match_ends (rx_pre rx) s) \<and> y \<in> set (match_ends (rx_group rx) (drop x s)) \<and>
     z \<in> set (match_ends (rx_post rx) (drop (x + y) s)) \<and> (rx_end rx \<longrightarrow> x + y + z = length s)}"
  unfolding match_at_def by auto

lemma match_at_between_none: "take (length a) s \<noteq> a \<Longrightarrow> match_at (between a p b) s = []"
proof -
  assume "take (length a) s \<noteq> a"
  then have "match_ends (lit a) s = []" using match_ends_lit[of _ a s] by (metis list.set_intros(1) neq_Nil_conv)
  then show ?thesis by (simp add: match_at_def between_def)
qed

lemma match_at_between:
  assumes "b \<noteq> []" "\<not> p (hd b)" "h \<noteq> []" "\<forall>c \<in> set h. p c"
  shows "set (match_at (between a p b) (a @ h @ b @ r)) = {(length a, length h, length b)}"
proof -
  have group: "y = length h" if "y \<in> set (match_ends [(p, Plus)] (h @ b @ r))" "take (length b) (drop y (h @ b @ r)) = b" for y
  proof (rule ccontr)
    assume "y \<noteq> length h"
    have y: "take y (h @ b @ r) \<noteq> []" "\<forall>c \<in> set (take y (h @ b @ r)). p c"
      using that(1) unfolding match_ends_iff matches_Plus_single by simp_all
    consider "y < length h" | "length h < y" using \<open>y \<noteq> length h\<close> by linarith
    then show False
    proof cases
      case 1
      have "hd b = hd (drop y (h @ b @ r))" using that(2) assms(1) by (metis hd_take length_greater_0_conv)
      then have "hd b = h ! y" using 1 by (simp add: hd_drop_conv_nth nth_append)
      then show False using 1 assms(2,4) by simp
    next
      case 2
      then have "hd b \<in> set (take y (h @ b @ r))" using assms(1) by (cases b; cases "y - length h") simp_all
      then show False using y(2) assms(2) by blast
    qed
  qed
  have h: "length h \<in> set (match_ends [(p, Plus)] (h @ b @ r))" unfolding match_ends_iff matches_Plus_single using assms(3,4) by simp
  have "set (match_at (between a p b) (a @ h @ b @ r)) = {(x, y, z). x = length a \<and> take x (a @ h @ b @ r) = a \<and>
      y \<in> set (match_ends [(p, Plus)] (drop x (a @ h @ b @ r))) \<and> z = length b \<and> take z (drop (x + y) (a @ h @ b @ r)) = b}"
    (is "_ = ?M")
    unfolding set_match_at between_def regex.select_convs match_ends_lit by (simp del: match_ends.simps)
  also have "?M = {(x, y, z). x = length a \<and> y \<in> set (match_ends [(p, Plus)] (h @ b @ r)) \<and> z = length b \<and> take z (drop y (h @ b @ r)) = b}"
    by (auto simp del: match_ends.simps)
  finally have m: "set (match_at (between a p b) (a @ h @ b @ r)) = \<dots>" .
  have "take (length b) (drop (length h) (h @ b @ r)) = b" by simp
  then show ?thesis unfolding m using group h by blast
qed

lemma fold_best_same: "\<forall>m \<in> set ms. m = a \<Longrightarrow> fold (\<lambda>m acc. if better m acc then m else acc) ms a = a"
  by (induction ms) auto

lemma regexec_from_single: "set (match_at rx s) = {(a, b, c)} \<Longrightarrow> regexec_from rx i s = Some (i + a, i + a + b)"
proof -
  assume m: "set (match_at rx s) = {(a, b, c)}"
  then obtain n ms where ms: "match_at rx s = n # ms" by (cases "match_at rx s") auto
  then have "n = (a, b, c)" "\<forall>m \<in> set ms. m = (a, b, c)" using m by auto
  then show ?thesis using fold_best_same[of ms "(a, b, c)"] by (subst regexec_from.simps) (simp add: ms best_def)
qed

lemma regexec_from_skip:
  "\<not> rx_start rx \<Longrightarrow> \<forall>i < length pre. match_at rx (drop i pre @ s) = [] \<Longrightarrow> regexec_from rx k (pre @ s) = regexec_from rx (k + length pre) s"
proof (induction pre arbitrary: k)
  case (Cons c pre)
  have "match_at rx (c # pre @ s) = []" using Cons.prems(2) by (metis append_Cons drop0 length_greater_0_conv list.distinct(1))
  then have "regexec_from rx k ((c # pre) @ s) = regexec_from rx (Suc k) (pre @ s)" using Cons.prems(1) by (subst regexec_from.simps) simp
  moreover have "\<forall>i < length pre. match_at rx (drop i pre @ s) = []" using Cons.prems(2) by (metis Suc_mono drop_Suc_Cons length_Cons)
  ultimately show ?case using Cons.IH[OF Cons.prems(1), of "Suc k"] by simp
qed simp

text \<open>A rule with a mark, as \<^verbatim>\<open>ip rule show\<close> prints it.\<close>

definition mark_rule :: "string \<Rightarrow> string \<Rightarrow> string \<Rightarrow> string" where
  "mark_rule pre h other = pre @ ''0xc'' @ h @ ''/0xcffff lookup '' @ other"

lemma rule_regex_between:
  assumes "plain iface"
  shows "rule_regex iface = between ''0xc'' (\<lambda>c. is_digit c \<or> (97 \<le> code c \<and> code c \<le> 102)) (''/0xcffff lookup '' @ iface)"
  unfolding rule_regex_def between_def ere_name_plain[OF assms] rev_rev_ident lit_append ..

lemma rule_regex_group:
  assumes "plain iface" "hex_digits h" "CHR ''x'' \<notin> set pre"
  shows "\<exists>m. regexec (rule_regex iface) (mark_rule pre h (iface @ rest)) = Some m \<and> group_text (mark_rule pre h (iface @ rest)) m = h"
proof -
  define p where "p = (\<lambda>c. is_digit c \<or> (97 \<le> code c \<and> code c \<le> 102))"
  define post where "post = ''/0xcffff lookup '' @ iface"
  have hd: "post \<noteq> []" "\<not> p (hd post)" by (simp_all add: post_def p_def)
  have rx: "rule_regex iface = between ''0xc'' p post" unfolding rule_regex_between[OF assms(1)] p_def post_def ..
  have line: "mark_rule pre h (iface @ rest) = pre @ ''0xc'' @ h @ post @ rest" unfolding mark_rule_def post_def by (simp only: append_assoc)
  have at: "set (match_at (between ''0xc'' p post) (''0xc'' @ h @ post @ rest)) = {(length ''0xc'', length h, length post)}"
    using assms(2) by (intro match_at_between hd) (simp_all add: hex_digits_def p_def)
  have skip: "match_at (between ''0xc'' p post) (drop i pre @ ''0xc'' @ h @ post @ rest) = []" if "i < length pre" for i
  proof (rule match_at_between_none)
    let ?s = "drop i pre @ ''0xc'' @ h @ post @ rest"
    have "?s ! 1 \<noteq> CHR ''x''"
    proof (cases "length (drop i pre) > 1")
      case True
      then show ?thesis using assms(3) by (metis in_set_dropD nth_append nth_mem)
    next
      case False
      then have "length (drop i pre) = 1" using that by auto
      then show ?thesis by (simp add: nth_append)
    qed
    moreover have "take (length ''0xc'') ?s ! 1 = ?s ! 1" by (rule nth_take) simp
    moreover have "''0xc'' ! 1 = CHR ''x''" by simp
    ultimately show "take (length ''0xc'') ?s \<noteq> ''0xc''" by metis
  qed
  have "regexec (rule_regex iface) (mark_rule pre h (iface @ rest)) = Some (length pre + 3, length pre + 3 + length h)"
    unfolding regexec_def rx line using regexec_from_skip[of "between ''0xc'' p post" pre "''0xc'' @ h @ post @ rest" 0] skip regexec_from_single[OF at]
    by (simp add: between_def)
  moreover have "group_text (pre @ ''0xc'' @ h @ post @ rest) (length pre + 3, length pre + 3 + length h) = h"
    by (simp add: group_text_def numeral_3_eq_3)
  ultimately show ?thesis unfolding line by blast
qed

text \<open>Commands that succeed: nothing to delete from the firewall, and a rule of another interface as the first one with a mark.\<close>

definition quiet_shell :: "shell \<Rightarrow> string \<Rightarrow> bool" where
  "quiet_shell sh rule \<longleftrightarrow> ndc_ok sh \<and> (\<forall>tr t. qs_system sh tr t = 0) \<and>
     (\<forall>tr. qs_popen sh tr ''iptables-save'' = Inr ([], 0) \<and> qs_popen sh tr ''ip6tables-save'' = Inr ([], 0) \<and>
       (\<exists>ls e. qs_popen sh tr ''ip rule show'' = Inr (rule # ls, e)))"

text \<open>C38. Taking an interface down destroys the network of any interface whose name begins with its name: the expression that
  looks for the number of the network has no anchor behind the name. Where the first rule with a mark is that of such an
  interface, the network of that rule is the one that is destroyed.\<close>

theorem del_if_destroys_prefix:
  assumes "plain iface" "hex_digits h" "CHR ''x'' \<notin> set pre" "NUL \<notin> set (mark_rule pre h (iface @ rest))"
    and "quiet_shell sh (mark_rule pre h (iface @ rest))"
  shows "del_if sh iface s = (Inr (), ran [System (''ip link del '' @ iface), Popen ''iptables-save'', Popen ''ip6tables-save'', Popen ''ip rule show'',
    Popen (''ndc '' @ ''network destroy '' @ dec (fst (strtoul 64 16 h)))] s)"
proof -
  let ?rule = "mark_rule pre h (iface @ rest)"
  have c: "cmd sh t s = (Inr (), ran [System t] s)" for t s
    using assms(5) by (simp add: quiet_shell_def cmd_def ran_def Let_def)
  have d: "delete_rules sh tool iface s = (Inr (), ran [Popen (tool @ ''-save'')] s)" if "tool = ''iptables'' \<or> tool = ''ip6tables''" for tool s
    using that assms(5) by (auto simp: quiet_shell_def delete_rules_def for_lines_def returns_def ran_def)
  have cs: "cstr ?rule = ?rule" using assms(4) unfolding cstr_def by (auto simp: takeWhile_eq_all_conv)
  obtain m where m: "regexec (rule_regex iface) ?rule = Some m" "group_text ?rule m = h" using rule_regex_group[OF assms(1-3)] by blast
  have f: "find_netid sh iface s = (Inr (Some h), ran [Popen ''ip rule show''] s)" for s
  proof -
    obtain ls e where "qs_popen sh (q_trace s) ''ip rule show'' = Inr (?rule # ls, e)" using assms(5) unfolding quiet_shell_def by blast
    then show ?thesis unfolding find_netid_def for_lines_def by (simp add: cs m andthen_def returns_def ran_def)
  qed
  have n: "cndc sh t s = (Inr (), ran [Popen (''ndc '' @ t)] s)" for t s using cndc_ok assms(5) unfolding quiet_shell_def by blast
  have e: "''iptables'' @ ''-save'' = ''iptables-save''" "''ip6tables'' @ ''-save'' = ''ip6tables-save''" by simp_all
  show ?thesis unfolding del_if_def by (simp add: andthen_def returns_def c d f n)
qed

definition rule_shell :: shell where
  "rule_shell = sample_shell\<lparr> qs_system := (\<lambda>_ _. 0), qs_popen := (\<lambda>_ t.
     if t = ''iptables-save'' \<or> t = ''ip6tables-save'' then Inr ([], 0)
     else if t = ''ip rule show'' then Inr ([mark_rule ''12000: from all fwmark '' ''0065'' (''wg1'' @ ''0'')], 0)
     else Inr ([''200 0 ok''], 0)) \<rparr>"

theorem del_if_destroys_prefix_witness:
  "mark_rule ''12000: from all fwmark '' ''0065'' (''wg1'' @ ''0'') = ''12000: from all fwmark 0xc0065/0xcffff lookup wg10'' \<and>
   Popen (''ndc '' @ ''network destroy '' @ dec 101) \<in> set (q_trace (snd (del_if rule_shell ''wg1'' fresh_quick)))"
proof -
  have a: "atoi (cstr ''200 0 ok'') = 200" by code_simp
  have "ndc_ok rule_shell" unfolding ndc_ok_def
    by (intro allI exI[of _ "''200 0 ok''"] exI[of _ "[]"] exI[of _ 0]) (simp add: a rule_shell_def)
  then have q: "quiet_shell rule_shell (mark_rule ''12000: from all fwmark '' ''0065'' (''wg1'' @ ''0''))"
    unfolding quiet_shell_def by (simp add: rule_shell_def)
  have p: "plain ''wg1''" "hex_digits ''0065''" "CHR ''x'' \<notin> set ''12000: from all fwmark ''"
    "NUL \<notin> set (mark_rule ''12000: from all fwmark '' ''0065'' (''wg1'' @ ''0''))"
    by (simp_all add: plain_def hex_digits_def mark_rule_def)
  have "strtoul 64 16 ''0065'' = (101, [])" by (simp add: strtoul_def digit_val_def numval_def)
  then show ?thesis using del_if_destroys_prefix[OF p q, of fresh_quick] by (simp add: mark_rule_def ran_def)
qed


section \<open>Quoting\<close>

text \<open>The characters a shell finds outside single quotes.\<close>

fun unquoted :: "bool \<Rightarrow> string \<Rightarrow> string" where
  "unquoted q [] = []"
| "unquoted q (c # cs) = (if c = quote then unquoted (\<not> q) cs else if q then unquoted q cs else c # unquoted q cs)"

lemma unquoted_plain: "quote \<notin> set a \<Longrightarrow> unquoted q (a @ b) = (if q then [] else a) @ unquoted q b"
  by (induction a) auto

definition quoted :: "string \<Rightarrow> string" where
  "quoted d = [quote] @ d @ [quote] @ '' ''"

lemma unquoted_quoted: "quote \<notin> set d \<Longrightarrow> unquoted False (quoted d @ b) = '' '' @ unquoted False b"
  "quote \<notin> set d \<Longrightarrow> unquoted True (quoted d @ b) = d @ unquoted True b"
  using unquoted_plain[of d True "quote # CHR '' '' # b"] unquoted_plain[of d False "quote # CHR '' '' # b"] by (simp_all add: quoted_def)

lemma unquoted_list:
  "\<forall>d \<in> set ds. quote \<notin> set d \<Longrightarrow> unquoted False (concat (map quoted ds) @ b) = replicate (length ds) (CHR '' '') @ unquoted False b"
  "\<forall>d \<in> set ds. quote \<notin> set d \<Longrightarrow> unquoted True (concat (map quoted ds) @ b) = concat ds @ unquoted True b"
  by (induction ds) (simp_all add: unquoted_quoted)

lemma strtok_tokens_length: "sum_list (map length (strtok_tokens delims s)) \<le> length s"
proof (induction delims s rule: strtok_tokens.induct)
  case (1 delims s)
  show ?case
  proof (cases "dropWhile (is_delim delims) s")
    case Nil
    have "strtok_tokens delims s = []" by (subst strtok_tokens.simps) (simp only: Nil list.case)
    then show ?thesis by simp
  next
    case (Cons c cs)
    have c: "\<not> is_delim delims c" using Cons by (metis hd_dropWhile list.sel(1) list.distinct(1))
    have t: "strtok_tokens delims s = takeWhile (\<lambda>x. \<not> is_delim delims x) (c # cs) # strtok_tokens delims (dropWhile (\<lambda>x. \<not> is_delim delims x) cs)"
      by (subst strtok_tokens.simps) (simp only: Cons list.case)
    have "length (c # cs) \<le> length s" using Cons length_dropWhile_le by metis
    moreover have "length cs = length (takeWhile (\<lambda>x. \<not> is_delim delims x) cs) + length (dropWhile (\<lambda>x. \<not> is_delim delims x) cs)"
      by (metis length_append takeWhile_dropWhile_id)
    ultimately show ?thesis using 1[OF Cons] c unfolding t by simp
  qed
qed

text \<open>The lists of servers and of domains: every element is quoted; only the blank behind the last one is lost when the list is one
  name without a separator.\<close>

definition dns_texts :: "string list \<Rightarrow> dns_lists \<Rightarrow> dns_lists \<Rightarrow> bool" where
  "dns_texts ts l0 l \<longleftrightarrow> dns_shell l = dns_shell l0 @ concat (map quoted (filter is_ip ts)) \<and>
     dns_search_shell l = dns_search_shell l0 @ concat (map quoted (filter (\<lambda>d. \<not> is_ip d) ts))"

lemma dns_fold_texts: "0 < len \<Longrightarrow> \<forall>d \<in> set ts. length d < len \<Longrightarrow> dns_texts ts l (fold (dns_step len) ts l)"
proof (induction ts arbitrary: l)
  case (Cons d ts)
  have "length (quoted d) \<le> len + 2" "length (quoted d) \<le> len * 4 - 1" using Cons.prems by (auto simp: quoted_def)
  then have "take (len * 4 - 1) (take (len + 2) (quoted d)) = quoted d" by (simp only: take_all)
  then have "dns_texts [d] l (dns_step len d l)" by (simp add: dns_texts_def dns_step_def Let_def strncat_def quoted_def)
  moreover have "dns_texts ts (dns_step len d l) (fold (dns_step len) ts (dns_step len d l))" using Cons by simp
  ultimately show ?case by (simp add: dns_texts_def)
qed (simp add: dns_texts_def)

lemma dns_collect_texts:
  assumes "ts = filter quotable (strtok_tokens list_delims t)" "filter is_ip ts \<noteq> []"
  shows "dns_texts ts no_dns (dns_collect t) \<or> dns_search_shell (dns_collect t) = [] \<and> filter (\<lambda>d. \<not> is_ip d) ts = [] \<and>
    (\<exists>d. ts = [d] \<and> dns_shell (dns_collect t) = [quote] @ d @ [quote])"
proof (cases "\<forall>d \<in> set ts. length d < length t")
  case True
  have "t \<noteq> []" using True assms by (cases ts) auto
  then show ?thesis using dns_fold_texts[OF _ True, of no_dns] unfolding dns_collect_def assms(1) by simp
next
  case False
  then obtain d where d: "d \<in> set (strtok_tokens list_delims t)" "d \<in> set ts" "length t \<le> length d" using assms(1) by (auto simp: not_less)
  obtain xs ys where x: "strtok_tokens list_delims t = xs @ d # ys" using split_list[OF d(1)] by blast
  have len: "sum_list (map length xs) + length d + sum_list (map length ys) \<le> length t" using strtok_tokens_length[of list_delims t] unfolding x by simp
  have ne: "e \<noteq> []" if "e \<in> set (xs @ d # ys)" for e using strtok_tokens_clean[of e list_delims t] that unfolding x by blast
  have "sum_list (map length xs) = 0" "sum_list (map length ys) = 0" "length d = length t" using len d(3) by linarith+
  moreover have "zs = []" if "sum_list (map length zs) = 0" "\<forall>e \<in> set zs. e \<noteq> []" for zs :: "string list" using that by (cases zs) auto
  ultimately have e: "xs = []" "ys = []" "length d = length t" using ne by auto
  then have ts: "ts = [d]" "is_ip d" using d(2) assms x by (auto split: if_splits)
  have "0 < length t" using e ne[of d] by (simp flip: e(3))
  then have "length t + 2 \<le> length t * 4 - 1" by linarith
  then have "take (length t * 4 - 1) (take (length t + 2) ([quote] @ d @ [quote] @ '' '')) = [quote] @ d @ [quote]" using e(3) by simp
  then have "dns_shell (dns_collect t) = [quote] @ d @ [quote]" "dns_search_shell (dns_collect t) = []"
    unfolding dns_collect_def assms(1)[symmetric] ts(1) using ts(2) by (simp_all add: dns_step_def no_dns_def strncat_def Let_def del: append.simps take_append)
  then show ?thesis using ts by simp
qed

text \<open>C39. In the command that sets the name servers the servers stand in quotes but the search domains do not: the quotes around the
  whole list and those around each domain cancel out, so that the shell reads the characters of every domain that has no
  quote and no backslash as if they were typed.\<close>

theorem set_dnses_unquoted:
  assumes "ndc_ok sh" "dnsresolver_get_handle sh = None" "length t \<le> 65536"
    and "ts = filter quotable (strtok_tokens list_delims t)" "filter is_ip ts \<noteq> []"
  shows "\<exists>text k. set_dnses sh n (Some t) s = (Inr (), ran [Popen text] s) \<and>
    unquoted False text = ''ndc resolver setnetdns '' @ dec (unat n) @ '' '' @ concat (filter (\<lambda>d. \<not> is_ip d) ts) @ '' '' @ replicate k (CHR '' '')"
proof -
  let ?l = "dns_collect t" and ?ds = "filter (\<lambda>d. \<not> is_ip d) ts"
  define tail where "tail = [quote] @ dns_search_shell ?l @ [quote] @ '' '' @ dns_shell ?l"
  define body where "body = ''ndc '' @ ''resolver setnetdns '' @ dec (unat n) @ '' '' @ tail"
  have "t \<noteq> []" using assms(4,5) by (auto simp: strtok_tokens.simps[of _ "[]"])
  then have run: "set_dnses sh n (Some t) s = (Inr (), ran [Popen body] s)"
    unfolding set_dnses_def option.case assms(2,4)[symmetric] Let_def using assms(2,3,5) cndc_ok[OF assms(1)] by (simp add: body_def tail_def del: append.simps)
  have ts: "\<forall>d \<in> set ts. quote \<notin> set d" unfolding assms(4) by (auto simp: quotable_def strchr_None)
  have "quote \<notin> set (dec (unat n))" using dec_is_digit by fastforce
  then have pre: "unquoted False body = ''ndc resolver setnetdns '' @ dec (unat n) @ '' '' @ unquoted False tail"
    unfolding body_def by (simp add: unquoted_plain)
  have "\<exists>k. unquoted False tail = concat ?ds @ '' '' @ replicate k (CHR '' '')"
  proof -
    consider "dns_texts ts no_dns ?l" | d where "dns_search_shell ?l = []" "?ds = []" "ts = [d]" "dns_shell ?l = [quote] @ d @ [quote]"
      using dns_collect_texts[OF assms(4,5)] by blast
    then show ?thesis
    proof cases
      case 1
      then have t: "tail = [quote] @ concat (map quoted ?ds) @ [quote] @ '' '' @ concat (map quoted (filter is_ip ts)) @ []"
        unfolding tail_def dns_texts_def by (simp add: no_dns_def)
      have "unquoted False tail = concat ?ds @ '' '' @ unquoted False (concat (map quoted (filter is_ip ts)) @ [])"
        unfolding t using unquoted_list(2)[of ?ds] ts by simp
      also have "unquoted False (concat (map quoted (filter is_ip ts)) @ []) = replicate (length (filter is_ip ts)) (CHR '' '')"
        using unquoted_list(1)[of "filter is_ip ts" "[]"] ts by simp
      finally show ?thesis by blast
    next
      case 2
      have "quote \<notin> set d" using ts 2(3) by simp
      then have "unquoted False tail = '' ''" unfolding tail_def 2(1,4) using unquoted_plain[of d True "[quote]"] by simp
      then show ?thesis using 2(2) by (intro exI[of _ 0]) simp
    qed
  qed
  then show ?thesis using run pre by (metis append.assoc)
qed

definition dns_shell_sample :: shell where
  "dns_shell_sample = sample_shell\<lparr> qs_popen := (\<lambda>_ _. Inr ([''200 0 ok''], 0)), qs_resolver := None \<rparr>"

theorem set_dnses_unquoted_witness:
  "\<exists>text k. set_dnses dns_shell_sample 7 (Some ''1.1.1.1,$(id)'') fresh_quick = (Inr (), ran [Popen text] fresh_quick) \<and>
     unquoted False text = ''ndc resolver setnetdns '' @ ''7'' @ '' '' @ ''$(id)'' @ '' '' @ replicate k (CHR '' '')"
proof -
  have a: "atoi (cstr ''200 0 ok'') = 200" by code_simp
  have n: "ndc_ok dns_shell_sample" unfolding ndc_ok_def
    by (intro allI exI[of _ "''200 0 ok''"] exI[of _ "[]"] exI[of _ 0]) (simp add: a dns_shell_sample_def)
  have h: "dnsresolver_get_handle dns_shell_sample = None" by (simp add: dnsresolver_get_handle_def dns_shell_sample_def)
  have ts: "[''1.1.1.1'', ''$(id)''] = filter quotable (strtok_tokens list_delims ''1.1.1.1,$(id)'')" by code_simp
  have f: "filter is_ip [''1.1.1.1'', ''$(id)''] = [''1.1.1.1'']" "filter (\<lambda>d. \<not> is_ip d) [''1.1.1.1'', ''$(id)''] = [''$(id)'']" by code_simp+
  have "length ''1.1.1.1,$(id)'' \<le> 65536" "filter is_ip [''1.1.1.1'', ''$(id)''] \<noteq> []" unfolding f by simp_all
  moreover have "dec (unat (7 :: u32)) = ''7''" by code_simp
  ultimately show ?thesis using set_dnses_unquoted[OF n h _ ts, of 7 fresh_quick] unfolding f by (simp del: append.simps)
qed

end
