(* ===== verification/Netlink.thy ===== *)
theory Netlink
  imports Uapi
begin

text \<open>
  Model of \<^verbatim>\<open>wireguard-tools/src/netlink.h\<close>, a small libmnl: building a message of attributes in a buffer, walking over the attributes of
  a received message, and the callbacks of a receive loop. Byte order is that of the Android ABIs, the little-endian one. A write
  or a read outside the buffer is the value \<open>None\<close>, which also stands for a loop that does not end.
\<close>

section \<open>Numbers in memory\<close>

fun le_bytes :: "nat \<Rightarrow> nat \<Rightarrow> u8 list" where
  "le_bytes 0 v = []"
| "le_bytes (Suc n) v = of_nat v # le_bytes n (v div 256)"

fun le_num :: "u8 list \<Rightarrow> nat" where
  "le_num [] = 0"
| "le_num (b # bs) = unat b + 256 * le_num bs"

definition be_bytes :: "nat \<Rightarrow> nat \<Rightarrow> u8 list" where
  "be_bytes n v = rev (le_bytes n v)"

definition be_num :: "u8 list \<Rightarrow> nat" where
  "be_num bs = le_num (rev bs)"

definition load :: "nat \<Rightarrow> u8 list \<Rightarrow> nat \<Rightarrow> nat option" where
  "load n m p = (if p + n \<le> length m then Some (le_num (take n (drop p m))) else None)"

definition store :: "nat \<Rightarrow> u8 list \<Rightarrow> u8 list \<Rightarrow> u8 list option" where
  "store p bs m = (if p + length bs \<le> length m then Some (take p m @ bs @ drop (p + length bs) m) else None)"

definition MNL_ALIGN :: "nat \<Rightarrow> nat" where
  "MNL_ALIGN n = (n + 3) div 4 * 4"

abbreviation MNL_NLMSG_HDRLEN :: nat where "MNL_NLMSG_HDRLEN \<equiv> 16"
abbreviation MNL_ATTR_HDRLEN :: nat where "MNL_ATTR_HDRLEN \<equiv> 4"
abbreviation MNL_CB_ERROR :: int where "MNL_CB_ERROR \<equiv> - 1"
abbreviation MNL_CB_STOP :: int where "MNL_CB_STOP \<equiv> 0"
abbreviation MNL_CB_OK :: int where "MNL_CB_OK \<equiv> 1"

definition EBADMSG :: int where "EBADMSG = 74"
definition EOPNOTSUPP :: int where "EOPNOTSUPP = 95"
definition ERANGE :: int where "ERANGE = 34"
definition EINTR :: int where "EINTR = 4"
definition ENOSPC :: int where "ENOSPC = 28"
definition EPROTONOSUPPORT :: int where "EPROTONOSUPPORT = 93"

definition mnl_ideal_socket_buffer_size :: "nat \<Rightarrow> nat" where
  "mnl_ideal_socket_buffer_size pagesize = (if pagesize > 8192 then 8192 else pagesize)"


section \<open>Writing a message\<close>

text \<open>\<^verbatim>\<open>struct nlmsghdr\<close> and the memory of the buffer behind it; positions count from the header.\<close>

record nlmsghdr =
  nlmsg_len :: u32
  nlmsg_type :: u16
  nlmsg_flags :: u16
  nlmsg_seq :: u32
  nlmsg_pid :: u32
  nlmsg_mem :: "u8 list"

definition hdr_bytes :: "nlmsghdr \<Rightarrow> u8 list" where
  "hdr_bytes h = le_bytes 4 (unat (nlmsg_len h)) @ le_bytes 2 (unat (nlmsg_type h)) @ le_bytes 2 (unat (nlmsg_flags h)) @
     le_bytes 4 (unat (nlmsg_seq h)) @ le_bytes 4 (unat (nlmsg_pid h))"

definition mnl_nlmsg_size :: "nat \<Rightarrow> nat" where
  "mnl_nlmsg_size len = len + MNL_NLMSG_HDRLEN"

definition poke :: "nlmsghdr \<Rightarrow> nat \<Rightarrow> u8 list \<Rightarrow> nlmsghdr option" where
  "poke h p bs = map_option (\<lambda>m. h\<lparr> nlmsg_mem := m \<rparr>) (store (p - MNL_NLMSG_HDRLEN) bs (nlmsg_mem h))"

definition mnl_nlmsg_put_header :: "u8 list \<Rightarrow> nlmsghdr option" where
  "mnl_nlmsg_put_header buf =
     (if length buf < MNL_NLMSG_HDRLEN then None
      else Some \<lparr> nlmsg_len = of_nat MNL_NLMSG_HDRLEN, nlmsg_type = 0, nlmsg_flags = 0, nlmsg_seq = 0, nlmsg_pid = 0,
                  nlmsg_mem = drop MNL_NLMSG_HDRLEN buf \<rparr>)"

text \<open>The position of the extra header, and the message.\<close>

definition mnl_nlmsg_put_extra_header :: "nlmsghdr \<Rightarrow> nat \<Rightarrow> (nat \<times> nlmsghdr) option" where
  "mnl_nlmsg_put_extra_header h extra =
     (let p = unat (nlmsg_len h); len = MNL_ALIGN extra
      in map_option (\<lambda>h'. (p, h'\<lparr> nlmsg_len := nlmsg_len h + of_nat len \<rparr>)) (poke h p (replicate len 0)))"

definition mnl_nlmsg_get_payload_tail :: "nlmsghdr \<Rightarrow> nat" where
  "mnl_nlmsg_get_payload_tail h = MNL_ALIGN (unat (nlmsg_len h)) mod 2 ^ 32"

definition mnl_attr_put :: "nlmsghdr \<Rightarrow> u16 \<Rightarrow> u8 list \<Rightarrow> nlmsghdr option" where
  "mnl_attr_put h type dat =
     (let attr = mnl_nlmsg_get_payload_tail h;
          payload_len = (of_nat (MNL_ALIGN 4 + length dat) :: u16);
          pad = MNL_ALIGN (length dat) - length dat
      in do {
        h \<leftarrow> poke h attr (le_bytes 2 (unat payload_len) @ le_bytes 2 (unat type));
        h \<leftarrow> poke h (attr + MNL_ATTR_HDRLEN) dat;
        let h = h\<lparr> nlmsg_len := nlmsg_len h + of_nat (MNL_ALIGN (unat payload_len)) \<rparr>;
        if pad > 0 then poke h (attr + MNL_ATTR_HDRLEN + length dat) (replicate pad 0) else Some h
      })"

definition mnl_attr_put_u16 :: "nlmsghdr \<Rightarrow> u16 \<Rightarrow> u16 \<Rightarrow> nlmsghdr option" where
  "mnl_attr_put_u16 h type d = mnl_attr_put h type (le_bytes 2 (unat d))"

definition mnl_attr_put_u32 :: "nlmsghdr \<Rightarrow> u16 \<Rightarrow> u32 \<Rightarrow> nlmsghdr option" where
  "mnl_attr_put_u32 h type d = mnl_attr_put h type (le_bytes 4 (unat d))"

definition str_bytes :: "string \<Rightarrow> u8 list" where
  "str_bytes s = map (\<lambda>c. of_nat (code c)) s"

definition mnl_attr_put_strz :: "nlmsghdr \<Rightarrow> u16 \<Rightarrow> string \<Rightarrow> nlmsghdr option" where
  "mnl_attr_put_strz h type s = mnl_attr_put h type (str_bytes s @ [0])"

definition NLA_F_NESTED :: u16 where "NLA_F_NESTED = 0x8000"

text \<open>Only the type is written; the length comes with the end of the nest.\<close>

definition mnl_attr_nest_start :: "nlmsghdr \<Rightarrow> u16 \<Rightarrow> (nat \<times> nlmsghdr) option" where
  "mnl_attr_nest_start h type =
     (let start = mnl_nlmsg_get_payload_tail h
      in map_option (\<lambda>h'. (start, h'\<lparr> nlmsg_len := nlmsg_len h + of_nat (MNL_ALIGN 4) \<rparr>))
           (poke h (start + 2) (le_bytes 2 (unat (NLA_F_NESTED OR type)))))"

definition mnl_attr_put_check :: "nlmsghdr \<Rightarrow> nat \<Rightarrow> u16 \<Rightarrow> u8 list \<Rightarrow> (bool \<times> nlmsghdr) option" where
  "mnl_attr_put_check h buflen type dat =
     (if unat (nlmsg_len h) + MNL_ATTR_HDRLEN + MNL_ALIGN (length dat) > buflen then Some (False, h)
      else map_option (Pair True) (mnl_attr_put h type dat))"

definition mnl_attr_put_u8_check :: "nlmsghdr \<Rightarrow> nat \<Rightarrow> u16 \<Rightarrow> u8 \<Rightarrow> (bool \<times> nlmsghdr) option" where
  "mnl_attr_put_u8_check h buflen type d = mnl_attr_put_check h buflen type (le_bytes 1 (unat d))"

definition mnl_attr_put_u16_check :: "nlmsghdr \<Rightarrow> nat \<Rightarrow> u16 \<Rightarrow> u16 \<Rightarrow> (bool \<times> nlmsghdr) option" where
  "mnl_attr_put_u16_check h buflen type d = mnl_attr_put_check h buflen type (le_bytes 2 (unat d))"

definition mnl_attr_put_u32_check :: "nlmsghdr \<Rightarrow> nat \<Rightarrow> u16 \<Rightarrow> u32 \<Rightarrow> (bool \<times> nlmsghdr) option" where
  "mnl_attr_put_u32_check h buflen type d = mnl_attr_put_check h buflen type (le_bytes 4 (unat d))"

text \<open>The position of the nest is None for a null pointer.\<close>

definition mnl_attr_nest_start_check :: "nlmsghdr \<Rightarrow> nat \<Rightarrow> u16 \<Rightarrow> (nat option \<times> nlmsghdr) option" where
  "mnl_attr_nest_start_check h buflen type =
     (if unat (nlmsg_len h) + MNL_ATTR_HDRLEN > buflen then Some (None, h)
      else map_option (\<lambda>(p, h'). (Some p, h')) (mnl_attr_nest_start h type))"

definition mnl_attr_nest_end :: "nlmsghdr \<Rightarrow> nat \<Rightarrow> nlmsghdr option" where
  "mnl_attr_nest_end h start = poke h start (le_bytes 2 (unat (of_nat (mnl_nlmsg_get_payload_tail h - start) :: u16)))"

definition mnl_attr_nest_cancel :: "nlmsghdr \<Rightarrow> nat \<Rightarrow> nlmsghdr" where
  "mnl_attr_nest_cancel h start = h\<lparr> nlmsg_len := nlmsg_len h - of_nat (mnl_nlmsg_get_payload_tail h - start) \<rparr>"


section \<open>Reading attributes\<close>

text \<open>\<^verbatim>\<open>struct nlattr\<close> with its payload and the memory behind it, which a string without terminator reaches into.\<close>

record nlattr =
  nla_type :: u16
  nla_data :: "u8 list"
  nla_behind :: "u8 list"

definition mnl_attr_get_type :: "nlattr \<Rightarrow> nat" where
  "mnl_attr_get_type a = unat (nla_type a AND 0x3FFF)"

definition mnl_attr_get_payload_len :: "nlattr \<Rightarrow> nat" where
  "mnl_attr_get_payload_len a = length (nla_data a)"

definition mnl_attr_get_num :: "nat \<Rightarrow> nlattr \<Rightarrow> nat option" where
  "mnl_attr_get_num n a = load n (nla_data a @ nla_behind a) 0"

definition mnl_attr_get_str :: "nlattr \<Rightarrow> string option" where
  "mnl_attr_get_str a =
     (let m = nla_data a @ nla_behind a
      in if 0 \<in> set m then Some (map (\<lambda>b. char_of (unat b)) (takeWhile (\<lambda>b. b \<noteq> 0) m)) else None)"

text \<open>The attribute at a position, when \<^verbatim>\<open>mnl_attr_ok\<close> holds for it: its header and its length must lie in front of the tail.\<close>

definition mnl_attr_ok :: "u8 list \<Rightarrow> nat \<Rightarrow> nat \<Rightarrow> bool option" where
  "mnl_attr_ok m p tail =
     (if tail < p + 4 then Some False
      else map_option (\<lambda>l. 4 \<le> l \<and> p + l \<le> tail) (load 2 m p))"

definition attr_at :: "u8 list \<Rightarrow> nat \<Rightarrow> nlattr option" where
  "attr_at m p = do {
     l \<leftarrow> load 2 m p;
     t \<leftarrow> load 2 m (p + 2);
     if p + l \<le> length m then Some \<lparr> nla_type = of_nat t, nla_data = take (l - 4) (drop (p + 4) m), nla_behind = drop (p + l) m \<rparr> else None
   }"

text \<open>\<^verbatim>\<open>mnl_attr_for_each\<close> with a callback, which gets the errno and the data and returns both with its result.\<close>

type_synonym 'd attr_cb = "nlattr \<Rightarrow> int \<times> 'd \<Rightarrow> (int \<times> int \<times> 'd) option"

lemma align_ge: "n \<le> MNL_ALIGN n"
  unfolding MNL_ALIGN_def by presburger

lemma align_pos: "0 < MNL_ALIGN (4 + n)"
  unfolding MNL_ALIGN_def by presburger

function attr_loop :: "'d attr_cb \<Rightarrow> u8 list \<Rightarrow> nat \<Rightarrow> nat \<Rightarrow> int \<Rightarrow> int \<times> 'd \<Rightarrow> (int \<times> int \<times> 'd) option" where
  "attr_loop cb m p tail ret d =
     (case mnl_attr_ok m p tail of
        None \<Rightarrow> None
      | Some False \<Rightarrow> Some (ret, d)
      | Some True \<Rightarrow>
          (case attr_at m p of
             None \<Rightarrow> None
           | Some a \<Rightarrow>
               (case cb a d of
                  None \<Rightarrow> None
                | Some (r, d') \<Rightarrow>
                    if r \<le> MNL_CB_STOP then Some (r, d') else attr_loop cb m (p + MNL_ALIGN (4 + length (nla_data a))) tail r d')))"
  by pat_completeness auto
termination
  by (relation "measure (\<lambda>(cb, m, p, tail, ret, d). tail - p)")
    (auto simp: mnl_attr_ok_def align_pos split: if_splits intro!: diff_less_mono2)

declare attr_loop.simps [simp del]

definition mnl_attr_parse_nested :: "nlattr \<Rightarrow> 'd attr_cb \<Rightarrow> int \<times> 'd \<Rightarrow> (int \<times> int \<times> 'd) option" where
  "mnl_attr_parse_nested a cb d = attr_loop cb (nla_data a @ nla_behind a) 0 (length (nla_data a)) MNL_CB_OK d"

text \<open>\<^verbatim>\<open>mnl_attr_validate\<close>: whether it returns 0, and the errno.\<close>

datatype mnl_attr_data_type = MNL_TYPE_UNSPEC | MNL_TYPE_U8 | MNL_TYPE_U16 | MNL_TYPE_U32 | MNL_TYPE_U64 | MNL_TYPE_STRING | MNL_TYPE_FLAG
  | MNL_TYPE_MSECS | MNL_TYPE_NESTED | MNL_TYPE_NESTED_COMPAT | MNL_TYPE_NUL_STRING | MNL_TYPE_BINARY

definition mnl_attr_data_type_len :: "mnl_attr_data_type \<Rightarrow> nat" where
  "mnl_attr_data_type_len t =
     (case t of MNL_TYPE_U8 \<Rightarrow> 1 | MNL_TYPE_U16 \<Rightarrow> 2 | MNL_TYPE_U32 \<Rightarrow> 4 | MNL_TYPE_U64 \<Rightarrow> 8 | MNL_TYPE_MSECS \<Rightarrow> 8 | _ \<Rightarrow> 0)"

definition mnl_attr_check :: "nlattr \<Rightarrow> mnl_attr_data_type \<Rightarrow> nat \<Rightarrow> int option" where
  "mnl_attr_check a t exp_len =
     (let attr_len = mnl_attr_get_payload_len a;
          late = (if exp_len \<noteq> 0 \<and> attr_len > exp_len then Some ERANGE else None)
      in if attr_len < exp_len then Some ERANGE
         else case t of
           MNL_TYPE_FLAG \<Rightarrow> if attr_len > 0 then Some ERANGE else late
         | MNL_TYPE_NUL_STRING \<Rightarrow> if attr_len = 0 then Some ERANGE else if last (nla_data a) \<noteq> 0 then Some EINVAL else late
         | MNL_TYPE_STRING \<Rightarrow> if attr_len = 0 then Some ERANGE else late
         | MNL_TYPE_NESTED \<Rightarrow> if attr_len = 0 then late else if attr_len < MNL_ATTR_HDRLEN then Some ERANGE else late
         | _ \<Rightarrow> late)"

definition mnl_attr_validate :: "nlattr \<Rightarrow> mnl_attr_data_type \<Rightarrow> int \<Rightarrow> bool \<times> int" where
  "mnl_attr_validate a t errno =
     (case mnl_attr_check a t (mnl_attr_data_type_len t) of Some e \<Rightarrow> (False, e) | None \<Rightarrow> (True, errno))"

definition mnl_attr_type_valid :: "nlattr \<Rightarrow> nat \<Rightarrow> int \<Rightarrow> bool \<times> int" where
  "mnl_attr_type_valid a max_type errno = (if mnl_attr_get_type a > max_type then (False, EOPNOTSUPP) else (True, errno))"


section \<open>Receiving messages\<close>

text \<open>A message in the receive buffer: the header at a position, and the buffer.\<close>

record nlmsg =
  m_len :: u32
  m_type :: u16
  m_flags :: u16
  m_seq :: u32
  m_pid :: u32
  m_pos :: nat
  m_buf :: "u8 list"

type_synonym 'd msg_cb = "nlmsg \<Rightarrow> int \<times> 'd \<Rightarrow> (int \<times> int \<times> 'd) option"

definition msg_at :: "u8 list \<Rightarrow> nat \<Rightarrow> nlmsg option" where
  "msg_at m p = do {
     l \<leftarrow> load 4 m p; t \<leftarrow> load 2 m (p + 4); f \<leftarrow> load 2 m (p + 6); s \<leftarrow> load 4 m (p + 8); i \<leftarrow> load 4 m (p + 12);
     Some \<lparr> m_len = of_nat l, m_type = of_nat t, m_flags = of_nat f, m_seq = of_nat s, m_pid = of_nat i, m_pos = p, m_buf = m \<rparr>
   }"

definition mnl_attr_parse :: "nlmsg \<Rightarrow> nat \<Rightarrow> 'd attr_cb \<Rightarrow> int \<times> 'd \<Rightarrow> (int \<times> int \<times> 'd) option" where
  "mnl_attr_parse msg offset cb d =
     attr_loop cb (m_buf msg) (m_pos msg + MNL_NLMSG_HDRLEN + MNL_ALIGN offset) (m_pos msg + MNL_ALIGN (unat (m_len msg)) mod 2 ^ 32) MNL_CB_OK d"

definition mnl_nlmsg_ok :: "u32 \<Rightarrow> int \<Rightarrow> bool" where
  "mnl_nlmsg_ok l len \<longleftrightarrow> unat l \<ge> 16 \<and> sint l \<le> len"

definition mnl_nlmsg_portid_ok :: "nlmsg \<Rightarrow> u32 \<Rightarrow> bool" where
  "mnl_nlmsg_portid_ok msg portid \<longleftrightarrow> (if m_pid msg \<noteq> 0 \<and> portid \<noteq> 0 then m_pid msg = portid else True)"

definition mnl_nlmsg_seq_ok :: "nlmsg \<Rightarrow> u32 \<Rightarrow> bool" where
  "mnl_nlmsg_seq_ok msg sq \<longleftrightarrow> (if m_seq msg \<noteq> 0 \<and> sq \<noteq> 0 then m_seq msg = sq else True)"

definition NLM_F_MULTI :: u16 where "NLM_F_MULTI = 2"
definition NLM_F_DUMP_INTR :: u16 where "NLM_F_DUMP_INTR = 0x10"

abbreviation NLMSG_NOOP :: nat where "NLMSG_NOOP \<equiv> 1"
abbreviation NLMSG_ERROR :: nat where "NLMSG_ERROR \<equiv> 2"
abbreviation NLMSG_DONE :: nat where "NLMSG_DONE \<equiv> 3"
abbreviation NLMSG_OVERRUN :: nat where "NLMSG_OVERRUN \<equiv> 4"
abbreviation NLMSG_MIN_TYPE :: nat where "NLMSG_MIN_TYPE \<equiv> 16"

text \<open>A signed number at the start of the payload, as an errno and a result.\<close>

definition error_result :: "nlmsg \<Rightarrow> int \<times> 'd \<Rightarrow> (int \<times> int \<times> 'd) option" where
  "error_result msg d =
     map_option (\<lambda>n. let e = sint (of_nat n :: u32) in (if e = 0 then MNL_CB_STOP else MNL_CB_ERROR, \<bar>e\<bar>, snd d))
       (load 4 (m_buf msg) (m_pos msg + MNL_NLMSG_HDRLEN))"

definition mnl_cb_noop :: "'d msg_cb" where
  "mnl_cb_noop msg d = Some (MNL_CB_OK, d)"

definition mnl_cb_error :: "'d msg_cb" where
  "mnl_cb_error msg d = (if unat (m_len msg) < mnl_nlmsg_size 20 then Some (MNL_CB_ERROR, EBADMSG, snd d) else error_result msg d)"

definition mnl_cb_stop :: "'d msg_cb" where
  "mnl_cb_stop msg d = Some (MNL_CB_STOP, d)"

definition mnlg_cb_stop :: "'d msg_cb" where
  "mnlg_cb_stop msg d =
     (if m_flags msg AND NLM_F_MULTI \<noteq> 0 \<and> unat (m_len msg) = mnl_nlmsg_size 4 then error_result msg d else Some (MNL_CB_STOP, d))"

definition default_cb_array :: "nat \<Rightarrow> 'd msg_cb option" where
  "default_cb_array t =
     (if t = NLMSG_NOOP then Some mnl_cb_noop else if t = NLMSG_ERROR then Some mnl_cb_error
      else if t = NLMSG_DONE then Some mnl_cb_stop else if t = NLMSG_OVERRUN then Some mnl_cb_noop else None)"

text \<open>An array of callbacks as its length and its elements.\<close>

definition mnlg_cb_array :: "nat \<times> (nat \<Rightarrow> 'd msg_cb option)" where
  "mnlg_cb_array = (NLMSG_OVERRUN + 1, (\<lambda>t.
     if t = NLMSG_NOOP then Some mnl_cb_noop else if t = NLMSG_ERROR then Some mnl_cb_error
     else if t = NLMSG_DONE then Some mnlg_cb_stop else if t = NLMSG_OVERRUN then Some mnl_cb_noop else None))"

definition no_cb_array :: "nat \<times> (nat \<Rightarrow> 'd msg_cb option)" where
  "no_cb_array = (0, \<lambda>_. None)"

text \<open>The callback for a message, where there is one.\<close>

definition pick_cb :: "'d msg_cb option \<Rightarrow> nat \<times> (nat \<Rightarrow> 'd msg_cb option) \<Rightarrow> nat \<Rightarrow> 'd msg_cb option" where
  "pick_cb cb_data ctl t =
     (if t \<ge> NLMSG_MIN_TYPE then cb_data else if t < fst ctl then snd ctl t else default_cb_array t)"

lemma msg_at_len: "msg_at m p = Some msg \<Longrightarrow> p < length m"
  by (auto simp: msg_at_def load_def split: if_splits bind_splits)

text \<open>A length of \<^verbatim>\<open>0xfffffffd\<close> or more counts as negative and is rounded to 0, so that the loop need not end.\<close>

partial_function (option) mnl_cb_loop ::
  "u8 list \<Rightarrow> nat \<Rightarrow> int \<Rightarrow> u32 \<Rightarrow> u32 \<Rightarrow> 'd msg_cb option \<Rightarrow> nat \<times> (nat \<Rightarrow> 'd msg_cb option) \<Rightarrow> int \<Rightarrow> int \<times> 'd \<Rightarrow> (int \<times> int \<times> 'd) option" where
  "mnl_cb_loop m p len sq portid cb ctl ret d =
     (if len < 16 then Some (ret, d)
      else
        (case msg_at m p of
           None \<Rightarrow> None
         | Some msg \<Rightarrow>
             if \<not> mnl_nlmsg_ok (m_len msg) len then Some (ret, d)
             else if \<not> mnl_nlmsg_portid_ok msg portid then Some (- 1, ESRCH, snd d)
             else if \<not> mnl_nlmsg_seq_ok msg sq then Some (- 1, EPROTO, snd d)
             else if m_flags msg AND NLM_F_DUMP_INTR \<noteq> 0 then Some (- 1, EINTR, snd d)
             else
               (let step = MNL_ALIGN (unat (m_len msg)) mod 2 ^ 32; len' = sint (of_int (len - int step) :: u32)
                in case pick_cb cb ctl (unat (m_type msg)) of
                     None \<Rightarrow> mnl_cb_loop m (p + step) len' sq portid cb ctl ret d
                   | Some f \<Rightarrow>
                       (case f msg d of
                          None \<Rightarrow> None
                        | Some (r, d') \<Rightarrow>
                            if r \<le> MNL_CB_STOP then Some (r, d') else mnl_cb_loop m (p + step) len' sq portid cb ctl r d'))))"


section \<open>Sockets\<close>

text \<open>What surrounds the program: the page size, the clock, failing allocations, the errno of system calls, zero for none, what \<^verbatim>\<open>getsockname\<close>
  reports as length, family and port, the errno of a \<^verbatim>\<open>sendto\<close>, and what \<^verbatim>\<open>recvmsg\<close> delivers: a datagram, whether it
  was cut off, and the length of the address. The number of attributes of the controller depends on the kernel headers.\<close>

datatype nl_alloc = AllocSocket | AllocNlg | AllocBuffer | AllocDevice | AllocPeer "u8 list" | AllocAllowedip "u8 list"

record nl_sys =
  sys_pagesize :: nat
  sys_time :: u32
  sys_fails :: "nl_alloc \<Rightarrow> bool"
  sys_socket :: int
  sys_bind :: int
  sys_getsockname :: "int + (nat \<times> nat \<times> u32)"
  sys_sendto :: "u8 list list \<Rightarrow> int"
  sys_recvmsg :: "u8 list list \<Rightarrow> nat \<Rightarrow> int + (u8 list \<times> bool \<times> nat)"
  sys_ctrl_attr_max :: nat

text \<open>The messages sent so far and the number of datagrams received.\<close>

record nl_io =
  io_sent :: "u8 list list"
  io_received :: nat

abbreviation sockaddr_nl_size :: nat where "sockaddr_nl_size \<equiv> 12"
abbreviation AF_NETLINK :: nat where "AF_NETLINK \<equiv> 16"

definition SOCKET_BUFFER_SIZE :: "nl_sys \<Rightarrow> nat" where
  "SOCKET_BUFFER_SIZE sys = mnl_ideal_socket_buffer_size (sys_pagesize sys)"

definition mnl_socket_open :: "nl_sys \<Rightarrow> int option" where
  "mnl_socket_open sys =
     (if sys_fails sys AllocSocket then Some ENOMEM else if sys_socket sys \<noteq> 0 then Some (sys_socket sys) else None)"

text \<open>The errno, or the port.\<close>

definition mnl_socket_bind :: "nl_sys \<Rightarrow> int + u32" where
  "mnl_socket_bind sys =
     (if sys_bind sys \<noteq> 0 then Inl (sys_bind sys)
      else (case sys_getsockname sys of
         Inl e \<Rightarrow> Inl e
       | Inr (addr_len, family, pid) \<Rightarrow>
           if addr_len \<noteq> sockaddr_nl_size then Inl EINVAL else if family \<noteq> AF_NETLINK then Inl EINVAL else Inr pid))"

text \<open>The buffer that holds a message, and the part of it that is sent.\<close>

definition msg_buffer :: "nlmsghdr \<Rightarrow> u8 list" where
  "msg_buffer h = hdr_bytes h @ nlmsg_mem h"

definition mnl_socket_sendto :: "nl_sys \<Rightarrow> nlmsghdr \<Rightarrow> nl_io \<Rightarrow> int \<times> nl_io" where
  "mnl_socket_sendto sys h io =
     (let io' = io\<lparr> io_sent := io_sent io @ [take (unat (nlmsg_len h)) (msg_buffer h)] \<rparr> in (sys_sendto sys (io_sent io'), io'))"

definition mnl_socket_recvfrom :: "nl_sys \<Rightarrow> nl_io \<Rightarrow> (int + u8 list) \<times> nl_io" where
  "mnl_socket_recvfrom sys io =
     (let io' = io\<lparr> io_received := io_received io + 1 \<rparr>
      in case sys_recvmsg sys (io_sent io) (io_received io) of
           Inl e \<Rightarrow> (Inl e, io')
         | Inr (dat, trunc, namelen) \<Rightarrow>
             if trunc then (Inl ENOSPC, io')
             else if namelen \<noteq> sockaddr_nl_size then (Inl EINVAL, io')
             else (Inr (take (SOCKET_BUFFER_SIZE sys) dat), io'))"

definition received_into :: "u8 list \<Rightarrow> u8 list \<Rightarrow> u8 list" where
  "received_into dat buf = dat @ drop (length dat) buf"


section \<open>Generic netlink\<close>

record mnlg_socket =
  nlg_buf :: "u8 list"
  nlg_id :: u16
  nlg_version :: u8
  nlg_seq :: u32
  nlg_portid :: u32

definition mnlg_msg_prepare :: "nl_sys \<Rightarrow> mnlg_socket \<Rightarrow> u8 \<Rightarrow> u16 \<Rightarrow> u16 \<Rightarrow> u8 \<Rightarrow> (mnlg_socket \<times> nlmsghdr) option" where
  "mnlg_msg_prepare sys nlg cmd flags fid version = do {
     h \<leftarrow> mnl_nlmsg_put_header (nlg_buf nlg);
     let nlg = nlg\<lparr> nlg_seq := sys_time sys \<rparr>;
     let h = h\<lparr> nlmsg_type := fid, nlmsg_flags := flags, nlmsg_seq := nlg_seq nlg \<rparr>;
     (genl, h) \<leftarrow> mnl_nlmsg_put_extra_header h 4;
     h \<leftarrow> poke h genl [cmd, version];
     Some (nlg, h)
   }"

definition mnlg_socket_send :: "nl_sys \<Rightarrow> mnlg_socket \<Rightarrow> nlmsghdr \<Rightarrow> nl_io \<Rightarrow> int \<times> mnlg_socket \<times> nl_io" where
  "mnlg_socket_send sys nlg h io = (case mnl_socket_sendto sys h io of (e, io') \<Rightarrow> (e, nlg\<lparr> nlg_buf := msg_buffer h \<rparr>, io'))"

partial_function (option) mnlg_socket_recv_run ::
  "nl_sys \<Rightarrow> mnlg_socket \<Rightarrow> 'd msg_cb option \<Rightarrow> int \<times> 'd \<Rightarrow> nl_io \<Rightarrow> ((int \<times> int \<times> 'd) \<times> mnlg_socket \<times> nl_io) option" where
  "mnlg_socket_recv_run sys nlg data_cb d io =
     (case mnl_socket_recvfrom sys io of
        (Inl e, io') \<Rightarrow> Some ((- 1, e, snd d), nlg, io')
      | (Inr dat, io') \<Rightarrow>
          if dat = [] then Some ((0, d), nlg, io')
          else
            (case mnl_cb_loop (received_into dat (nlg_buf nlg)) 0 (int (length dat)) (nlg_seq nlg) (nlg_portid nlg) data_cb mnlg_cb_array MNL_CB_OK d of
               None \<Rightarrow> None
             | Some (r, d') \<Rightarrow>
                 if r > 0 then mnlg_socket_recv_run sys (nlg\<lparr> nlg_buf := received_into dat (nlg_buf nlg) \<rparr>) data_cb d' io'
                 else Some ((r, d'), nlg\<lparr> nlg_buf := received_into dat (nlg_buf nlg) \<rparr>, io')))"

abbreviation CTRL_ATTR_FAMILY_ID :: nat where "CTRL_ATTR_FAMILY_ID \<equiv> 1"
abbreviation CTRL_ATTR_FAMILY_NAME :: u16 where "CTRL_ATTR_FAMILY_NAME \<equiv> 2"
abbreviation CTRL_CMD_GETFAMILY :: u8 where "CTRL_CMD_GETFAMILY \<equiv> 3"
abbreviation GENL_ID_CTRL :: u16 where "GENL_ID_CTRL \<equiv> 16"
abbreviation NLM_F_REQUEST :: u16 where "NLM_F_REQUEST \<equiv> 1"
abbreviation NLM_F_ACK :: u16 where "NLM_F_ACK \<equiv> 4"
abbreviation NLM_F_DUMP :: u16 where "NLM_F_DUMP \<equiv> 0x300"

definition get_family_id_attr_cb :: "nl_sys \<Rightarrow> (nat \<Rightarrow> nlattr option) attr_cb" where
  "get_family_id_attr_cb sys a d =
     (case mnl_attr_type_valid a (sys_ctrl_attr_max sys) (fst d) of
        (False, e) \<Rightarrow> Some (MNL_CB_ERROR, e, snd d)
      | (True, e) \<Rightarrow>
          (case (if mnl_attr_get_type a = CTRL_ATTR_FAMILY_ID then mnl_attr_validate a MNL_TYPE_U16 e else (True, e)) of
             (False, e) \<Rightarrow> Some (MNL_CB_ERROR, e, snd d)
           | (True, e) \<Rightarrow> Some (MNL_CB_OK, e, (snd d)(mnl_attr_get_type a \<mapsto> a))))"

definition get_family_id_cb :: "nl_sys \<Rightarrow> u16 msg_cb" where
  "get_family_id_cb sys msg d = do {
     (_, e, tb) \<leftarrow> mnl_attr_parse msg 4 (get_family_id_attr_cb sys) (fst d, Map.empty);
     case tb CTRL_ATTR_FAMILY_ID of
       None \<Rightarrow> Some (MNL_CB_ERROR, e, snd d)
     | Some a \<Rightarrow> do { n \<leftarrow> mnl_attr_get_num 2 a; Some (MNL_CB_OK, e, of_nat n) }
   }"

text \<open>The errno, or the socket. The contents of a fresh buffer are arbitrary; they are taken as zeros and do not matter.\<close>

definition mnlg_socket_open :: "nl_sys \<Rightarrow> string \<Rightarrow> u8 \<Rightarrow> nl_io \<Rightarrow> ((int + mnlg_socket) \<times> nl_io) option" where
  "mnlg_socket_open sys family_name version io =
     (if sys_fails sys AllocNlg then Some (Inl ENOMEM, io)
      else if sys_fails sys AllocBuffer then Some (Inl ENOMEM, io)
      else (case mnl_socket_open sys of
         Some e \<Rightarrow> Some (Inl e, io)
       | None \<Rightarrow>
           (case mnl_socket_bind sys of
              Inl e \<Rightarrow> Some (Inl e, io)
            | Inr portid \<Rightarrow> do {
                let nlg = \<lparr> nlg_buf = replicate (SOCKET_BUFFER_SIZE sys) 0, nlg_id = 0, nlg_version = 0, nlg_seq = 0, nlg_portid = portid \<rparr>;
                (nlg, h) \<leftarrow> mnlg_msg_prepare sys nlg CTRL_CMD_GETFAMILY (NLM_F_REQUEST OR NLM_F_ACK) GENL_ID_CTRL 1;
                h \<leftarrow> mnl_attr_put_strz h CTRL_ATTR_FAMILY_NAME family_name;
                let (e, nlg, io) = mnlg_socket_send sys nlg h io;
                if e \<noteq> 0 then Some (Inl e, io)
                else do {
                  ((r, errno, fid), nlg, io) \<leftarrow> mnlg_socket_recv_run sys nlg (Some (get_family_id_cb sys)) (0, 0) io;
                  if r < 0 then
                    (let errno = (if errno = ENOENT then EPROTONOSUPPORT else errno)
                     in Some (Inl (if errno \<noteq> 0 then errno else ENOSYS), io))
                  else Some (Inr (nlg\<lparr> nlg_id := fid, nlg_version := version \<rparr>), io)
                }
              })))"

end
