(* ===== verification/Linux_Ipc.thy ===== *)
theory Linux_Ipc
  imports Netlink
begin

text \<open>
  Model of \<^verbatim>\<open>wireguard-tools/src/ipc-linux.h\<close>: the devices of the kernel over netlink. A device is written as a sequence of messages, each
  of which fits the buffer, and read from a dump whose peers may be split over messages.
\<close>

section \<open>Constants\<close>

abbreviation WGDEVICE_A_IFINDEX :: nat where "WGDEVICE_A_IFINDEX \<equiv> 1"
abbreviation WGDEVICE_A_IFNAME :: nat where "WGDEVICE_A_IFNAME \<equiv> 2"
abbreviation WGDEVICE_A_PRIVATE_KEY :: nat where "WGDEVICE_A_PRIVATE_KEY \<equiv> 3"
abbreviation WGDEVICE_A_PUBLIC_KEY :: nat where "WGDEVICE_A_PUBLIC_KEY \<equiv> 4"
abbreviation WGDEVICE_A_FLAGS :: nat where "WGDEVICE_A_FLAGS \<equiv> 5"
abbreviation WGDEVICE_A_LISTEN_PORT :: nat where "WGDEVICE_A_LISTEN_PORT \<equiv> 6"
abbreviation WGDEVICE_A_FWMARK :: nat where "WGDEVICE_A_FWMARK \<equiv> 7"
abbreviation WGDEVICE_A_PEERS :: nat where "WGDEVICE_A_PEERS \<equiv> 8"
abbreviation WGPEER_A_PUBLIC_KEY :: nat where "WGPEER_A_PUBLIC_KEY \<equiv> 1"
abbreviation WGPEER_A_PRESHARED_KEY :: nat where "WGPEER_A_PRESHARED_KEY \<equiv> 2"
abbreviation WGPEER_A_FLAGS :: nat where "WGPEER_A_FLAGS \<equiv> 3"
abbreviation WGPEER_A_ENDPOINT :: nat where "WGPEER_A_ENDPOINT \<equiv> 4"
abbreviation WGPEER_A_PERSISTENT_KEEPALIVE_INTERVAL :: nat where "WGPEER_A_PERSISTENT_KEEPALIVE_INTERVAL \<equiv> 5"
abbreviation WGPEER_A_LAST_HANDSHAKE_TIME :: nat where "WGPEER_A_LAST_HANDSHAKE_TIME \<equiv> 6"
abbreviation WGPEER_A_RX_BYTES :: nat where "WGPEER_A_RX_BYTES \<equiv> 7"
abbreviation WGPEER_A_TX_BYTES :: nat where "WGPEER_A_TX_BYTES \<equiv> 8"
abbreviation WGPEER_A_ALLOWEDIPS :: nat where "WGPEER_A_ALLOWEDIPS \<equiv> 9"
abbreviation WGALLOWEDIP_A_FAMILY :: nat where "WGALLOWEDIP_A_FAMILY \<equiv> 1"
abbreviation WGALLOWEDIP_A_IPADDR :: nat where "WGALLOWEDIP_A_IPADDR \<equiv> 2"
abbreviation WGALLOWEDIP_A_CIDR_MASK :: nat where "WGALLOWEDIP_A_CIDR_MASK \<equiv> 3"
abbreviation WGALLOWEDIP_A_FLAGS :: nat where "WGALLOWEDIP_A_FLAGS \<equiv> 4"
abbreviation WGDEVICE_F_REPLACE_PEERS :: u32 where "WGDEVICE_F_REPLACE_PEERS \<equiv> 1"
abbreviation WGPEER_F_REMOVE_ME :: u32 where "WGPEER_F_REMOVE_ME \<equiv> 1"
abbreviation WGPEER_F_REPLACE_ALLOWEDIPS :: u32 where "WGPEER_F_REPLACE_ALLOWEDIPS \<equiv> 2"
abbreviation INET :: nat where "INET \<equiv> 2"
abbreviation INET6 :: nat where "INET6 \<equiv> 10"
abbreviation WG_GENL_NAME :: string where "WG_GENL_NAME \<equiv> ''wireguard''"
abbreviation WG_GENL_VERSION :: u8 where "WG_GENL_VERSION \<equiv> 1"
abbreviation WG_CMD_GET_DEVICE :: u8 where "WG_CMD_GET_DEVICE \<equiv> 0"
abbreviation WG_CMD_SET_DEVICE :: u8 where "WG_CMD_SET_DEVICE \<equiv> 1"

definition ENAMETOOLONG :: int where "ENAMETOOLONG = 36"


section \<open>Interfaces\<close>

record interface_info =
  if_name :: "nlattr option"
  if_wireguard :: bool

text \<open>\<^verbatim>\<open>strcmp\<close> with the memory an attribute points to; it reads up to the first difference.\<close>

definition attr_streq :: "string \<Rightarrow> nlattr \<Rightarrow> bool option" where
  "attr_streq s a =
     (let t = str_bytes s @ [0]; m = take (length t) (nla_data a @ nla_behind a)
      in if m = t then Some True else if length m = length t \<or> m \<noteq> take (length m) t then Some False else None)"

definition parse_linkinfo :: "interface_info attr_cb" where
  "parse_linkinfo a d =
     (if mnl_attr_get_type a = 1 then
        map_option (\<lambda>eq. (MNL_CB_OK, fst d, if eq then (snd d)\<lparr> if_wireguard := True \<rparr> else snd d)) (attr_streq WG_GENL_NAME a)
      else Some (MNL_CB_OK, d))"

definition parse_infomsg :: "interface_info attr_cb" where
  "parse_infomsg a d =
     (if mnl_attr_get_type a = 18 then mnl_attr_parse_nested a parse_linkinfo d
      else if mnl_attr_get_type a = 3 then Some (MNL_CB_OK, fst d, (snd d)\<lparr> if_name := Some a \<rparr>)
      else Some (MNL_CB_OK, d))"

definition read_devices_cb :: "lmem \<Rightarrow> string_list msg_cb" where
  "read_devices_cb mem msg d = do {
     (ret, e, i) \<leftarrow> mnl_attr_parse msg 16 parse_infomsg (fst d, \<lparr> if_name = None, if_wireguard = False \<rparr>);
     if ret \<noteq> MNL_CB_OK then Some (ret, e, snd d)
     else case if_name i of
         Some a \<Rightarrow>
           if if_wireguard i then do {
             s \<leftarrow> mnl_attr_get_str a;
             case string_list_add mem (snd d) s of
               Inl _ \<Rightarrow> None
             | Inr (r, l) \<Rightarrow>
                 if r < 0 then Some (r, - r, l)
                 else Some (if unat (m_type msg) \<noteq> NLMSG_DONE then MNL_CB_OK + 1 else MNL_CB_OK, e, l)
           }
           else Some (if unat (m_type msg) \<noteq> NLMSG_DONE then MNL_CB_OK + 1 else MNL_CB_OK, e, snd d)
       | None \<Rightarrow> Some (if unat (m_type msg) \<noteq> NLMSG_DONE then MNL_CB_OK + 1 else MNL_CB_OK, e, snd d)
   }"

text \<open>The part behind \<^verbatim>\<open>another\<close>. The sequence number and the port are those of the request.\<close>

partial_function (option) interfaces_loop ::
  "nl_sys \<Rightarrow> lmem \<Rightarrow> u8 list \<Rightarrow> u32 \<Rightarrow> u32 \<Rightarrow> string_list \<Rightarrow> nl_io \<Rightarrow> (int \<times> string_list \<times> nl_io) option" where
  "interfaces_loop sys mem buf sq portid list io =
     (case mnl_socket_recvfrom sys io of
        (Inl e, io') \<Rightarrow> Some (- e, list, io')
      | (Inr dat, io') \<Rightarrow>
          (case mnl_cb_loop (received_into dat buf) 0 (int (length dat)) sq portid (Some (read_devices_cb mem)) no_cb_array MNL_CB_OK (0, list) of
             None \<Rightarrow> None
           | Some (len, errno, list') \<Rightarrow>
               if len < 0 \<and> errno \<noteq> EINTR then Some (- errno, list', io')
               else if len = MNL_CB_OK + 1 then interfaces_loop sys mem (received_into dat buf) sq portid list' io'
               else Some (0, list', io')))"

definition kernel_get_wireguard_interfaces :: "nl_sys \<Rightarrow> lmem \<Rightarrow> string_list \<Rightarrow> nl_io \<Rightarrow> (int \<times> string_list \<times> nl_io) option" where
  "kernel_get_wireguard_interfaces sys mem list io =
     (if sys_fails sys AllocBuffer then Some (- ENOMEM, list, io)
      else (case mnl_socket_open sys of
         Some e \<Rightarrow> Some (- e, list, io)
       | None \<Rightarrow>
           (case mnl_socket_bind sys of
              Inl e \<Rightarrow> Some (- e, list, io)
            | Inr portid \<Rightarrow> do {
                h \<leftarrow> mnl_nlmsg_put_header (replicate (SOCKET_BUFFER_SIZE sys) 0);
                let h = h\<lparr> nlmsg_type := 18, nlmsg_flags := NLM_F_REQUEST OR NLM_F_ACK OR NLM_F_DUMP, nlmsg_seq := sys_time sys \<rparr>;
                (ifm, h) \<leftarrow> mnl_nlmsg_put_extra_header h 16;
                h \<leftarrow> poke h ifm [0];
                let (e, io) = mnl_socket_sendto sys h io;
                if e \<noteq> 0 then Some (- e, list, io)
                else interfaces_loop sys mem (msg_buffer h) (sys_time sys) portid list io
              })))"


section \<open>Writing a device\<close>

text \<open>A step that writes an attribute where there is room: outside the buffer, no room, or the longer message.\<close>

datatype stop = Overrun | TooBig nlmsghdr

definition checked :: "(bool \<times> nlmsghdr) option \<Rightarrow> stop + nlmsghdr" where
  "checked r = (case r of None \<Rightarrow> Inl Overrun | Some (ok, h) \<Rightarrow> if ok then Inr h else Inl (TooBig h))"

fun run_steps :: "(nlmsghdr \<Rightarrow> stop + nlmsghdr) list \<Rightarrow> nlmsghdr \<Rightarrow> stop + nlmsghdr" where
  "run_steps [] h = Inr h"
| "run_steps (f # fs) h = (case f h of Inl e \<Rightarrow> Inl e | Inr h' \<Rightarrow> run_steps fs h')"

definition put_step :: "nat \<Rightarrow> nat \<Rightarrow> u8 list \<Rightarrow> nlmsghdr \<Rightarrow> stop + nlmsghdr" where
  "put_step n type dat h = checked (mnl_attr_put_check h n (of_nat type) dat)"

text \<open>Structures in memory.\<close>

definition sockaddr_bytes :: "sockaddr \<Rightarrow> u8 list" where
  "sockaddr_bytes sa =
     (case sa of
        SaUnspec \<Rightarrow> []
      | SaIn a p \<Rightarrow> le_bytes 2 INET @ be_bytes 2 (unat p) @ be_bytes 4 (unat a) @ replicate 8 0
      | SaIn6 a p f s \<Rightarrow> le_bytes 2 INET6 @ be_bytes 2 (unat p) @ le_bytes 4 (unat f) @ be_bytes 16 (unat a) @ le_bytes 4 (unat s))"

definition family_num :: "ip_addr \<Rightarrow> nat" where
  "family_num i = (case i of AF_UNSPEC \<Rightarrow> 0 | AF_INET _ \<Rightarrow> INET | AF_INET6 _ \<Rightarrow> INET6)"

definition allowedip_steps :: "nat \<Rightarrow> wgallowedip \<Rightarrow> (nlmsghdr \<Rightarrow> stop + nlmsghdr) list" where
  "allowedip_steps n a =
     [put_step n WGALLOWEDIP_A_FAMILY (le_bytes 2 (family_num (ip a)))] @
     (case ip a of AF_INET i \<Rightarrow> [put_step n WGALLOWEDIP_A_IPADDR (be_bytes 4 (unat i))]
      | AF_INET6 i \<Rightarrow> [put_step n WGALLOWEDIP_A_IPADDR (be_bytes 16 (unat i))] | AF_UNSPEC \<Rightarrow> []) @
     [put_step n WGALLOWEDIP_A_CIDR_MASK (le_bytes 1 (unat (cidr a)))] @
     (if a_flags a \<noteq> 0 then [put_step n WGALLOWEDIP_A_FLAGS (le_bytes 4 (unat (a_flags a)))] else [])"

definition peer_flags :: "wgpeer \<Rightarrow> bool \<Rightarrow> u32" where
  "peer_flags p fresh =
     (if flag_test (p_flags p) WGPEER_REMOVE_ME then WGPEER_F_REMOVE_ME else 0) OR
     (if fresh \<and> flag_test (p_flags p) WGPEER_REPLACE_ALLOWEDIPS then WGPEER_F_REPLACE_ALLOWEDIPS else 0)"

definition peer_steps :: "nat \<Rightarrow> wgpeer \<Rightarrow> bool \<Rightarrow> (nlmsghdr \<Rightarrow> stop + nlmsghdr) list" where
  "peer_steps n p fresh =
     [put_step n WGPEER_A_PUBLIC_KEY (public_key p)] @
     (if fresh then
        (if flag_test (p_flags p) WGPEER_HAS_PRESHARED_KEY then [put_step n WGPEER_A_PRESHARED_KEY (preshared_key p)] else []) @
        (if endpoint p \<noteq> SaUnspec then [put_step n WGPEER_A_ENDPOINT (sockaddr_bytes (endpoint p))] else []) @
        (if flag_test (p_flags p) WGPEER_HAS_PERSISTENT_KEEPALIVE_INTERVAL
         then [put_step n WGPEER_A_PERSISTENT_KEEPALIVE_INTERVAL (le_bytes 2 (unat (persistent_keepalive_interval p)))] else [])
      else []) @
     (if peer_flags p fresh \<noteq> 0 then [put_step n WGPEER_A_FLAGS (le_bytes 4 (unat (peer_flags p fresh)))] else [])"

text \<open>The message and the allowed IPs that found no room; an allowed IP that found none is cancelled.\<close>

fun put_allowedips :: "nat \<Rightarrow> wgallowedip list \<Rightarrow> nlmsghdr \<Rightarrow> (nlmsghdr \<times> wgallowedip list) option" where
  "put_allowedips n [] h = Some (h, [])"
| "put_allowedips n (a # as) h =
     (case mnl_attr_nest_start_check h n 0 of
        None \<Rightarrow> None
      | Some (None, h) \<Rightarrow> Some (h, a # as)
      | Some (Some allowedip_nest, h) \<Rightarrow>
          (case run_steps (allowedip_steps n a) h of
             Inl Overrun \<Rightarrow> None
           | Inl (TooBig h) \<Rightarrow> Some (mnl_attr_nest_cancel h allowedip_nest, a # as)
           | Inr h \<Rightarrow> (case mnl_attr_nest_end h allowedip_nest of None \<Rightarrow> None | Some h \<Rightarrow> put_allowedips n as h)))"

text \<open>The loop over the peers from a peer on, with the allowed IPs of that peer that are still to be written, none when the peer is
  fresh; the message, and what remains.\<close>

fun put_peers :: "nat \<Rightarrow> wgpeer list \<Rightarrow> wgallowedip list \<Rightarrow> nlmsghdr \<Rightarrow> (nlmsghdr \<times> wgpeer list \<times> wgallowedip list) option" where
  "put_peers n [] allowedip h = Some (h, [], allowedip)"
| "put_peers n (p # ps) allowedip h =
     (case mnl_attr_nest_start_check h n 0 of
        None \<Rightarrow> None
      | Some (None, h) \<Rightarrow> Some (h, p # ps, allowedip)
      | Some (Some peer_nest, h) \<Rightarrow>
          (case run_steps (peer_steps n p (allowedip = [])) h of
             Inl Overrun \<Rightarrow> None
           | Inl (TooBig h) \<Rightarrow> Some (mnl_attr_nest_cancel h peer_nest, p # ps, allowedip)
           | Inr h \<Rightarrow>
               if allowedips p = [] then
                 (case mnl_attr_nest_end h peer_nest of None \<Rightarrow> None | Some h \<Rightarrow> put_peers n ps allowedip h)
               else
                 (let allowedip = (if allowedip = [] then allowedips p else allowedip)
                  in case mnl_attr_nest_start_check h n (of_nat WGPEER_A_ALLOWEDIPS) of
                       None \<Rightarrow> None
                     | Some (None, h) \<Rightarrow> map_option (\<lambda>h. (h, p # ps, allowedip)) (mnl_attr_nest_end h peer_nest)
                     | Some (Some allowedips_nest, h) \<Rightarrow>
                         (case put_allowedips n allowedip h of
                            None \<Rightarrow> None
                          | Some (h, rest) \<Rightarrow>
                              (case Option.bind (mnl_attr_nest_end h allowedips_nest) (\<lambda>h. mnl_attr_nest_end h peer_nest) of
                                 None \<Rightarrow> None
                               | Some h \<Rightarrow> if rest = [] then put_peers n ps [] h else Some (h, p # ps, rest))))))"

definition put_when :: "bool \<Rightarrow> nat \<Rightarrow> u8 list \<Rightarrow> nlmsghdr \<Rightarrow> nlmsghdr option" where
  "put_when c type dat h = (if c then mnl_attr_put h (of_nat type) dat else Some h)"

text \<open>What the first message says of the device.\<close>

definition put_device :: "wgdevice \<Rightarrow> nlmsghdr \<Rightarrow> nlmsghdr option" where
  "put_device dev h = do {
     h \<leftarrow> put_when (flag_test (d_flags dev) WGDEVICE_HAS_PRIVATE_KEY) WGDEVICE_A_PRIVATE_KEY (private_key dev) h;
     h \<leftarrow> put_when (flag_test (d_flags dev) WGDEVICE_HAS_LISTEN_PORT) WGDEVICE_A_LISTEN_PORT (le_bytes 2 (unat (listen_port dev))) h;
     h \<leftarrow> put_when (flag_test (d_flags dev) WGDEVICE_HAS_FWMARK) WGDEVICE_A_FWMARK (le_bytes 4 (unat (fwmark dev))) h;
     put_when (flag_test (d_flags dev) WGDEVICE_REPLACE_PEERS) WGDEVICE_A_FLAGS (le_bytes 4 (unat WGDEVICE_F_REPLACE_PEERS)) h
   }"

text \<open>One message, from \<^verbatim>\<open>again\<close> to \<^verbatim>\<open>send\<close>. The position is None at the start.\<close>

definition put_message :: "nat \<Rightarrow> wgdevice \<Rightarrow> (wgpeer list \<times> wgallowedip list) option \<Rightarrow> nlmsghdr \<Rightarrow> (nlmsghdr \<times> wgpeer list \<times> wgallowedip list) option" where
  "put_message n dev pos h = do {
     h \<leftarrow> mnl_attr_put_strz h (of_nat WGDEVICE_A_IFNAME) (name dev);
     h \<leftarrow> (if pos = None then put_device dev h else Some h);
     if peers dev = [] then Some (h, [], [])
     else do {
       (peers_nest, h) \<leftarrow> mnl_attr_nest_start h (of_nat WGDEVICE_A_PEERS);
       let (ps, allowedip) = (case pos of None \<Rightarrow> (peers dev, []) | Some s \<Rightarrow> s);
       (h, ps, allowedip) \<leftarrow> put_peers n ps allowedip h;
       h \<leftarrow> mnl_attr_nest_end h peers_nest;
       Some (h, ps, allowedip)
     }
   }"

partial_function (option) set_device_loop ::
  "nl_sys \<Rightarrow> wgdevice \<Rightarrow> (wgpeer list \<times> wgallowedip list) option \<Rightarrow> mnlg_socket \<Rightarrow> nl_io \<Rightarrow> (int \<times> nl_io) option" where
  "set_device_loop sys dev pos nlg io = do {
     (nlg, h) \<leftarrow> mnlg_msg_prepare sys nlg WG_CMD_SET_DEVICE (NLM_F_REQUEST OR NLM_F_ACK) (nlg_id nlg) (nlg_version nlg);
     (h, ps, allowedip) \<leftarrow> put_message (SOCKET_BUFFER_SIZE sys) dev pos h;
     let (e, nlg, io) = mnlg_socket_send sys nlg h io;
     if e \<noteq> 0 then Some (- e, io)
     else do {
       ((r, errno, _), nlg, io) \<leftarrow> mnlg_socket_recv_run sys nlg None (0, ()) io;
       if r < 0 then Some (if errno \<noteq> 0 then - errno else - EINVAL, io)
       else if ps = [] then Some (0, io)
       else set_device_loop sys dev (Some (ps, allowedip)) nlg io
     }
   }"

definition kernel_set_device :: "nl_sys \<Rightarrow> wgdevice \<Rightarrow> nl_io \<Rightarrow> (int \<times> nl_io) option" where
  "kernel_set_device sys dev io = do {
     (r, io) \<leftarrow> mnlg_socket_open sys WG_GENL_NAME WG_GENL_VERSION io;
     case r of Inl e \<Rightarrow> Some (- e, io) | Inr nlg \<Rightarrow> set_device_loop sys dev None nlg io
   }"


section \<open>Reading a device\<close>

text \<open>An allowed IP while it is read: the family comes apart from the address, whose two forms share their memory.\<close>

record raw_allowedip =
  ra_family :: u16
  ra_ip :: "u8 list"
  ra_cidr :: u8

definition new_raw :: raw_allowedip where
  "new_raw = \<lparr> ra_family = 0, ra_ip = replicate 16 0, ra_cidr = 0 \<rparr>"

text \<open>Every family but the two is \<^const>\<open>AF_UNSPEC\<close>.\<close>

definition cooked :: "raw_allowedip \<Rightarrow> wgallowedip" where
  "cooked r = \<lparr> ip = (if unat (ra_family r) = INET then AF_INET (of_nat (be_num (take 4 (ra_ip r))))
                     else if unat (ra_family r) = INET6 then AF_INET6 (of_nat (be_num (ra_ip r))) else AF_UNSPEC),
               cidr = ra_cidr r, a_flags = 0 \<rparr>"

text \<open>A number of fixed size is taken only when the payload has that size; otherwise the attribute is passed over.\<close>

definition take_num :: "nlattr \<Rightarrow> mnl_attr_data_type \<Rightarrow> (nat \<Rightarrow> 'd \<Rightarrow> 'd) \<Rightarrow> int \<times> 'd \<Rightarrow> (int \<times> int \<times> 'd) option" where
  "take_num a t f d =
     (case mnl_attr_validate a t (fst d) of
        (False, e) \<Rightarrow> Some (MNL_CB_OK, e, snd d)
      | (True, e) \<Rightarrow> map_option (\<lambda>v. (MNL_CB_OK, e, f v (snd d))) (mnl_attr_get_num (mnl_attr_data_type_len t) a))"

definition parse_allowedip_attr :: "raw_allowedip attr_cb" where
  "parse_allowedip_attr a d =
     (let t = mnl_attr_get_type a; dat = nla_data a
      in if t = WGALLOWEDIP_A_FAMILY then take_num a MNL_TYPE_U16 (\<lambda>v r. r\<lparr> ra_family := of_nat v \<rparr>) d
         else if t = WGALLOWEDIP_A_IPADDR then
           Some (MNL_CB_OK, fst d,
             if length dat = 4 then (snd d)\<lparr> ra_ip := dat @ drop 4 (ra_ip (snd d)) \<rparr>
             else if length dat = 16 then (snd d)\<lparr> ra_ip := dat \<rparr> else snd d)
         else if t = WGALLOWEDIP_A_CIDR_MASK then take_num a MNL_TYPE_U8 (\<lambda>v r. r\<lparr> ra_cidr := of_nat v \<rparr>) d
         else Some (MNL_CB_OK, d))"

definition cidr_fits :: "raw_allowedip \<Rightarrow> bool" where
  "cidr_fits r \<longleftrightarrow> unat (ra_family r) = INET \<and> unat (ra_cidr r) \<le> 32 \<or> unat (ra_family r) = INET6 \<and> unat (ra_cidr r) \<le> 128"

definition parse_allowedips_attr :: "nl_sys \<Rightarrow> wgpeer attr_cb" where
  "parse_allowedips_attr sys a d =
     (if sys_fails sys (AllocAllowedip (nla_data a)) then Some (MNL_CB_ERROR, ENOMEM, snd d)
      else do {
        (ret, e, r) \<leftarrow> mnl_attr_parse_nested a parse_allowedip_attr (fst d, new_raw);
        let p = (snd d)\<lparr> allowedips := allowedips (snd d) @ [cooked r] \<rparr>;
        if ret = 0 then Some (ret, e, p)
        else if \<not> cidr_fits r then Some (MNL_CB_ERROR, e, p)
        else Some (MNL_CB_OK, e, p)
      })"

definition sockaddr_of :: "u8 list \<Rightarrow> sockaddr" where
  "sockaddr_of b =
     (if le_num (take 2 b) = INET then SaIn (of_nat (be_num (take 4 (drop 4 b)))) (of_nat (be_num (take 2 (drop 2 b))))
      else SaIn6 (of_nat (be_num (take 16 (drop 8 b)))) (of_nat (be_num (take 2 (drop 2 b)))) (of_nat (le_num (take 4 (drop 4 b))))
             (of_nat (le_num (take 4 (drop 24 b)))))"

definition parse_peer_attr :: "nl_sys \<Rightarrow> wgpeer attr_cb" where
  "parse_peer_attr sys a d =
     (let t = mnl_attr_get_type a; dat = nla_data a; n = length dat; p = snd d
      in if t = WGPEER_A_PUBLIC_KEY then
           Some (MNL_CB_OK, fst d, if n = WG_KEY_LEN then p\<lparr> public_key := dat, p_flags := set_flag WGPEER_HAS_PUBLIC_KEY (p_flags p) \<rparr> else p)
         else if t = WGPEER_A_PRESHARED_KEY then
           Some (MNL_CB_OK, fst d,
             if n = WG_KEY_LEN then p\<lparr> preshared_key := dat,
                 p_flags := (if \<not> key_is_zero dat then set_flag WGPEER_HAS_PRESHARED_KEY (p_flags p) else p_flags p) \<rparr>
             else p)
         else if t = WGPEER_A_ENDPOINT then
           Some (MNL_CB_OK, fst d,
             if n < 16 then p
             else if le_num (take 2 dat) = INET \<and> n = 16 \<or> le_num (take 2 dat) = INET6 \<and> n = 28 then p\<lparr> endpoint := sockaddr_of dat \<rparr>
             else p)
         else if t = WGPEER_A_PERSISTENT_KEEPALIVE_INTERVAL then take_num a MNL_TYPE_U16 (\<lambda>v p. p\<lparr> persistent_keepalive_interval := of_nat v \<rparr>) d
         else if t = WGPEER_A_LAST_HANDSHAKE_TIME then
           Some (MNL_CB_OK, fst d,
             if n = 16 then p\<lparr> last_handshake_time := \<lparr> tv_sec = of_nat (le_num (take 8 dat)), tv_nsec = of_nat (le_num (drop 8 dat)) \<rparr> \<rparr> else p)
         else if t = WGPEER_A_RX_BYTES then take_num a MNL_TYPE_U64 (\<lambda>v p. p\<lparr> rx_bytes := of_nat v \<rparr>) d
         else if t = WGPEER_A_TX_BYTES then take_num a MNL_TYPE_U64 (\<lambda>v p. p\<lparr> tx_bytes := of_nat v \<rparr>) d
         else if t = WGPEER_A_ALLOWEDIPS then mnl_attr_parse_nested a (parse_allowedips_attr sys) d
         else Some (MNL_CB_OK, d))"

definition parse_peers_attr :: "nl_sys \<Rightarrow> wgdevice attr_cb" where
  "parse_peers_attr sys a d =
     (if sys_fails sys (AllocPeer (nla_data a)) then Some (MNL_CB_ERROR, ENOMEM, snd d)
      else do {
        (ret, e, p) \<leftarrow> mnl_attr_parse_nested a (parse_peer_attr sys) (fst d, new_peer);
        let dev = (snd d)\<lparr> peers := peers (snd d) @ [p] \<rparr>;
        if ret = 0 then Some (ret, e, dev)
        else if \<not> flag_test (p_flags p) WGPEER_HAS_PUBLIC_KEY then Some (MNL_CB_ERROR, e, dev)
        else Some (MNL_CB_OK, e, dev)
      })"

text \<open>\<^verbatim>\<open>strncpy\<close> into the name.\<close>

definition attr_strncpy :: "nat \<Rightarrow> nlattr \<Rightarrow> string option" where
  "attr_strncpy n a =
     (let m = nla_data a @ nla_behind a; t = takeWhile (\<lambda>b. b \<noteq> 0) (take n m)
      in if length t < n \<and> length m = length t then None else Some (map (\<lambda>b. char_of (unat b)) t))"

definition parse_device_attr :: "nl_sys \<Rightarrow> wgdevice attr_cb" where
  "parse_device_attr sys a d =
     (let t = mnl_attr_get_type a; dat = nla_data a; dev = snd d
      in if t = WGDEVICE_A_IFINDEX then take_num a MNL_TYPE_U32 (\<lambda>v dev. dev\<lparr> ifindex := of_nat v \<rparr>) d
         else if t = WGDEVICE_A_IFNAME then
           (case mnl_attr_validate a MNL_TYPE_STRING (fst d) of
              (False, e) \<Rightarrow> Some (MNL_CB_OK, e, dev)
            | (True, e) \<Rightarrow> map_option (\<lambda>s. (MNL_CB_OK, e, dev\<lparr> name := s \<rparr>)) (attr_strncpy (IFNAMSIZ - 1) a))
         else if t = WGDEVICE_A_PRIVATE_KEY then
           Some (MNL_CB_OK, fst d,
             if length dat = WG_KEY_LEN then dev\<lparr> private_key := dat, d_flags := set_flag WGDEVICE_HAS_PRIVATE_KEY (d_flags dev) \<rparr> else dev)
         else if t = WGDEVICE_A_PUBLIC_KEY then
           Some (MNL_CB_OK, fst d,
             if length dat = WG_KEY_LEN then dev\<lparr> d_public_key := dat, d_flags := set_flag WGDEVICE_HAS_PUBLIC_KEY (d_flags dev) \<rparr> else dev)
         else if t = WGDEVICE_A_LISTEN_PORT then take_num a MNL_TYPE_U16 (\<lambda>v dev. dev\<lparr> listen_port := of_nat v \<rparr>) d
         else if t = WGDEVICE_A_FWMARK then take_num a MNL_TYPE_U32 (\<lambda>v dev. dev\<lparr> fwmark := of_nat v \<rparr>) d
         else if t = WGDEVICE_A_PEERS then mnl_attr_parse_nested a (parse_peers_attr sys) d
         else Some (MNL_CB_OK, d))"

definition read_device_cb :: "nl_sys \<Rightarrow> wgdevice msg_cb" where
  "read_device_cb sys msg d = mnl_attr_parse msg 4 (parse_device_attr sys) d"

text \<open>\<^verbatim>\<open>coalesce_peers\<close>: the flag says that \<^verbatim>\<open>last_allowedip\<close> of the first peer is null although it has allowed IPs, as it is
  behind a merge with a peer that has none; following it is None.\<close>

fun coalesce_peers :: "bool \<Rightarrow> wgpeer list \<Rightarrow> wgpeer list option" where
  "coalesce_peers null (p # q # ps) =
     (if public_key p \<noteq> public_key q then map_option (Cons p) (coalesce_peers False (q # ps))
      else if allowedips p = [] then coalesce_peers False (p\<lparr> allowedips := allowedips q \<rparr> # ps)
      else if null then None
      else coalesce_peers (allowedips q = []) (p\<lparr> allowedips := allowedips p @ allowedips q \<rparr> # ps))"
| "coalesce_peers null ps = Some ps"

text \<open>The result and the device.\<close>

partial_function (option) get_device_loop :: "nl_sys \<Rightarrow> string \<Rightarrow> nl_io \<Rightarrow> (int \<times> wgdevice option) option" where
  "get_device_loop sys iface io =
     (if sys_fails sys AllocDevice then Some (- ENOMEM, None)
      else do {
        (r, io) \<leftarrow> mnlg_socket_open sys WG_GENL_NAME WG_GENL_VERSION io;
        case r of
          Inl e \<Rightarrow> Some (- e, None)
        | Inr nlg \<Rightarrow> do {
            (nlg, h) \<leftarrow> mnlg_msg_prepare sys nlg WG_CMD_GET_DEVICE (NLM_F_REQUEST OR NLM_F_ACK OR NLM_F_DUMP) (nlg_id nlg) (nlg_version nlg);
            h \<leftarrow> mnl_attr_put_strz h (of_nat WGDEVICE_A_IFNAME) iface;
            let (e, nlg, io) = mnlg_socket_send sys nlg h io;
            if e \<noteq> 0 then (if e = EINTR then get_device_loop sys iface io else Some (- e, None))
            else do {
              ((r, errno, dev), nlg, io) \<leftarrow> mnlg_socket_recv_run sys nlg (Some (read_device_cb sys)) (0, new_device) io;
              if r < 0 then
                (if errno = EINTR then get_device_loop sys iface io
                 else Some (if errno \<noteq> 0 then - errno else - EINVAL, None))
              else do { ps \<leftarrow> coalesce_peers False (peers dev); Some (0, Some (dev\<lparr> peers := ps \<rparr>)) }
            }
          }
      })"

definition kernel_get_device :: "nl_sys \<Rightarrow> string \<Rightarrow> nl_io \<Rightarrow> (int \<times> wgdevice option) option" where
  "kernel_get_device sys iface io =
     (if length iface \<ge> IFNAMSIZ then Some (- ENAMETOOLONG, None) else get_device_loop sys iface io)"

end
