(* ===== verification/Netlink_Facts.thy ===== *)
theory Netlink_Facts
  imports Netlink
begin

text \<open>
  What the writing operations of \<^verbatim>\<open>netlink.h\<close> do to the message in the buffer, as the bytes they add to it, and what a loop over attributes
  sees of bytes so written.
\<close>

section \<open>Numbers\<close>

lemma length_le_bytes [simp]: "length (le_bytes n v) = n"
  by (induction n arbitrary: v) auto

lemma length_be_bytes [simp]: "length (be_bytes n v) = n"
  by (simp add: be_bytes_def)

lemma le_num_le_bytes [simp]: "le_num (le_bytes n v) = v mod 256 ^ n"
proof (induction n arbitrary: v)
  case (Suc n)
  have "unat (of_nat v :: u8) = v mod 256" by (simp add: unat_of_nat take_bit_nat_def)
  moreover have "v mod (256 * 256 ^ n) = v mod 256 + 256 * (v div 256 mod 256 ^ n)" by (simp add: mod_mult2_eq)
  ultimately show ?case by (simp add: Suc)
qed simp

lemma be_num_be_bytes [simp]: "be_num (be_bytes n v) = v mod 256 ^ n"
  by (simp add: be_num_def be_bytes_def)

lemma align_mod [simp]: "MNL_ALIGN n mod 4 = 0"
  by (simp add: MNL_ALIGN_def)

lemma align_id [simp]: "n mod 4 = 0 \<Longrightarrow> MNL_ALIGN n = n"
  unfolding MNL_ALIGN_def by presburger

lemma align_add: "MNL_ALIGN (4 + n) = 4 + MNL_ALIGN n"
  unfolding MNL_ALIGN_def by presburger

lemma align_less: "MNL_ALIGN n < n + 4"
  unfolding MNL_ALIGN_def by presburger

section \<open>Writing\<close>

text \<open>A message that lies in its buffer, as it is between two operations.\<close>

definition msg_ok :: "nlmsghdr \<Rightarrow> bool" where
  "msg_ok h \<longleftrightarrow> 16 \<le> unat (nlmsg_len h) \<and> unat (nlmsg_len h) mod 4 = 0 \<and> unat (nlmsg_len h) \<le> 16 + length (nlmsg_mem h) \<and>
     length (nlmsg_mem h) + 16 < 2 ^ 16"

abbreviation msg_size :: "nlmsghdr \<Rightarrow> nat" where "msg_size h \<equiv> unat (nlmsg_len h)"
abbreviation msg_room :: "nlmsghdr \<Rightarrow> nat" where "msg_room h \<equiv> 16 + length (nlmsg_mem h)"

definition written :: "nlmsghdr \<Rightarrow> u8 list" where
  "written h = take (msg_size h - 16) (nlmsg_mem h)"

text \<open>The message has grown by some bytes; nothing else has changed.\<close>

definition grows :: "nlmsghdr \<Rightarrow> u8 list \<Rightarrow> nlmsghdr \<Rightarrow> bool" where
  "grows h bs h' \<longleftrightarrow> msg_ok h' \<and> written h' = written h @ bs \<and> length (nlmsg_mem h') = length (nlmsg_mem h) \<and>
     nlmsg_type h' = nlmsg_type h \<and> nlmsg_flags h' = nlmsg_flags h \<and> nlmsg_seq h' = nlmsg_seq h \<and> nlmsg_pid h' = nlmsg_pid h"

lemma length_written: "msg_ok h \<Longrightarrow> length (written h) = msg_size h - 16"
  by (auto simp: msg_ok_def written_def)

lemma growsD:
  assumes "msg_ok h" "grows h bs h'"
  shows "msg_size h' = msg_size h + length bs" "msg_room h' = msg_room h" "msg_ok h'"
proof -
  have "msg_size h' - 16 = msg_size h - 16 + length bs"
    using assms length_written[of h] length_written[of h'] by (simp add: grows_def)
  then show "msg_size h' = msg_size h + length bs" using assms by (auto simp: msg_ok_def grows_def)
qed (use assms in \<open>auto simp: grows_def\<close>)

lemma grows_trans: "grows h bs h' \<Longrightarrow> grows h' cs h'' \<Longrightarrow> grows h (bs @ cs) h''"
  by (simp add: grows_def)

lemma grows_refl: "msg_ok h \<Longrightarrow> grows h [] h"
  by (simp add: grows_def)

lemma payload_tail: "msg_ok h \<Longrightarrow> mnl_nlmsg_get_payload_tail h = msg_size h"
  by (simp add: msg_ok_def mnl_nlmsg_get_payload_tail_def)

lemma poke_parts: "nlmsg_mem h = a @ x @ r \<Longrightarrow> p = 16 + length a \<Longrightarrow> length x = length bs \<Longrightarrow> poke h p bs = Some (h\<lparr> nlmsg_mem := a @ bs @ r \<rparr>)"
  by (simp add: poke_def store_def)

lemma msg_size_add:
  assumes "msg_ok h" "msg_size h + k \<le> msg_room h"
  shows "unat (nlmsg_len h + of_nat k) = msg_size h + k"
proof -
  have "k < 2 ^ 32" "msg_size h + k < 2 ^ 32" using assms by (auto simp: msg_ok_def)
  then show ?thesis by (simp add: unat_word_ariths unat_of_nat take_bit_nat_eq_self)
qed

text \<open>Writing behind the end and moving the end.\<close>

lemma msg_parts:
  assumes "msg_ok h" "msg_size h + n \<le> msg_room h"
  obtains x r where "nlmsg_mem h = written h @ x @ r" "length x = n" "msg_size h = 16 + length (written h)"
proof
  let ?k = "msg_size h - 16"
  show "nlmsg_mem h = written h @ take n (drop ?k (nlmsg_mem h)) @ drop n (drop ?k (nlmsg_mem h))"
    unfolding written_def append_take_drop_id ..
  show "length (take n (drop ?k (nlmsg_mem h))) = n" using assms by (auto simp: msg_ok_def)
  show "msg_size h = 16 + length (written h)" using assms length_written[of h] by (auto simp: msg_ok_def)
qed

lemma grows_write:
  assumes "msg_ok h" "nlmsg_mem h = written h @ x @ r" "length x = length bs" "length bs mod 4 = 0" "n = length bs"
  shows "grows h bs (h\<lparr> nlmsg_mem := written h @ bs @ r, nlmsg_len := nlmsg_len h + of_nat n \<rparr>)"
proof -
  define w where "w = written h"
  have k: "msg_size h = 16 + length w" using assms(1) length_written[of h] by (auto simp: msg_ok_def w_def)
  have m: "length (nlmsg_mem h) = length w + length bs + length r" using arg_cong[OF assms(2), of length] assms(3) by (simp add: w_def)
  have room: "msg_size h + length bs \<le> msg_room h" using m k by simp
  have l: "unat (nlmsg_len h + of_nat n) = 16 + length w + length bs" using msg_size_add[OF assms(1) room] assms(5) k by simp
  have "(16 + length w + length bs) mod 4 = 0" using assms(1,4) k by (metis add_0 mod_add_eq msg_ok_def mod_0)
  then show ?thesis using assms(1) k m unfolding w_def[symmetric] grows_def by (simp add: msg_ok_def l written_def[of "_\<lparr> nlmsg_mem := _, nlmsg_len := _ \<rparr>"] flip: w_def)
qed

definition attr_bytes :: "u16 \<Rightarrow> u8 list \<Rightarrow> u8 list" where
  "attr_bytes t dat = le_bytes 2 (4 + length dat) @ le_bytes 2 (unat t) @ dat @ replicate (MNL_ALIGN (length dat) - length dat) 0"

lemma length_attr_bytes [simp]: "length (attr_bytes t dat) = 4 + MNL_ALIGN (length dat)"
  using align_ge[of "length dat"] by (simp add: attr_bytes_def)

lemma attr_put_grows:
  assumes "msg_ok h" "msg_size h + 4 + MNL_ALIGN (length dat) \<le> msg_room h"
  shows "\<exists>h'. mnl_attr_put h t dat = Some h' \<and> grows h (attr_bytes t dat) h'"
proof -
  let ?n = "length dat" and ?pad = "MNL_ALIGN (length dat) - length dat"
  have n: "?n \<le> MNL_ALIGN ?n" "MNL_ALIGN ?n < ?n + 4" using align_ge align_less by auto
  have "4 + ?n < 2 ^ 16" using assms n by (auto simp: msg_ok_def)
  then have pl: "unat (of_nat (4 + ?n) :: u16) = 4 + ?n" by (simp add: unat_of_nat take_bit_nat_eq_self del: of_nat_add)
  have a4: "MNL_ALIGN 4 = 4" by simp
  define w where "w = written h"
  define hd where "hd = le_bytes 2 (4 + ?n) @ le_bytes 2 (unat t)"
  have lhd: "length hd = 4" by (simp add: hd_def)
  obtain x r where m: "nlmsg_mem h = w @ x @ r" "length x = 4 + MNL_ALIGN ?n" "msg_size h = 16 + length w"
    using msg_parts[OF assms(1), of "4 + MNL_ALIGN ?n"] assms(2) unfolding w_def by (metis add.assoc)
  define x1 where "x1 = take 4 x"
  define x2 where "x2 = take ?n (drop 4 x)"
  define x3 where "x3 = drop ?n (drop 4 x)"
  have x: "x = x1 @ x2 @ x3" unfolding x1_def x2_def x3_def by (simp only: append_take_drop_id)
  have lx: "length x1 = 4" "length x2 = ?n" "length x3 = ?pad" using m(2) n by (simp_all add: x1_def x2_def x3_def)
  have p1: "poke h (msg_size h) hd = Some (h\<lparr> nlmsg_mem := w @ hd @ (x2 @ x3 @ r) \<rparr>)"
    by (rule poke_parts[of h w x1]) (simp_all add: m x lx lhd)
  have p2: "poke (h\<lparr> nlmsg_mem := w @ hd @ (x2 @ x3 @ r) \<rparr>) (msg_size h + 4) dat = Some (h\<lparr> nlmsg_mem := w @ hd @ dat @ x3 @ r \<rparr>)"
    using poke_parts[of "h\<lparr> nlmsg_mem := w @ hd @ (x2 @ x3 @ r) \<rparr>" "w @ hd" x2 "x3 @ r" "msg_size h + 4" dat] by (simp add: m lx lhd)
  let ?l = "nlmsg_len h + of_nat (4 + MNL_ALIGN ?n)"
  let ?h3 = "h\<lparr> nlmsg_mem := w @ hd @ dat @ x3 @ r, nlmsg_len := ?l \<rparr>"
  let ?h4 = "h\<lparr> nlmsg_mem := w @ attr_bytes t dat @ r, nlmsg_len := ?l \<rparr>"
  have p3: "(if ?pad > 0 then poke ?h3 (msg_size h + 4 + ?n) (replicate ?pad 0) else Some ?h3) = Some ?h4"
  proof (cases "?pad > 0")
    case True
    have "poke ?h3 (msg_size h + 4 + ?n) (replicate ?pad 0) = Some (?h3\<lparr> nlmsg_mem := (w @ hd @ dat) @ replicate ?pad 0 @ r \<rparr>)"
      by (rule poke_parts[of _ _ x3]) (simp_all add: m lx lhd)
    then show ?thesis using True by (simp add: attr_bytes_def hd_def)
  next
    case False
    then have "x3 = []" using lx by simp
    then show ?thesis using False by (simp add: attr_bytes_def hd_def)
  qed
  have sel: "nlmsg_len (h\<lparr> nlmsg_mem := y \<rparr>) = nlmsg_len h" for y by simp
  have "mnl_attr_put h t dat = Some ?h4"
    unfolding mnl_attr_put_def payload_tail[OF assms(1)] Let_def a4 pl hd_def[symmetric] p1 Option.bind.bind_lunit p2 sel align_add p3 ..
  moreover have "grows h (attr_bytes t dat) ?h4"
    unfolding w_def by (rule grows_write[where x = x]) (use assms(1) m in \<open>simp_all add: w_def\<close>)
  ultimately show ?thesis by blast
qed

lemma nest_start_grows:
  assumes "msg_ok h" "msg_size h + 4 \<le> msg_room h"
  obtains x h' where "mnl_attr_nest_start h t = Some (msg_size h, h')" "length x = 2" "grows h (x @ le_bytes 2 (unat (NLA_F_NESTED OR t))) h'"
proof -
  define w where "w = written h"
  define y where "y = le_bytes 2 (unat (NLA_F_NESTED OR t))"
  obtain x r where m: "nlmsg_mem h = w @ x @ r" "length x = 4" "msg_size h = 16 + length w"
    using msg_parts[OF assms] unfolding w_def by metis
  have lx: "length (take 2 x) = 2" "length (drop 2 x) = 2" using m(2) by simp_all
  let ?h' = "h\<lparr> nlmsg_mem := w @ (take 2 x @ y) @ r, nlmsg_len := nlmsg_len h + of_nat 4 \<rparr>"
  have "poke h (msg_size h + 2) y = Some (h\<lparr> nlmsg_mem := (w @ take 2 x) @ y @ r \<rparr>)"
    by (rule poke_parts[of _ _ "drop 2 x"]) (use m lx in \<open>simp_all add: y_def\<close>)
  then have "mnl_attr_nest_start h t = Some (msg_size h, ?h')"
    unfolding mnl_attr_nest_start_def payload_tail[OF assms(1)] Let_def y_def[symmetric] by simp
  moreover have "grows h (take 2 x @ y) ?h'"
    unfolding w_def by (rule grows_write[where x = x]) (use assms(1) m in \<open>simp_all add: w_def y_def\<close>)
  ultimately show thesis using that lx(1) unfolding y_def by blast
qed

lemma nest_end_grows:
  assumes "msg_ok h" "grows h (x @ y @ bs) h'" "length x = 2" "length y = 2"
  obtains h'' where "mnl_attr_nest_end h' (msg_size h) = Some h''" "grows h (le_bytes 2 (4 + length bs) @ y @ bs) h''"
proof -
  have h': "msg_ok h'" "msg_size h' = msg_size h + 4 + length bs" using growsD[OF assms(1,2)] assms(3,4) by simp_all
  define w where "w = written h"
  obtain r where m: "nlmsg_mem h' = written h' @ [] @ r" "msg_size h' = 16 + length (written h')" using msg_parts[OF h'(1), of 0] h'(1) by (auto simp: msg_ok_def)
  have wr: "written h' = w @ x @ y @ bs" using assms(2) by (simp add: grows_def w_def)
  have k: "msg_size h = 16 + length w" using assms(1) length_written[of h] by (auto simp: msg_ok_def w_def)
  have small: "4 + length bs < 2 ^ 16" using h' by (auto simp: msg_ok_def)
  then have l: "unat (of_nat (msg_size h + 4 + length bs - msg_size h) :: u16) = 4 + length bs"
    by (simp add: unat_of_nat take_bit_nat_eq_self del: of_nat_add)
  let ?h'' = "h'\<lparr> nlmsg_mem := w @ le_bytes 2 (4 + length bs) @ y @ bs @ r \<rparr>"
  have "mnl_attr_nest_end h' (msg_size h) = Some ?h''"
    unfolding mnl_attr_nest_end_def payload_tail[OF h'(1)] h'(2) l
    by (rule poke_parts[of _ _ x]) (use m(1) wr k assms(3) in simp_all)
  moreover have "grows h (le_bytes 2 (4 + length bs) @ y @ bs) ?h''"
  proof -
    have "length (nlmsg_mem ?h'') = length (nlmsg_mem h')" unfolding m(1) wr using assms(3) by simp
    then show ?thesis using assms(2,4) h' k unfolding grows_def by (simp add: msg_ok_def written_def[of "h'\<lparr> nlmsg_mem := _ \<rparr>"] w_def)
  qed
  ultimately show thesis using that by blast
qed

lemma nest_cancel_grows:
  assumes "msg_ok h" "grows h bs h'"
  shows "grows h [] (mnl_attr_nest_cancel h' (msg_size h))"
proof -
  have h': "msg_ok h'" "msg_size h' = msg_size h + length bs" using growsD[OF assms] by simp_all
  have "nlmsg_len h' - of_nat (length bs) = nlmsg_len h"
  proof (rule word_unat_eq_iff[THEN iffD2])
    have "(of_nat (length bs) :: u32) \<le> nlmsg_len h'" using h' by (simp add: word_le_nat_alt unat_of_nat take_bit_nat_eq_self msg_ok_def)
    then show "unat (nlmsg_len h' - of_nat (length bs)) = msg_size h"
      using h' by (simp add: unat_sub unat_of_nat take_bit_nat_eq_self msg_ok_def)
  qed
  then have "mnl_attr_nest_cancel h' (msg_size h) = h'\<lparr> nlmsg_len := nlmsg_len h \<rparr>"
    unfolding mnl_attr_nest_cancel_def payload_tail[OF h'(1)] h'(2) by simp
  moreover have "take (msg_size h - 16) (nlmsg_mem h') = written h"
  proof -
    have "take (msg_size h - 16) (written h') = written h" using assms length_written[OF assms(1)] by (simp add: grows_def)
    moreover have "msg_size h - 16 \<le> msg_size h' - 16" using h' by simp
    ultimately show ?thesis unfolding written_def by (simp add: min_absorb1)
  qed
  ultimately show ?thesis using assms unfolding grows_def by (simp add: msg_ok_def written_def[of "h'\<lparr> nlmsg_len := _ \<rparr>"])
qed


section \<open>Reading\<close>

lemma attr_at_bytes:
  assumes "4 + length dat < 2 ^ 16"
  shows "attr_at (pre @ attr_bytes t dat @ rest) (length pre) =
    Some \<lparr> nla_type = t, nla_data = dat, nla_behind = replicate (MNL_ALIGN (length dat) - length dat) 0 @ rest \<rparr>"
    and "load 2 (pre @ attr_bytes t dat @ rest) (length pre) = Some (4 + length dat)"
proof -
  let ?pad = "replicate (MNL_ALIGN (length dat) - length dat) (0 :: u8)"
  define x where "x = le_bytes 2 (4 + length dat)"
  define y where "y = le_bytes 2 (unat t)"
  have lx: "length x = 2" "length y = 2" by (simp_all add: x_def y_def)
  have nx: "le_num x = 4 + length dat" "le_num y = unat t" using assms unat_below[of t] by (simp_all add: x_def y_def)
  have m: "pre @ attr_bytes t dat @ rest = pre @ x @ y @ dat @ ?pad @ rest" by (simp add: attr_bytes_def x_def y_def)
  show l: "load 2 (pre @ attr_bytes t dat @ rest) (length pre) = Some (4 + length dat)"
    unfolding m load_def by (simp add: lx nx)
  have t: "load 2 (pre @ attr_bytes t dat @ rest) (length pre + 2) = Some (unat t)"
    unfolding m load_def by (simp add: lx nx)
  show "attr_at (pre @ attr_bytes t dat @ rest) (length pre) = Some \<lparr> nla_type = t, nla_data = dat, nla_behind = ?pad @ rest \<rparr>"
    unfolding attr_at_def l t unfolding m by (simp add: lx)
qed

lemma attr_loop_step:
  assumes "4 + length dat < 2 ^ 16" "length pre + 4 + MNL_ALIGN (length dat) \<le> tail"
  shows "attr_loop cb (pre @ attr_bytes t dat @ rest) (length pre) tail ret d =
    (case cb \<lparr> nla_type = t, nla_data = dat, nla_behind = replicate (MNL_ALIGN (length dat) - length dat) 0 @ rest \<rparr> d of
       None \<Rightarrow> None
     | Some (r, d') \<Rightarrow> if r \<le> 0 then Some (r, d') else attr_loop cb (pre @ attr_bytes t dat @ rest) (length (pre @ attr_bytes t dat)) tail r d')"
proof -
  have ok: "mnl_attr_ok (pre @ attr_bytes t dat @ rest) (length pre) tail = Some True"
    unfolding mnl_attr_ok_def attr_at_bytes(2)[OF assms(1)] using assms(2) align_ge[of "length dat"] by simp
  show ?thesis
    by (subst attr_loop.simps) (simp add: ok attr_at_bytes(1)[OF assms(1)] align_add add.assoc split: option.split prod.split)
qed

lemma attr_loop_end: "tail < p + 4 \<Longrightarrow> attr_loop cb m p tail ret d = Some (ret, d)"
  by (subst attr_loop.simps) (simp add: mnl_attr_ok_def)

text \<open>A loop with a callback that accepts every attribute, whatever lies behind it.\<close>

definition attrs_bytes :: "(u16 \<times> u8 list) list \<Rightarrow> u8 list" where
  "attrs_bytes as = concat (map (\<lambda>(t, dat). attr_bytes t dat) as)"

lemma attrs_bytes_simps [simp]: "attrs_bytes [] = []" "attrs_bytes ((t, dat) # as) = attr_bytes t dat @ attrs_bytes as"
  "attrs_bytes (as @ bs) = attrs_bytes as @ attrs_bytes bs"
  by (simp_all add: attrs_bytes_def)

lemma attr_loop_fold:
  assumes "\<And>t dat behind d. (t, dat) \<in> set as \<Longrightarrow> cb \<lparr> nla_type = t, nla_data = dat, nla_behind = behind \<rparr> d = Some (1, f (t, dat) d)"
    and "\<forall>(t, dat) \<in> set as. 4 + length dat < 2 ^ 16"
  shows "attr_loop cb (pre @ attrs_bytes as @ rest) (length pre) (length pre + length (attrs_bytes as)) ret d =
    Some (if as = [] then ret else 1, fold f as d)"
  using assms
proof (induction as arbitrary: pre ret d)
  case Nil
  then show ?case by (simp add: attr_loop_end)
next
  case (Cons a as)
  obtain t dat where a: "a = (t, dat)" by (cases a)
  let ?m = "pre @ attr_bytes t dat @ (attrs_bytes as @ rest)" and ?tail = "length pre + length (attrs_bytes ((t, dat) # as))"
  have "attr_loop cb ?m (length pre) ?tail ret d = attr_loop cb ?m (length (pre @ attr_bytes t dat)) ?tail 1 (f (t, dat) d)"
    by (subst attr_loop_step) (use Cons.prems a in auto)
  also have "\<dots> = attr_loop cb ((pre @ attr_bytes t dat) @ attrs_bytes as @ rest) (length (pre @ attr_bytes t dat))
      (length (pre @ attr_bytes t dat) + length (attrs_bytes as)) 1 (f (t, dat) d)" by (simp add: add.assoc)
  also have "\<dots> = Some (if as = [] then 1 else 1, fold f as (f (t, dat) d))" by (rule Cons.IH) (use Cons.prems in auto)
  finally show ?case by (simp add: a)
qed

lemma parse_nested_fold:
  assumes "\<And>t dat behind d. (t, dat) \<in> set as \<Longrightarrow> cb \<lparr> nla_type = t, nla_data = dat, nla_behind = behind \<rparr> d = Some (1, f (t, dat) d)"
    and "\<forall>(t, dat) \<in> set as. 4 + length dat < 2 ^ 16"
  shows "mnl_attr_parse_nested \<lparr> nla_type = t0, nla_data = attrs_bytes as, nla_behind = behind \<rparr> cb d = Some (1, fold f as d)"
proof -
  have "attr_loop cb ([] @ attrs_bytes as @ behind) (length ([] :: u8 list)) (length ([] :: u8 list) + length (attrs_bytes as)) 1 d = Some (if as = [] then 1 else 1, fold f as d)"
    by (rule attr_loop_fold) (use assms in auto)
  then show ?thesis by (simp add: mnl_attr_parse_nested_def)
qed

end
