(* ===== verification/Linux_Write.thy ===== *)
theory Linux_Write
  imports Linux_Ipc Netlink_Facts
begin

text \<open>
  What \<^verbatim>\<open>kernel_set_device\<close> writes: every message stays in its buffer and holds pieces of the list of peers, which together are the whole
  list. A piece is a peer, whether it is the first of that peer, and the allowed IPs it carries, if it has the attribute for them.
\<close>

section \<open>Attributes\<close>

type_synonym attrs = "(nat \<times> u8 list) list"

definition enc :: "attrs \<Rightarrow> u8 list" where
  "enc as = attrs_bytes (map (\<lambda>(t, dat). (of_nat t, dat)) as)"

lemma enc_simps [simp]: "enc [] = []" "enc ((t, dat) # as) = attr_bytes (of_nat t) dat @ enc as" "enc (as @ bs) = enc as @ enc bs"
  by (simp_all add: enc_def)

lemma enc_mod [simp]: "length (enc as) mod 4 = 0"
  by (induction as) (auto simp: mod_add_eq[symmetric])

definition nest_bytes :: "nat \<Rightarrow> u8 list \<Rightarrow> u8 list" where
  "nest_bytes t bs = attr_bytes (NLA_F_NESTED OR of_nat t) bs"

lemma nest_bytes_eq: "length bs mod 4 = 0 \<Longrightarrow> nest_bytes t bs = le_bytes 2 (4 + length bs) @ le_bytes 2 (unat (NLA_F_NESTED OR of_nat t)) @ bs"
  by (simp add: nest_bytes_def attr_bytes_def)

lemma length_nest_bytes [simp]: "length bs mod 4 = 0 \<Longrightarrow> length (nest_bytes t bs) = 4 + length bs"
  by (simp add: nest_bytes_def)

definition allowedip_attrs :: "wgallowedip \<Rightarrow> attrs" where
  "allowedip_attrs a =
     [(WGALLOWEDIP_A_FAMILY, le_bytes 2 (family_num (ip a)))] @
     (case ip a of AF_INET i \<Rightarrow> [(WGALLOWEDIP_A_IPADDR, be_bytes 4 (unat i))] | AF_INET6 i \<Rightarrow> [(WGALLOWEDIP_A_IPADDR, be_bytes 16 (unat i))]
      | AF_UNSPEC \<Rightarrow> []) @
     [(WGALLOWEDIP_A_CIDR_MASK, le_bytes 1 (unat (cidr a)))] @
     (if a_flags a \<noteq> 0 then [(WGALLOWEDIP_A_FLAGS, le_bytes 4 (unat (a_flags a)))] else [])"

definition peer_attrs :: "wgpeer \<Rightarrow> bool \<Rightarrow> attrs" where
  "peer_attrs p fresh =
     [(WGPEER_A_PUBLIC_KEY, public_key p)] @
     (if fresh then
        (if flag_test (p_flags p) WGPEER_HAS_PRESHARED_KEY then [(WGPEER_A_PRESHARED_KEY, preshared_key p)] else []) @
        (if endpoint p \<noteq> SaUnspec then [(WGPEER_A_ENDPOINT, sockaddr_bytes (endpoint p))] else []) @
        (if flag_test (p_flags p) WGPEER_HAS_PERSISTENT_KEEPALIVE_INTERVAL
         then [(WGPEER_A_PERSISTENT_KEEPALIVE_INTERVAL, le_bytes 2 (unat (persistent_keepalive_interval p)))] else [])
      else []) @
     (if peer_flags p fresh \<noteq> 0 then [(WGPEER_A_FLAGS, le_bytes 4 (unat (peer_flags p fresh)))] else [])"

definition allowedip_bytes :: "wgallowedip \<Rightarrow> u8 list" where
  "allowedip_bytes a = nest_bytes 0 (enc (allowedip_attrs a))"

definition allowedips_bytes :: "wgallowedip list \<Rightarrow> u8 list" where
  "allowedips_bytes as = concat (map allowedip_bytes as)"

lemma allowedips_bytes_simps [simp]: "allowedips_bytes [] = []" "allowedips_bytes (a # as) = allowedip_bytes a @ allowedips_bytes as"
  by (simp_all add: allowedips_bytes_def)

lemma allowedip_bytes_mod [simp]: "length (allowedip_bytes a) mod 4 = 0"
  by (simp add: allowedip_bytes_def mod_add_eq[symmetric])

lemma allowedips_bytes_mod [simp]: "length (allowedips_bytes as) mod 4 = 0"
  by (induction as) (simp_all add: mod_add_eq[symmetric])

type_synonym piece = "wgpeer \<times> bool \<times> wgallowedip list option"

definition piece_bytes :: "piece \<Rightarrow> u8 list" where
  "piece_bytes = (\<lambda>(p, fresh, als).
     nest_bytes 0 (enc (peer_attrs p fresh) @ (case als of None \<Rightarrow> [] | Some as \<Rightarrow> nest_bytes WGPEER_A_ALLOWEDIPS (allowedips_bytes as))))"

definition pieces_bytes :: "piece list \<Rightarrow> u8 list" where
  "pieces_bytes pcs = concat (map piece_bytes pcs)"

lemma pieces_bytes_simps [simp]: "pieces_bytes [] = []" "pieces_bytes (x # pcs) = piece_bytes x @ pieces_bytes pcs"
  by (simp_all add: pieces_bytes_def)

lemma piece_body_mod: "length (enc (peer_attrs p fresh) @ (case als of None \<Rightarrow> [] | Some as \<Rightarrow> nest_bytes WGPEER_A_ALLOWEDIPS (allowedips_bytes as))) mod 4 = 0"
  by (cases als) (simp_all add: mod_add_eq[symmetric])

lemma piece_bytes_mod [simp]: "length (piece_bytes x) mod 4 = 0"
  using piece_body_mod unfolding piece_bytes_def by (cases x) (simp add: mod_add_eq[symmetric])

lemma pieces_bytes_mod [simp]: "length (pieces_bytes pcs) mod 4 = 0"
  by (induction pcs) (simp_all add: mod_add_eq[symmetric])

section \<open>Checked steps\<close>

definition put_steps :: "nat \<Rightarrow> attrs \<Rightarrow> (nlmsghdr \<Rightarrow> stop + nlmsghdr) list" where
  "put_steps n as = map (\<lambda>(t, dat). put_step n t dat) as"

lemma allowedip_steps_eq: "allowedip_steps n a = put_steps n (allowedip_attrs a)"
  by (simp add: allowedip_steps_def put_steps_def allowedip_attrs_def split: ip_addr.split)

lemma peer_steps_eq: "peer_steps n p fresh = put_steps n (peer_attrs p fresh)"
  by (simp add: peer_steps_def put_steps_def peer_attrs_def)

text \<open>A sequence of checked steps writes all its attributes, or stops for lack of room.\<close>

lemma run_put_steps:
  assumes "msg_ok h"
  shows "(\<exists>h'. run_steps (put_steps (msg_room h) as) h = Inr h' \<and> grows h (enc as) h') \<and> msg_size h + length (enc as) \<le> msg_room h \<or>
    (\<exists>h' bs. run_steps (put_steps (msg_room h) as) h = Inl (TooBig h') \<and> grows h bs h') \<and> msg_room h < msg_size h + length (enc as)"
  using assms
proof (induction as arbitrary: h)
  case Nil
  then show ?case using grows_refl by (auto simp: put_steps_def msg_ok_def)
next
  case (Cons a as)
  obtain t dat where a: "a = (t, dat)" by (cases a)
  show ?case
  proof (cases "msg_size h + 4 + MNL_ALIGN (length dat) \<le> msg_room h")
    case False
    then have "put_step (msg_room h) t dat h = Inl (TooBig h)" by (simp add: put_step_def checked_def mnl_attr_put_check_def)
    then show ?thesis using False grows_refl[OF Cons.prems] by (fastforce simp: put_steps_def a)
  next
    case True
    obtain h1 where h1: "mnl_attr_put h (of_nat t) dat = Some h1" "grows h (attr_bytes (of_nat t) dat) h1"
      using attr_put_grows[OF Cons.prems True] by blast
    have g: "msg_size h1 = msg_size h + length (attr_bytes (of_nat t) dat)" "msg_room h1 = msg_room h" "msg_ok h1" using growsD[OF Cons.prems h1(2)] .
    have "put_step (msg_room h) t dat h = Inr h1" using True h1(1) by (simp add: put_step_def checked_def mnl_attr_put_check_def)
    then have r: "run_steps (put_steps (msg_room h) (a # as)) h = run_steps (put_steps (msg_room h1) as) h1" using g(2) by (simp add: put_steps_def a)
    have tr: "grows h (attr_bytes (of_nat t) dat @ bs) h'" if "grows h1 bs h'" for bs h' using grows_trans[OF h1(2) that] .
    show ?thesis unfolding r using Cons.IH[OF g(3)] tr g(1,2) unfolding a by (simp add: add.assoc) blast
  qed
qed

lemma nest_start_check:
  assumes "msg_ok h"
  shows "msg_room h < msg_size h + 4 \<and> mnl_attr_nest_start_check h (msg_room h) t = Some (None, h) \<or>
    (\<exists>x h'. msg_size h + 4 \<le> msg_room h \<and> mnl_attr_nest_start_check h (msg_room h) t = Some (Some (msg_size h), h') \<and> length x = 2 \<and>
       grows h (x @ le_bytes 2 (unat (NLA_F_NESTED OR t))) h')"
proof (cases "msg_size h + 4 \<le> msg_room h")
  case True
  obtain x h' where "mnl_attr_nest_start h t = Some (msg_size h, h')" "length x = 2" "grows h (x @ le_bytes 2 (unat (NLA_F_NESTED OR t))) h'"
    using nest_start_grows[OF assms True] .
  then show ?thesis using True by (auto simp: mnl_attr_nest_start_check_def)
qed (simp add: mnl_attr_nest_start_check_def)

text \<open>Closing a nest.\<close>

lemma nest_closes:
  assumes "msg_ok h" "length x = 2" "grows h (x @ le_bytes 2 (unat (NLA_F_NESTED OR of_nat t))) h1" "grows h1 bs h2" "length bs mod 4 = 0"
  obtains h3 where "mnl_attr_nest_end h2 (msg_size h) = Some h3" "grows h (nest_bytes t bs) h3"
proof -
  have "grows h (x @ le_bytes 2 (unat (NLA_F_NESTED OR of_nat t)) @ bs) h2" using grows_trans[OF assms(3,4)] by simp
  from nest_end_grows[OF assms(1) this assms(2)] show thesis using that assms(5) by (auto simp: nest_bytes_eq)
qed


section \<open>Allowed IPs\<close>

lemma put_allowedips_spec:
  assumes "msg_ok h"
  shows "\<exists>k h'. put_allowedips (msg_room h) as h = Some (h', drop k as) \<and> k \<le> length as \<and> grows h (allowedips_bytes (take k as)) h' \<and>
    (k < length as \<longrightarrow> msg_room h < msg_size h' + length (allowedip_bytes (as ! k)))"
  using assms
proof (induction as arbitrary: h)
  case Nil
  then show ?case using grows_refl by auto
next
  case (Cons a as)
  consider "msg_room h < msg_size h + 4" "mnl_attr_nest_start_check h (msg_room h) 0 = Some (None, h)"
    | x h1 where "mnl_attr_nest_start_check h (msg_room h) 0 = Some (Some (msg_size h), h1)" "length x = 2"
        "grows h (x @ le_bytes 2 (unat (NLA_F_NESTED OR of_nat 0))) h1"
    using nest_start_check[OF Cons.prems, of 0] by auto
  then show ?case
  proof cases
    case 1
    then show ?thesis using grows_refl[OF Cons.prems] by (intro exI[of _ 0] exI[of _ h]) (simp add: allowedip_bytes_def)
  next
    case 2
    have g1: "msg_size h1 = msg_size h + 4" "msg_room h1 = msg_room h" "msg_ok h1" using growsD[OF Cons.prems 2(3)] 2(2) by simp_all
    have len: "length (allowedip_bytes a) = 4 + length (enc (allowedip_attrs a))" by (simp add: allowedip_bytes_def)
    consider h2 where "run_steps (put_steps (msg_room h1) (allowedip_attrs a)) h1 = Inr h2" "grows h1 (enc (allowedip_attrs a)) h2"
      | h2 bs where "run_steps (put_steps (msg_room h1) (allowedip_attrs a)) h1 = Inl (TooBig h2)" "grows h1 bs h2"
          "msg_room h1 < msg_size h1 + length (enc (allowedip_attrs a))"
      using run_put_steps[OF g1(3), of "allowedip_attrs a"] by blast
    then show ?thesis
    proof cases
      case (1 h2)
      obtain h3 where h3: "mnl_attr_nest_end h2 (msg_size h) = Some h3" "grows h (allowedip_bytes a) h3"
        using nest_closes[OF Cons.prems 2(2,3) 1(2)] by (auto simp: allowedip_bytes_def)
      have g3: "msg_room h3 = msg_room h" "msg_ok h3" using growsD[OF Cons.prems h3(2)] by simp_all
      have r: "put_allowedips (msg_room h) (a # as) h = put_allowedips (msg_room h3) as h3"
        using 2(1) 1(1) h3(1) g1(2) g3(1) by (simp add: allowedip_steps_eq)
      obtain k h' where k: "put_allowedips (msg_room h3) as h3 = Some (h', drop k as)" "k \<le> length as" "grows h3 (allowedips_bytes (take k as)) h'"
        "k < length as \<longrightarrow> msg_room h3 < msg_size h' + length (allowedip_bytes (as ! k))"
        using Cons.IH[OF g3(2)] by blast
      show ?thesis unfolding r using k grows_trans[OF h3(2) k(3)] g3(1) by (intro exI[of _ "Suc k"] exI[of _ h']) simp
    next
      case (2 h2 bs)
      have "grows h [] (mnl_attr_nest_cancel h2 (msg_size h))"
        using nest_cancel_grows[OF Cons.prems grows_trans[OF \<open>grows h _ h1\<close> 2(2)]] .
      then show ?thesis using 2(1,3) g1 growsD[OF Cons.prems] \<open>mnl_attr_nest_start_check h _ 0 = _\<close> len
        by (intro exI[of _ 0] exI[of _ "mnl_attr_nest_cancel h2 (msg_size h)"]) (simp add: allowedip_steps_eq)
    qed
  qed
qed


section \<open>Peers\<close>

definition rest_of :: "wgpeer \<Rightarrow> wgallowedip list \<Rightarrow> wgallowedip list" where
  "rest_of p al = (if al = [] then allowedips p else al)"

text \<open>How pieces cover the peers from a position on up to another.\<close>

inductive covers :: "wgpeer list \<times> wgallowedip list \<Rightarrow> piece list \<Rightarrow> wgpeer list \<times> wgallowedip list \<Rightarrow> bool" where
  stop: "covers s [] s"
| plain: "allowedips p = [] \<Longrightarrow> covers (ps, al) pcs s \<Longrightarrow> covers (p # ps, al) ((p, al = [], None) # pcs) s"
| whole: "allowedips p \<noteq> [] \<Longrightarrow> covers (ps, []) pcs s \<Longrightarrow> covers (p # ps, al) ((p, al = [], Some (rest_of p al)) # pcs) s"
| none: "allowedips p \<noteq> [] \<Longrightarrow> covers (p # ps, al) [(p, al = [], None)] (p # ps, rest_of p al)"
| part: "allowedips p \<noteq> [] \<Longrightarrow> k < length (rest_of p al) \<Longrightarrow>
    covers (p # ps, al) [(p, al = [], Some (take k (rest_of p al)))] (p # ps, drop k (rest_of p al))"

text \<open>What one more peer needs at most.\<close>

definition peer_need :: "wgpeer \<Rightarrow> bool \<Rightarrow> nat" where
  "peer_need p fresh = 4 + length (enc (peer_attrs p fresh))"

text \<open>The pieces a message takes. It is empty only when there is no room for a peer without its allowed IPs, and where the peer is not
  fresh it carries an allowed IP when there is room for one.\<close>

lemma put_peers_spec:
  assumes "msg_ok h"
  shows "\<exists>pcs ps' al' h'. put_peers (msg_room h) ps al h = Some (h', ps', al') \<and> covers (ps, al) pcs (ps', al') \<and>
    grows h (pieces_bytes pcs) h' \<and>
    (ps \<noteq> [] \<longrightarrow> msg_size h + peer_need (hd ps) (al = []) \<le> msg_room h \<longrightarrow> pcs \<noteq> [] \<and>
       (al \<noteq> [] \<longrightarrow> allowedips (hd ps) \<noteq> [] \<longrightarrow> msg_size h + peer_need (hd ps) False + 4 + length (allowedip_bytes (hd al)) \<le> msg_room h \<longrightarrow>
          snd (snd (hd pcs)) \<noteq> None \<and> snd (snd (hd pcs)) \<noteq> Some []))"
  using assms
proof (induction ps arbitrary: al h)
  case Nil
  then show ?case using grows_refl[OF Nil.prems] covers.stop by fastforce
next
  case (Cons p ps)
  let ?fresh = "al = []" and ?n = "msg_room h"
  consider "?n < msg_size h + 4" "mnl_attr_nest_start_check h ?n 0 = Some (None, h)"
    | x h1 where "mnl_attr_nest_start_check h ?n 0 = Some (Some (msg_size h), h1)" "length x = 2"
        "grows h (x @ le_bytes 2 (unat (NLA_F_NESTED OR of_nat 0))) h1"
    using nest_start_check[OF Cons.prems, of 0] by auto
  then show ?case
  proof cases
    case 1
    then show ?thesis using grows_refl[OF Cons.prems] covers.stop by (intro exI[of _ "[]"] exI[of _ "p # ps"] exI[of _ al] exI[of _ h]) (simp add: peer_need_def)
  next
    case st: 2
    have g1: "msg_size h1 = msg_size h + 4" "msg_room h1 = ?n" "msg_ok h1" using growsD[OF Cons.prems st(3)] st(2) by simp_all
    consider (big) h2 bs where "run_steps (put_steps (msg_room h1) (peer_attrs p ?fresh)) h1 = Inl (TooBig h2)" "grows h1 bs h2"
          "msg_room h1 < msg_size h1 + length (enc (peer_attrs p ?fresh))"
      | (ok) h2 where "run_steps (put_steps (msg_room h1) (peer_attrs p ?fresh)) h1 = Inr h2" "grows h1 (enc (peer_attrs p ?fresh)) h2"
      using run_put_steps[OF g1(3), of "peer_attrs p ?fresh"] by blast
    then show ?thesis
    proof cases
      case big
      have c: "grows h [] (mnl_attr_nest_cancel h2 (msg_size h))" using nest_cancel_grows[OF Cons.prems grows_trans[OF st(3) big(2)]] .
      have r: "put_peers ?n (p # ps) al h = Some (mnl_attr_nest_cancel h2 (msg_size h), p # ps, al)"
        using st(1) big(1) g1(2) by (simp add: peer_steps_eq)
      show ?thesis unfolding r using c big(3) g1 covers.stop by - (rule exI[of _ "[]"], auto simp: peer_need_def)
    next
      case ok
      have g2: "msg_size h2 = msg_size h1 + length (enc (peer_attrs p ?fresh))" "msg_room h2 = ?n" "msg_ok h2"
        using growsD[OF g1(3) ok(2)] g1(2) by simp_all
      have body: "grows h1 (enc (peer_attrs p ?fresh) @ bs) h'" if "grows h2 bs h'" for bs h' using grows_trans[OF ok(2) that] .
      show ?thesis
      proof (cases "allowedips p = []")
        case True
        obtain h3 where h3: "mnl_attr_nest_end h2 (msg_size h) = Some h3" "grows h (piece_bytes (p, ?fresh, None)) h3"
          using nest_closes[OF Cons.prems st(2,3) ok(2)] by (auto simp: piece_bytes_def)
        have g3: "msg_room h3 = ?n" "msg_ok h3" using growsD[OF Cons.prems h3(2)] by simp_all
        have r: "put_peers ?n (p # ps) al h = put_peers (msg_room h3) ps al h3" using st(1) ok(1) h3(1) g1(2) g3(1) True by (simp add: peer_steps_eq)
        obtain pcs ps' al' h' where i: "put_peers (msg_room h3) ps al h3 = Some (h', ps', al')" "covers (ps, al) pcs (ps', al')" "grows h3 (pieces_bytes pcs) h'"
          using Cons.IH[OF g3(2), of al] by blast
        show ?thesis unfolding r i(1) using covers.plain[OF True i(2)] grows_trans[OF h3(2) i(3)] True
          by - (rule exI[of _ "(p, ?fresh, None) # pcs"], auto)
      next
        case False
        define al1 where "al1 = rest_of p al"
        have al1: "(if al = [] then allowedips p else al) = al1" "al1 \<noteq> []" using False by (simp_all add: al1_def rest_of_def)
        consider (no) "msg_room h2 < msg_size h2 + 4" "mnl_attr_nest_start_check h2 (msg_room h2) (of_nat 9) = Some (None, h2)"
          | (yes) y h3 where "mnl_attr_nest_start_check h2 (msg_room h2) (of_nat 9) = Some (Some (msg_size h2), h3)" "length y = 2"
              "grows h2 (y @ le_bytes 2 (unat (NLA_F_NESTED OR of_nat 9))) h3"
          using nest_start_check[OF g2(3), of "of_nat 9"] by auto
        then show ?thesis
        proof cases
          case no
          obtain h3 where h3: "mnl_attr_nest_end h2 (msg_size h) = Some h3" "grows h (piece_bytes (p, ?fresh, None)) h3"
            using nest_closes[OF Cons.prems st(2,3) ok(2)] by (auto simp: piece_bytes_def)
          have r: "put_peers ?n (p # ps) al h = Some (h3, p # ps, al1)"
            using st(1) ok(1) h3(1) g1(2) g2(2) no(2) False al1 by (simp add: peer_steps_eq)
          show ?thesis unfolding r using covers.none[OF False, of ps al] h3(2) no(1) g1 g2 
            by - (rule exI[of _ "[(p, ?fresh, None)]"], auto simp: al1_def peer_need_def)
        next
          case yes
          have g3: "msg_size h3 = msg_size h2 + 4" "msg_room h3 = ?n" "msg_ok h3" using growsD[OF g2(3) yes(3)] yes(2) g2(2) by simp_all
          obtain k h4 where k: "put_allowedips (msg_room h3) al1 h3 = Some (h4, drop k al1)" "k \<le> length al1" "grows h3 (allowedips_bytes (take k al1)) h4"
            "k < length al1 \<longrightarrow> msg_room h3 < msg_size h4 + length (allowedip_bytes (al1 ! k))"
            using put_allowedips_spec[OF g3(3), of al1] by blast
          have g4: "msg_size h4 = msg_size h3 + length (allowedips_bytes (take k al1))" using growsD(1)[OF g3(3) k(3)] .
          obtain h5 where h5: "mnl_attr_nest_end h4 (msg_size h2) = Some h5" "grows h2 (nest_bytes 9 (allowedips_bytes (take k al1))) h5"
            using nest_closes[OF g2(3) yes(2,3) k(3)] by auto
          let ?pc = "(p, ?fresh, Some (take k al1))"
          obtain h6 where h6: "mnl_attr_nest_end h5 (msg_size h) = Some h6" "grows h (piece_bytes ?pc) h6"
            using nest_closes[OF Cons.prems st(2,3) body[OF h5(2)]] by (auto simp: piece_bytes_def mod_add_eq[symmetric])
          have g6: "msg_room h6 = ?n" "msg_ok h6" using growsD[OF Cons.prems h6(2)] by simp_all
          have r: "put_peers ?n (p # ps) al h = (if drop k al1 = [] then put_peers (msg_room h6) ps [] h6 else Some (h6, p # ps, drop k al1))"
            using st(1) ok(1) g1(2) g2(2) g3(2) g6(1) yes(1) k(1) h5(1) h6(1) False al1 by (simp add: peer_steps_eq)
          have pos: "take k al1 \<noteq> []" if "al \<noteq> []" "msg_size h + peer_need p False + 4 + length (allowedip_bytes (hd al)) \<le> ?n"
          proof
            assume "take k al1 = []"
            then have "k = 0" using al1(2) by simp
            then have "?n < msg_size h3 + length (allowedip_bytes (hd al1))" using k(4) g3(2) g4 al1(2) by (simp add: hd_conv_nth)
            then show False using that g1 g2 g3 by (simp add: al1_def rest_of_def peer_need_def)
          qed
          show ?thesis
          proof (cases "drop k al1 = []")
            case True
            obtain pcs ps' al' h' where i: "put_peers (msg_room h6) ps [] h6 = Some (h', ps', al')" "covers (ps, []) pcs (ps', al')" "grows h6 (pieces_bytes pcs) h'"
              using Cons.IH[OF g6(2), of "[]"] by blast
            have "take k al1 = rest_of p al" using True k(2) by (simp add: al1_def)
            then show ?thesis unfolding r i(1) using covers.whole[OF False i(2), of al] grows_trans[OF h6(2) i(3)] True i(1) pos
              by - (rule exI[of _ "?pc # pcs"], auto)
          next
            case F: False
            then show ?thesis unfolding r using covers.part[OF False, of k al ps] h6(2) pos
              by - (rule exI[of _ "[?pc]"], auto simp: al1_def)
          qed
        qed
      qed
    qed
  qed
qed

end
