(* ===== verification/Linux_Send.thy ===== *)
theory Linux_Send
  imports Linux_Write
begin

text \<open>
  The whole exchange of \<^verbatim>\<open>kernel_set_device\<close>: it ends, its messages fit the buffer, and their pieces are the whole device.
\<close>

section \<open>Positions\<close>

definition position_ok :: "wgpeer list \<times> wgallowedip list \<Rightarrow> bool" where
  "position_ok s \<longleftrightarrow> (snd s \<noteq> [] \<longrightarrow> fst s \<noteq> [] \<and> allowedips (hd (fst s)) \<noteq> [])"

fun remaining :: "wgpeer list \<times> wgallowedip list \<Rightarrow> nat" where
  "remaining ([], al) = 0"
| "remaining (p # ps, al) = (if al = [] then 2 + length (allowedips p) else 1 + length al) + sum_list (map (\<lambda>p. 2 + length (allowedips p)) ps)"

lemma remaining_fresh: "remaining (ps, []) = sum_list (map (\<lambda>p. 2 + length (allowedips p)) ps)"
  by (cases ps) simp_all

lemma covers_keeps:
  "covers s pcs s' \<Longrightarrow> position_ok s \<Longrightarrow> position_ok s' \<and> remaining s' \<le> remaining s \<and> set (fst s') \<subseteq> set (fst s) \<and>
     (\<forall>x \<in> set pcs. fst x \<in> set (fst s)) \<and> (fst s' = [] \<longrightarrow> snd s' = [])"
proof (induction rule: covers.induct)
  case (stop s)
  then show ?case by (auto simp: position_ok_def)
next
  case (plain p ps al pcs s)
  then have "al = []" by (auto simp: position_ok_def)
  then show ?case using plain by (auto simp: position_ok_def remaining_fresh)
next
  case (whole p ps pcs s al)
  then show ?case by (auto simp: position_ok_def remaining_fresh)
next
  case (none p ps al)
  then show ?case by (auto simp: position_ok_def rest_of_def)
next
  case (part p k al ps)
  then show ?case by (auto simp: position_ok_def rest_of_def)
qed

text \<open>Every message that takes a piece gets on.\<close>

lemma covers_progress:
  assumes "covers s pcs s'" "position_ok s" "pcs \<noteq> []" "snd s \<noteq> [] \<Longrightarrow> snd (snd (hd pcs)) \<noteq> None \<and> snd (snd (hd pcs)) \<noteq> Some []"
  shows "remaining s' < remaining s"
  using assms
proof (cases rule: covers.cases)
  case (plain p ps al pcs)
  then have "al = []" using assms(2) by (auto simp: position_ok_def)
  then show ?thesis using plain covers_keeps[OF plain(4)] by (auto simp: position_ok_def remaining_fresh)
next
  case (whole p ps pcs al)
  then show ?thesis using covers_keeps[OF whole(4)] by (auto simp: position_ok_def remaining_fresh)
next
  case (none p ps al)
  then show ?thesis using assms(4) by (auto simp: rest_of_def)
next
  case (part p k al ps)
  then have "al \<noteq> [] \<Longrightarrow> 0 < k" using assms(4) by auto
  then show ?thesis using part by (auto simp: rest_of_def)
qed simp


section \<open>Sizes\<close>

lemma align_small [simp]: "MNL_ALIGN 0 = 0" "MNL_ALIGN 1 = 4" "MNL_ALIGN 2 = 4" "MNL_ALIGN (Suc 0) = 4"
  by (simp_all add: MNL_ALIGN_def)

lemma length_sockaddr_bytes: "length (sockaddr_bytes sa) = (case sa of SaUnspec \<Rightarrow> 0 | SaIn _ _ \<Rightarrow> 16 | SaIn6 _ _ _ _ \<Rightarrow> 28)"
  by (cases sa) (simp_all add: sockaddr_bytes_def)

lemma peer_need_le: "wf_peer p \<Longrightarrow> peer_need p fresh \<le> 124"
  by (cases "endpoint p") (auto simp: peer_need_def peer_attrs_def wf_peer_def length_sockaddr_bytes)

lemma allowedip_bytes_le: "length (allowedip_bytes a) \<le> 48"
  by (cases "ip a") (auto simp: allowedip_bytes_def allowedip_attrs_def)

definition device_attrs :: "wgdevice \<Rightarrow> attrs" where
  "device_attrs dev =
     (if flag_test (d_flags dev) WGDEVICE_HAS_PRIVATE_KEY then [(WGDEVICE_A_PRIVATE_KEY, private_key dev)] else []) @
     (if flag_test (d_flags dev) WGDEVICE_HAS_LISTEN_PORT then [(WGDEVICE_A_LISTEN_PORT, le_bytes 2 (unat (listen_port dev)))] else []) @
     (if flag_test (d_flags dev) WGDEVICE_HAS_FWMARK then [(WGDEVICE_A_FWMARK, le_bytes 4 (unat (fwmark dev)))] else []) @
     (if flag_test (d_flags dev) WGDEVICE_REPLACE_PEERS then [(WGDEVICE_A_FLAGS, le_bytes 4 (unat WGDEVICE_F_REPLACE_PEERS))] else [])"

definition message_attrs :: "wgdevice \<Rightarrow> bool \<Rightarrow> attrs" where
  "message_attrs dev first = (WGDEVICE_A_IFNAME, str_bytes (name dev) @ [0]) # (if first then device_attrs dev else [])"

lemma length_str_bytes [simp]: "length (str_bytes s) = length s"
  by (simp add: str_bytes_def)

lemma message_attrs_le: "wf_device dev \<Longrightarrow> length (enc (message_attrs dev first)) \<le> 80"
proof -
  assume w: "wf_device dev"
  then have "length (name dev) + 1 \<le> 16" by (simp add: wf_device_def)
  then have "MNL_ALIGN (length (name dev) + 1) \<le> 16" unfolding MNL_ALIGN_def by presburger
  then show ?thesis using w by (auto simp: message_attrs_def device_attrs_def wf_device_def)
qed


section \<open>One message\<close>

text \<open>Attributes that are put without a check.\<close>

fun put_all :: "attrs \<Rightarrow> nlmsghdr \<Rightarrow> nlmsghdr option" where
  "put_all [] h = Some h"
| "put_all ((t, dat) # as) h = Option.bind (mnl_attr_put h (of_nat t) dat) (put_all as)"

lemma put_all_append: "put_all (as @ bs) h = Option.bind (put_all as h) (put_all bs)"
proof (induction as arbitrary: h)
  case (Cons a as)
  then have "put_all (as @ bs) = (\<lambda>h. Option.bind (put_all as h) (put_all bs))" by auto
  then show ?case by (cases a) simp
qed simp

lemma put_all_grows: "msg_ok h \<Longrightarrow> msg_size h + length (enc as) \<le> msg_room h \<Longrightarrow> \<exists>h'. put_all as h = Some h' \<and> grows h (enc as) h'"
proof (induction as arbitrary: h)
  case (Cons a as)
  obtain t dat where a: "a = (t, dat)" by (cases a)
  obtain h1 where h1: "mnl_attr_put h (of_nat t) dat = Some h1" "grows h (attr_bytes (of_nat t) dat) h1"
    using attr_put_grows[OF Cons.prems(1), of dat] Cons.prems(2) unfolding a by auto
  have g: "msg_ok h1" "msg_size h1 + length (enc as) \<le> msg_room h1" using growsD[OF Cons.prems(1) h1(2)] Cons.prems(2) unfolding a by simp_all
  show ?case using Cons.IH[OF g] h1 grows_trans[OF h1(2)] unfolding a by auto
qed (auto intro: grows_refl)

lemma put_device_all: "put_device dev h = put_all (device_attrs dev) h"
  by (simp add: put_device_def device_attrs_def put_all_append put_when_def Option.bind_assoc cong: Option.bind_cong)

definition message_body :: "wgdevice \<Rightarrow> bool \<Rightarrow> piece list \<Rightarrow> u8 list" where
  "message_body dev first pcs =
     enc (message_attrs dev first) @ (if peers dev = [] then [] else nest_bytes WGDEVICE_A_PEERS (pieces_bytes pcs))"

definition position :: "wgdevice \<Rightarrow> (wgpeer list \<times> wgallowedip list) option \<Rightarrow> wgpeer list \<times> wgallowedip list" where
  "position dev pos = (case pos of None \<Rightarrow> (peers dev, []) | Some s \<Rightarrow> s)"

text \<open>The first piece carries an allowed IP.\<close>

definition gets_on :: "piece list \<Rightarrow> bool" where
  "gets_on pcs \<longleftrightarrow> pcs \<noteq> [] \<and> snd (snd (hd pcs)) \<noteq> None \<and> snd (snd (hd pcs)) \<noteq> Some []"

lemma put_message_spec:
  assumes "msg_ok h" "msg_size h = 20" "280 \<le> msg_room h" "wf_device dev" "position_ok (position dev pos)" "set (fst (position dev pos)) \<subseteq> set (peers dev)"
  shows "\<exists>h' pcs s'. put_message (msg_room h) dev pos h = Some (h', s') \<and> grows h (message_body dev (pos = None) pcs) h' \<and>
    (if peers dev = [] then pcs = [] \<and> s' = ([], []) else covers (position dev pos) pcs s') \<and>
    (fst (position dev pos) \<noteq> [] \<longrightarrow> peers dev \<noteq> [] \<longrightarrow> remaining s' < remaining (position dev pos)) \<and>
    (peers dev \<noteq> [] \<longrightarrow> snd (position dev pos) \<noteq> [] \<longrightarrow> gets_on pcs)"
proof -
  let ?as = "message_attrs dev (pos = None)"
  have len: "length (enc ?as) \<le> 80" by (rule message_attrs_le[OF assms(4)])
  then obtain h1 where h1: "put_all ?as h = Some h1" "grows h (enc ?as) h1" using put_all_grows[OF assms(1), of ?as] assms(2,3) by auto
  have g1: "msg_size h1 = 20 + length (enc ?as)" "msg_room h1 = msg_room h" "msg_ok h1" using growsD[OF assms(1) h1(2)] assms(2) by simp_all
  have p1: "Option.bind (mnl_attr_put_strz h (of_nat WGDEVICE_A_IFNAME) (name dev)) (\<lambda>h. Option.bind (if pos = None then put_device dev h else Some h) f) = f h1" for f :: "nlmsghdr \<Rightarrow> 'x option"
  proof -
    have "Option.bind (mnl_attr_put_strz h (of_nat WGDEVICE_A_IFNAME) (name dev)) (\<lambda>h. if pos = None then put_device dev h else Some h) = Some h1"
      using h1(1) by (cases pos; cases "mnl_attr_put h 2 (str_bytes (name dev) @ [0])") (simp_all add: message_attrs_def mnl_attr_put_strz_def put_device_all)
    then show ?thesis by (metis Option.bind_assoc Option.bind.bind_lunit)
  qed
  show ?thesis
  proof (cases "peers dev = []")
    case True
    have "put_message (msg_room h) dev pos h = Some (h1, [], [])" unfolding put_message_def p1 using True by simp
    then show ?thesis using h1(2) True by (auto simp: message_body_def)
  next
    case False
    have room: "msg_size h1 + 4 \<le> msg_room h1" using g1 len assms(3) by linarith
    obtain x h2 where st: "mnl_attr_nest_start h1 (of_nat WGDEVICE_A_PEERS) = Some (msg_size h1, h2)" "length x = 2"
      "grows h1 (x @ le_bytes 2 (unat (NLA_F_NESTED OR of_nat WGDEVICE_A_PEERS))) h2"
      using nest_start_grows[OF g1(3) room] .
    have g2: "msg_size h2 = msg_size h1 + 4" "msg_room h2 = msg_room h" "msg_ok h2" using growsD[OF g1(3) st(3)] g1(2) st(2) by simp_all
    define ps al where "ps = fst (position dev pos)" and "al = snd (position dev pos)"
    have pos: "position dev pos = (ps, al)" by (simp add: ps_def al_def)
    obtain pcs ps' al' h3 where pp: "put_peers (msg_room h2) ps al h2 = Some (h3, ps', al')" "covers (ps, al) pcs (ps', al')" "grows h2 (pieces_bytes pcs) h3"
      "ps \<noteq> [] \<longrightarrow> msg_size h2 + peer_need (hd ps) (al = []) \<le> msg_room h2 \<longrightarrow> pcs \<noteq> [] \<and>
       (al \<noteq> [] \<longrightarrow> allowedips (hd ps) \<noteq> [] \<longrightarrow> msg_size h2 + peer_need (hd ps) False + 4 + length (allowedip_bytes (hd al)) \<le> msg_room h2 \<longrightarrow>
          snd (snd (hd pcs)) \<noteq> None \<and> snd (snd (hd pcs)) \<noteq> Some [])"
      using put_peers_spec[OF g2(3), of ps al] by blast
    obtain h4 where h4: "mnl_attr_nest_end h3 (msg_size h1) = Some h4" "grows h1 (nest_bytes WGDEVICE_A_PEERS (pieces_bytes pcs)) h4"
      using nest_closes[OF g1(3) st(2,3) pp(3)] by auto
    have "put_message (msg_room h) dev pos h = Some (h4, ps', al')"
      unfolding put_message_def p1 using False st(1) pp(1) h4(1) g2(2) pos by (simp add: position_def)
    moreover have "grows h (message_body dev (pos = None) pcs) h4" using grows_trans[OF h1(2) h4(2)] False by (simp add: message_body_def)
    moreover have p: "pcs \<noteq> [] \<and> (al \<noteq> [] \<longrightarrow> gets_on pcs)" if "ps \<noteq> []"
    proof -
      have "hd ps \<in> set (peers dev)" using assms(6) that hd_in_set[of ps] unfolding ps_def by blast
      then have "wf_peer (hd ps)" using assms(4) by (simp add: wf_device_def list_all_iff)
      then have need: "peer_need (hd ps) b \<le> 124" for b by (rule peer_need_le)
      show ?thesis
        using pp(4) that need[of False] need[of "al = []"] allowedip_bytes_le[of "hd al"] g2 g1 len assms(3,5) pos
        by (auto simp: position_ok_def gets_on_def)
    qed
    moreover have "remaining (ps', al') < remaining (ps, al)" if "ps \<noteq> []"
      by (rule covers_progress[OF pp(2)]) (use p that assms(5) pos in \<open>auto simp: gets_on_def\<close>)
    moreover have "al \<noteq> [] \<longrightarrow> ps \<noteq> []" using assms(5) pos by (auto simp: position_ok_def)
    ultimately show ?thesis using pp(2) False pos by (intro exI[of _ h4] exI[of _ pcs] exI[of _ "(ps', al')"]) auto
  qed
qed


section \<open>Messages on the wire\<close>

text \<open>A message as it is sent: the header says its length, the generic header follows, and then the attributes.\<close>

definition carries :: "u8 list \<Rightarrow> u8 list \<Rightarrow> bool" where
  "carries m body \<longleftrightarrow> length m < 2 ^ 16 \<and> length m mod 4 = 0 \<and>
     (\<exists>hdr genl. m = hdr @ genl @ body \<and> length hdr = 16 \<and> length genl = 4 \<and> le_num (take 4 hdr) = length m)"

lemma length_hdr_bytes [simp]: "length (hdr_bytes h) = 16"
  by (simp add: hdr_bytes_def)

lemma prepare_ok:
  assumes "32 \<le> length (nlg_buf nlg)" "length (nlg_buf nlg) < 2 ^ 16"
  obtains h where "mnlg_msg_prepare sys nlg c fl i v = Some (nlg\<lparr> nlg_seq := sys_time sys \<rparr>, h)" "msg_ok h" "msg_size h = 20"
    "msg_room h = length (nlg_buf nlg)" "length (written h) = 4"
proof -
  define m where "m = drop 16 (nlg_buf nlg)"
  let ?h0 = "\<lparr> nlmsg_len = of_nat 16, nlmsg_type = i, nlmsg_flags = fl, nlmsg_seq = sys_time sys, nlmsg_pid = 0, nlmsg_mem = m \<rparr>"
  let ?h1 = "\<lparr> nlmsg_len = of_nat 16 + of_nat 4, nlmsg_type = i, nlmsg_flags = fl, nlmsg_seq = sys_time sys, nlmsg_pid = 0, nlmsg_mem = replicate 4 0 @ drop 4 m \<rparr>"
  let ?h2 = "\<lparr> nlmsg_len = 20, nlmsg_type = i, nlmsg_flags = fl, nlmsg_seq = sys_time sys, nlmsg_pid = 0, nlmsg_mem = [c, v, 0, 0] @ drop 4 m \<rparr>"
  have m: "take 4 m @ drop 4 m = m" "length (take 4 m) = 4" using assms(1) by (simp only: append_take_drop_id, simp add: m_def)
  have a: "poke ?h0 16 (replicate 4 0) = Some (?h0\<lparr> nlmsg_mem := [] @ replicate 4 0 @ drop 4 m \<rparr>)"
    by (rule poke_parts[of _ _ "take 4 m"]) (use m in simp_all)
  have "mnl_nlmsg_put_extra_header ?h0 4 = Some (16, ?h1)" unfolding mnl_nlmsg_put_extra_header_def Let_def using a by simp
  moreover have "poke ?h1 16 [c, v] = Some (?h1\<lparr> nlmsg_mem := [] @ [c, v] @ ([0, 0] @ drop 4 m) \<rparr>)"
    by (rule poke_parts[of _ _ "[0, 0]"]) (simp_all add: numeral_eq_Suc)
  ultimately have "mnlg_msg_prepare sys nlg c fl i v = Some (nlg\<lparr> nlg_seq := sys_time sys \<rparr>, ?h2)"
    using assms(1) by (simp add: mnlg_msg_prepare_def mnl_nlmsg_put_header_def m_def[symmetric])
  moreover have "msg_ok ?h2" "msg_room ?h2 = length (nlg_buf nlg)" "msg_size ?h2 = 20"
    using assms by (auto simp: msg_ok_def m_def)
  ultimately show thesis using that[of ?h2] length_written[of ?h2] by simp
qed

lemma sent_carries:
  assumes "msg_ok h" "length (written h) = 4" "grows h body h'"
  shows "carries (take (msg_size h') (msg_buffer h')) body" "length (take (msg_size h') (msg_buffer h')) \<le> msg_room h" "length (msg_buffer h') = msg_room h"
proof -
  have g: "msg_ok h'" "msg_room h' = msg_room h" using growsD[OF assms(1,3)] by simp_all
  then have s: "msg_size h' = 16 + length (written h')" using length_written[of h'] by (auto simp: msg_ok_def)
  have "take (msg_size h') (msg_buffer h') = hdr_bytes h' @ written h'" using g s unfolding msg_buffer_def written_def by simp
  moreover have "written h' = written h @ body" using assms(3) by (simp add: grows_def)
  ultimately have m: "take (msg_size h') (msg_buffer h') = hdr_bytes h' @ written h @ body" by simp
  then have len: "length (take (msg_size h') (msg_buffer h')) = msg_size h'" using s \<open>written h' = _\<close> by simp
  have "le_num (take 4 (hdr_bytes h')) = msg_size h'" using unat_below[of "nlmsg_len h'"] by (simp add: hdr_bytes_def)
  then have "take (msg_size h') (msg_buffer h') = hdr_bytes h' @ written h @ body \<and> length (hdr_bytes h') = 16 \<and> length (written h) = 4 \<and>
      le_num (take 4 (hdr_bytes h')) = msg_size h'" using m assms(2) by simp
  then show "carries (take (msg_size h') (msg_buffer h')) body"
    unfolding carries_def len using g(1) by (intro conjI) (auto simp only: msg_ok_def)
  show "length (take (msg_size h') (msg_buffer h')) \<le> msg_room h" unfolding len using g by (auto simp: msg_ok_def)
  show "length (msg_buffer h') = msg_room h" using g by (simp add: msg_buffer_def)
qed


section \<open>Receiving\<close>

text \<open>Receiving sends nothing and keeps the length of the buffer.\<close>

lemma recv_run_keeps:
  fixes d :: "int \<times> 'd"
  assumes "mnlg_socket_recv_run sys nlg cb d io = Some (r, nlg', io')" "length (nlg_buf nlg) = SOCKET_BUFFER_SIZE sys"
  shows "io_sent io' = io_sent io" "length (nlg_buf nlg') = SOCKET_BUFFER_SIZE sys" "nlg_seq nlg' = nlg_seq nlg" "nlg_portid nlg' = nlg_portid nlg"
proof -
  define P where "P = (\<lambda>(sys :: nl_sys) (nlg :: mnlg_socket) (cb :: 'd msg_cb option) (d :: int \<times> 'd) (io :: nl_io) (y :: (int \<times> int \<times> 'd) \<times> mnlg_socket \<times> nl_io).
    length (nlg_buf nlg) = SOCKET_BUFFER_SIZE sys \<longrightarrow> io_sent (snd (snd y)) = io_sent io \<and> length (nlg_buf (fst (snd y))) = SOCKET_BUFFER_SIZE sys \<and>
      nlg_seq (fst (snd y)) = nlg_seq nlg \<and> nlg_portid (fst (snd y)) = nlg_portid nlg)"
  have "P sys nlg cb d io (r, nlg', io')"
  proof (rule mnlg_socket_recv_run.raw_induct[where P = P, OF _ assms(1)], goal_cases)
    case (1 run sys nlg cb d io y)
    obtain x io1 where x: "mnl_socket_recvfrom sys io = (x, io1)" by (cases "mnl_socket_recvfrom sys io")
    have io1: "io_sent io1 = io_sent io" "\<forall>dat. x = Inr dat \<longrightarrow> length dat \<le> SOCKET_BUFFER_SIZE sys"
      using x by (auto simp: mnl_socket_recvfrom_def Let_def split: sum.splits prod.splits if_splits)
    have len: "length (received_into dat b) = length b" if "length dat \<le> length b" for dat b :: "u8 list" using that by (simp add: received_into_def)
    show ?case
      using 1(2) 1(1) io1 unfolding x P_def by (auto split: sum.splits if_splits option.splits prod.splits simp: len)
  qed
  then show "io_sent io' = io_sent io" "length (nlg_buf nlg') = SOCKET_BUFFER_SIZE sys" "nlg_seq nlg' = nlg_seq nlg" "nlg_portid nlg' = nlg_portid nlg" using assms(2) by (simp_all add: P_def)
qed


section \<open>The whole exchange\<close>

text \<open>A sequence of messages with the pieces they carry; only the first says something of the device itself.\<close>

fun exchange :: "wgdevice \<Rightarrow> bool \<Rightarrow> (u8 list \<times> piece list) list \<Rightarrow> bool" where
  "exchange dev first [] \<longleftrightarrow> True"
| "exchange dev first ((m, pcs) # L) \<longleftrightarrow> carries m (message_body dev first pcs) \<and> exchange dev False L"

inductive covers_all :: "wgpeer list \<times> wgallowedip list \<Rightarrow> piece list \<Rightarrow> bool" where
  last: "covers s pcs ([], []) \<Longrightarrow> (snd s \<noteq> [] \<Longrightarrow> gets_on pcs) \<Longrightarrow> covers_all s pcs"
| more: "covers s pcs s' \<Longrightarrow> fst s' \<noteq> [] \<Longrightarrow> (snd s \<noteq> [] \<Longrightarrow> gets_on pcs) \<Longrightarrow> covers_all s' qs \<Longrightarrow> covers_all s (pcs @ qs)"

text \<open>A kernel that answers every message behind the first \<^term>\<open>k\<close>, and one that acknowledges them.\<close>

definition answers :: "nl_sys \<Rightarrow> nat \<Rightarrow> bool" where
  "answers sys k \<longleftrightarrow> (\<forall>nlg io. k < length (io_sent io) \<longrightarrow> mnlg_socket_recv_run sys nlg None (0, ()) io \<noteq> None)"

definition acknowledges :: "nl_sys \<Rightarrow> nat \<Rightarrow> u32 \<Rightarrow> bool" where
  "acknowledges sys k port \<longleftrightarrow> (\<forall>ms. sys_sendto sys ms = 0) \<and>
     (\<forall>nlg io. k < length (io_sent io) \<longrightarrow> nlg_seq nlg = sys_time sys \<longrightarrow> nlg_portid nlg = port \<longrightarrow> 280 \<le> length (nlg_buf nlg) \<longrightarrow>
        (\<exists>nlg' io'. mnlg_socket_recv_run sys nlg None (0, ()) io = Some ((0, 0, ()), nlg', io')))"

lemma buffer_size_le: "SOCKET_BUFFER_SIZE sys \<le> 8192"
  by (simp add: SOCKET_BUFFER_SIZE_def mnl_ideal_socket_buffer_size_def)

lemma answers_run:
  assumes "answers sys k" "k < length (io_sent io)"
  shows "\<exists>r errno nlg2 io2. mnlg_socket_recv_run sys nlg None (0, ()) io = Some ((r, errno, ()), nlg2, io2)"
proof -
  obtain x where "mnlg_socket_recv_run sys nlg None (0, ()) io = Some x" using assms unfolding answers_def by blast
  then show ?thesis by (cases x) auto
qed

lemma acknowledges_run:
  assumes "acknowledges sys k port" "mnlg_socket_recv_run sys nlg None (0, ()) io = Some ((r, errno, ()), nlg2, io2)"
    "k < length (io_sent io)" "nlg_seq nlg = sys_time sys" "nlg_portid nlg = port" "280 \<le> length (nlg_buf nlg)"
  shows "r = 0"
proof -
  obtain nlg' io' where "mnlg_socket_recv_run sys nlg None (0, ()) io = Some ((0, 0, ()), nlg', io')"
    using assms unfolding acknowledges_def by blast
  then show ?thesis using assms(2) by simp
qed

lemma set_loop:
  assumes "wf_device dev" "280 \<le> SOCKET_BUFFER_SIZE sys" "answers sys k"
  shows "position_ok (position dev pos) \<Longrightarrow> set (fst (position dev pos)) \<subseteq> set (peers dev) \<Longrightarrow> (pos \<noteq> None \<Longrightarrow> fst (position dev pos) \<noteq> []) \<Longrightarrow>
    length (nlg_buf nlg) = SOCKET_BUFFER_SIZE sys \<Longrightarrow> nlg_portid nlg = port \<Longrightarrow> k \<le> length (io_sent io) \<Longrightarrow>
    \<exists>r io' L. set_device_loop sys dev pos nlg io = Some (r, io') \<and> io_sent io' = io_sent io @ map fst L \<and> exchange dev (pos = None) L \<and>
      (\<forall>x \<in> set L. length (fst x) \<le> SOCKET_BUFFER_SIZE sys) \<and>
      (acknowledges sys k port \<longrightarrow> r = 0) \<and>
      (r = 0 \<longrightarrow> L \<noteq> [] \<and> (if peers dev = [] then concat (map snd L) = [] else covers_all (position dev pos) (concat (map snd L))))"
proof (induction "remaining (position dev pos)" arbitrary: pos nlg io rule: less_induct)
  case less
  let ?n = "SOCKET_BUFFER_SIZE sys"
  obtain h where h: "mnlg_msg_prepare sys nlg WG_CMD_SET_DEVICE (NLM_F_REQUEST OR NLM_F_ACK) (nlg_id nlg) (nlg_version nlg) =
      Some (nlg\<lparr> nlg_seq := sys_time sys \<rparr>, h)" "msg_ok h" "msg_size h = 20" "msg_room h = ?n" "length (written h) = 4"
    using prepare_ok[of nlg sys WG_CMD_SET_DEVICE "NLM_F_REQUEST OR NLM_F_ACK" "nlg_id nlg" "nlg_version nlg"] less.prems(4) assms(2) buffer_size_le[of sys] by auto
  obtain h' pcs s' where m: "put_message ?n dev pos h = Some (h', s')" "grows h (message_body dev (pos = None) pcs) h'"
    "if peers dev = [] then pcs = [] \<and> s' = ([], []) else covers (position dev pos) pcs s'"
    "fst (position dev pos) \<noteq> [] \<longrightarrow> peers dev \<noteq> [] \<longrightarrow> remaining s' < remaining (position dev pos)"
    "peers dev \<noteq> [] \<longrightarrow> snd (position dev pos) \<noteq> [] \<longrightarrow> gets_on pcs"
    using put_message_spec[OF h(2,3) _ assms(1) less.prems(1,2)] h(4) assms(2) by auto
  obtain ps al where s': "s' = (ps, al)" by (cases s')
  define msg where "msg = take (msg_size h') (msg_buffer h')"
  have c: "carries msg (message_body dev (pos = None) pcs)" "length msg \<le> ?n" "length (msg_buffer h') = ?n"
    using sent_carries[OF h(2,5) m(2)] h(4) unfolding msg_def by simp_all
  let ?nlg = "nlg\<lparr> nlg_seq := sys_time sys, nlg_buf := msg_buffer h' \<rparr>" and ?io = "io\<lparr> io_sent := io_sent io @ [msg] \<rparr>"
  define e where "e = sys_sendto sys (io_sent io @ [msg])"
  have send: "mnlg_socket_send sys (nlg\<lparr> nlg_seq := sys_time sys \<rparr>) h' io = (e, ?nlg, ?io)"
    by (simp add: mnlg_socket_send_def mnl_socket_sendto_def Let_def msg_def e_def)
  obtain r errno nlg2 io2 where rr: "mnlg_socket_recv_run sys ?nlg None (0, ()) ?io = Some ((r, errno, ()), nlg2, io2)"
    using answers_run[OF assms(3), of ?io ?nlg] less.prems(6) by auto
  have k: "io_sent io2 = io_sent io @ [msg]" "length (nlg_buf nlg2) = ?n" using recv_run_keeps[OF rr] c(3) by simp_all
  have k2: "nlg_portid nlg2 = port" using recv_run_keeps(4)[OF rr] c(3) less.prems(5) by simp
  have run: "set_device_loop sys dev pos nlg io =
      (if e \<noteq> 0 then Some (- e, ?io) else if r < 0 then Some (if errno \<noteq> 0 then - errno else - EINVAL, io2)
       else if ps = [] then Some (0, io2) else set_device_loop sys dev (Some (ps, al)) nlg2 io2)"
    unfolding set_device_loop.simps[of sys dev pos nlg io] h(1) by (simp add: m(1) s' send rr)
  have ack: "e = 0 \<and> r = 0" if "acknowledges sys k port" using acknowledges_run[OF that rr] that less.prems(5,6) c(3) assms(2) unfolding acknowledges_def e_def by simp
  show ?case
  proof (cases "e \<noteq> 0 \<or> r < 0 \<or> ps = []")
    case True
    have al: "peers dev \<noteq> [] \<Longrightarrow> ps = [] \<Longrightarrow> s' = ([], [])" using m(3) covers_keeps[of "position dev pos" pcs s'] less.prems(1) s' by auto
    have "\<exists>r io'. set_device_loop sys dev pos nlg io = Some (r, io') \<and> io_sent io' = io_sent io @ [msg] \<and> (acknowledges sys k port \<longrightarrow> r = 0) \<and> (r = 0 \<longrightarrow> ps = [])"
      using True run k(1) ack by (auto simp: EINVAL_def)
    then obtain r' io' where "set_device_loop sys dev pos nlg io = Some (r', io')" "io_sent io' = io_sent io @ [msg]" "acknowledges sys k port \<longrightarrow> r' = 0" "r' = 0 \<longrightarrow> ps = []" by blast
    then show ?thesis using c(1,2) m(3,5) al
      by (intro exI[of _ r'] exI[of _ io'] exI[of _ "[(msg, pcs)]"]) (auto intro: covers_all.last split: if_splits)
  next
    case False
    have pd: "peers dev \<noteq> []" using False m(3) s' by (auto split: if_splits)
    then have cov: "covers (position dev pos) pcs s'" using m(3) by simp
    note keep = covers_keeps[OF cov less.prems(1)]
    have ne: "fst (position dev pos) \<noteq> []" using less.prems(3) pd by (cases pos) (auto simp: position_def)
    have pos': "position dev (Some (ps, al)) = s'" by (simp add: position_def s')
    have "remaining (position dev (Some (ps, al))) < remaining (position dev pos)" unfolding pos' using m(4) ne pd by blast
    have sub: "set (fst s') \<subseteq> set (peers dev)" using keep less.prems(2) by blast
    from less.hyps[OF \<open>remaining (position dev (Some (ps, al))) < remaining (position dev pos)\<close>, of nlg2 io2] obtain r' io' L where i: "set_device_loop sys dev (Some (ps, al)) nlg2 io2 = Some (r', io')"
      "io_sent io' = io_sent io2 @ map fst L" "exchange dev False L" "\<forall>x \<in> set L. length (fst x) \<le> ?n"
      "acknowledges sys k port \<longrightarrow> r' = 0" "r' = 0 \<longrightarrow> L \<noteq> [] \<and> covers_all s' (concat (map snd L))"
      using keep sub False k k2 less.prems(6) pd unfolding pos' by (auto simp: s')
    show ?thesis
      using i run False k(1) c(1,2) m(5) pd cov s'
      by (intro exI[of _ r'] exI[of _ io'] exI[of _ "(msg, pcs) # L"]) (auto intro: covers_all.more)
  qed
qed

end
