(* ===== verification/Linux_Replies.thy ===== *)
theory Linux_Replies
  imports Linux_Send
begin

text \<open>
  What the kernel sends back: datagrams of one message each, control messages that end a receive loop, and the reply that opens the family.
\<close>

section \<open>A message in a datagram\<close>

definition wire_msg :: "nat \<Rightarrow> u16 \<Rightarrow> u32 \<Rightarrow> u32 \<Rightarrow> u8 list \<Rightarrow> u8 list" where
  "wire_msg mt fl sq pid payload =
     le_bytes 4 (16 + length payload) @ le_bytes 2 mt @ le_bytes 2 (unat fl) @ le_bytes 4 (unat sq) @ le_bytes 4 (unat pid) @ payload"

definition parsed_msg :: "nat \<Rightarrow> u16 \<Rightarrow> u32 \<Rightarrow> u32 \<Rightarrow> u8 list \<Rightarrow> u8 list \<Rightarrow> nlmsg" where
  "parsed_msg mt fl sq pid payload rest =
     \<lparr> m_len = of_nat (16 + length payload), m_type = of_nat mt, m_flags = fl, m_seq = sq, m_pid = pid, m_pos = 0,
       m_buf = wire_msg mt fl sq pid payload @ rest \<rparr>"

lemma length_wire_msg [simp]: "length (wire_msg mt fl sq pid payload) = 16 + length payload"
  by (simp add: wire_msg_def)

lemma msg_at_wire:
  assumes "mt < 2 ^ 16" "length payload < 2 ^ 16"
  shows "msg_at (wire_msg mt fl sq pid payload @ rest) 0 = Some (parsed_msg mt fl sq pid payload rest)"
proof -
  have "unat fl < 2 ^ 16" "unat sq < 2 ^ 32" "unat pid < 2 ^ 32"
    using unat_below[of fl] unat_below[of sq] unat_below[of pid] by simp_all
  then show ?thesis
    using assms by (simp add: msg_at_def load_def wire_msg_def parsed_msg_def)
qed

lemma wire_len:
  assumes "length payload < 2 ^ 16"
  shows "unat (of_nat (16 + length payload) :: u32) = 16 + length payload" "sint (of_nat (16 + length payload) :: u32) = int (16 + length payload)"
proof -
  show u: "unat (of_nat (16 + length payload) :: u32) = 16 + length payload"
    using assms by (simp only: unat_of_nat, simp add: take_bit_nat_def)
  show "sint (of_nat (16 + length payload) :: u32) = int (16 + length payload)"
    unfolding sint_uint uint_nat u using assms by (subst signed_take_bit_int_eq_self) simp_all
qed

text \<open>A datagram of one message is that message, checked and handed to its callback.\<close>

definition checked_cb :: "u32 \<Rightarrow> u32 \<Rightarrow> 'd msg_cb option \<Rightarrow> 'd msg_cb" where
  "checked_cb sq portid f msg d =
     (if \<not> mnl_nlmsg_portid_ok msg portid then Some (- 1, ESRCH, snd d)
      else if \<not> mnl_nlmsg_seq_ok msg sq then Some (- 1, EPROTO, snd d)
      else if m_flags msg AND NLM_F_DUMP_INTR \<noteq> 0 then Some (- 1, EINTR, snd d)
      else case f of None \<Rightarrow> Some (1, d) | Some f \<Rightarrow> f msg d)"

lemma cb_loop_one:
  assumes "mt < 2 ^ 16" "length payload < 2 ^ 16" "length payload mod 4 = 0"
  shows "mnl_cb_loop (wire_msg mt fl sq pid payload @ rest) 0 (int (16 + length payload)) nseq portid cb ctl 1 d =
    checked_cb nseq portid (pick_cb cb ctl mt) (parsed_msg mt fl sq pid payload rest) d"
proof -
  let ?m = "parsed_msg mt fl sq pid payload rest"
  have t: "unat (m_type ?m) = mt" using assms(1) by (simp add: parsed_msg_def unat_of_nat take_bit_nat_def)
  have l: "unat (m_len ?m) = 16 + length payload" "sint (m_len ?m) = int (16 + length payload)"
    using wire_len[OF assms(2)] unfolding parsed_msg_def by (simp_all only: nlmsg.simps)
  have a: "MNL_ALIGN (16 + length payload) mod 2 ^ 32 = 16 + length payload"
  proof -
    have "(16 + length payload) mod 4 = 0" using assms(3) by presburger
    then show ?thesis using assms(2) by simp
  qed
  have fin: "mnl_cb_loop (wire_msg mt fl sq pid payload @ rest) p (sint (of_int (int (16 + length payload) - int (16 + length payload)) :: u32)) nseq portid cb ctl r d = Some (r, d)" for p r d
    by (subst mnl_cb_loop.simps) simp
  have ok: "mnl_nlmsg_ok (m_len ?m) (int (16 + length payload))" using l by (simp add: mnl_nlmsg_ok_def)
  show ?thesis
    unfolding mnl_cb_loop.simps[of "wire_msg mt fl sq pid payload @ rest" 0] msg_at_wire[OF assms(1,2)] Let_def option.case l t a
    using fin ok by (auto simp: checked_cb_def split: option.splits)
qed

lemma recv_one:
  assumes "sys_recvmsg sys (io_sent io) (io_received io) = Inr (wire_msg mt fl sq pid payload, False, sockaddr_nl_size)"
    and "mt < 2 ^ 16" "length payload < 2 ^ 16" "length payload mod 4 = 0" "16 + length payload \<le> SOCKET_BUFFER_SIZE sys"
  shows "mnlg_socket_recv_run sys nlg cb d io =
    (case checked_cb (nlg_seq nlg) (nlg_portid nlg) (pick_cb cb mnlg_cb_array mt) (parsed_msg mt fl sq pid payload (drop (16 + length payload) (nlg_buf nlg))) d of
       None \<Rightarrow> None
     | Some (r, d') \<Rightarrow>
         (let nlg' = nlg\<lparr> nlg_buf := received_into (wire_msg mt fl sq pid payload) (nlg_buf nlg) \<rparr>; io' = io\<lparr> io_received := io_received io + 1 \<rparr>
          in if r > 0 then mnlg_socket_recv_run sys nlg' cb d' io' else Some ((r, d'), nlg', io')))"
proof -
  have rc: "mnl_socket_recvfrom sys io = (Inr (wire_msg mt fl sq pid payload), io\<lparr> io_received := io_received io + 1 \<rparr>)"
    using assms by (simp add: mnl_socket_recvfrom_def)
  have ne: "wire_msg mt fl sq pid payload \<noteq> []" using length_wire_msg[of mt fl sq pid payload] by fastforce
  have i: "received_into (wire_msg mt fl sq pid payload) b = wire_msg mt fl sq pid payload @ drop (16 + length payload) b" for b
    by (simp add: received_into_def)
  show ?thesis
    unfolding mnlg_socket_recv_run.simps[of sys nlg cb d io] rc prod.case sum.case i length_wire_msg cb_loop_one[OF assms(2-4)] Let_def
    using ne by simp
qed

section \<open>Control messages\<close>

text \<open>An error of the system call, or one message of type error or done.\<close>

definition control_reply :: "nl_sys \<Rightarrow> int + (u8 list \<times> bool \<times> nat) \<Rightarrow> bool" where
  "control_reply sys x \<longleftrightarrow>
     (case x of Inl _ \<Rightarrow> True
      | Inr (dat, trunc, namelen) \<Rightarrow> \<exists>mt fl sq pid payload. dat = wire_msg mt fl sq pid payload \<and> mt \<in> {NLMSG_ERROR, NLMSG_DONE} \<and>
          4 \<le> length payload \<and> length payload mod 4 = 0 \<and> 16 + length payload \<le> SOCKET_BUFFER_SIZE sys)"

lemma load_payload: "4 \<le> length payload \<Longrightarrow> load 4 (wire_msg mt fl sq pid payload @ rest) 16 = Some (le_num (take 4 payload))"
  by (simp add: load_def wire_msg_def)

lemma control_ends:
  assumes "mt \<in> {NLMSG_ERROR, NLMSG_DONE}" "4 \<le> length payload"
  shows "\<exists>r d'. checked_cb nseq portid (pick_cb cb mnlg_cb_array mt) (parsed_msg mt fl sq pid payload rest) d = Some (r, d') \<and> r \<le> 0"
proof -
  have e: "\<exists>r d'. error_result (parsed_msg mt fl sq pid payload rest) d = Some (r, d') \<and> r \<le> 0" for d :: "int \<times> 'd"
    using load_payload[OF assms(2)] by (auto simp: error_result_def parsed_msg_def Let_def)
  have "\<exists>f. pick_cb cb mnlg_cb_array mt = Some f \<and> (\<exists>r d'. f (parsed_msg mt fl sq pid payload rest) d = Some (r, d') \<and> r \<le> 0)"
    using assms(1) e[of d] by (auto simp: pick_cb_def mnlg_cb_array_def mnl_cb_error_def mnlg_cb_stop_def)
  then show ?thesis unfolding checked_cb_def by auto
qed

lemma control_answers:
  assumes "\<forall>ms n. k < length ms \<longrightarrow> control_reply sys (sys_recvmsg sys ms n)"
  shows "answers sys k"
  unfolding answers_def
proof (intro allI impI)
  fix nlg :: mnlg_socket and io :: nl_io assume "k < length (io_sent io)"
  then have c: "control_reply sys (sys_recvmsg sys (io_sent io) (io_received io))" using assms by blast
  show "mnlg_socket_recv_run sys nlg None (0, ()) io \<noteq> None"
  proof (cases "\<exists>dat. mnl_socket_recvfrom sys io = (Inr dat, io\<lparr> io_received := io_received io + 1 \<rparr>)")
    case False
    then obtain e io' where "mnl_socket_recvfrom sys io = (Inl e, io')"
      by (auto simp: mnl_socket_recvfrom_def Let_def split: sum.splits prod.splits if_splits)
    then show ?thesis by (subst mnlg_socket_recv_run.simps) simp
  next
    case True
    then obtain dat where "sys_recvmsg sys (io_sent io) (io_received io) = Inr (dat, False, sockaddr_nl_size)"
      by (auto simp: mnl_socket_recvfrom_def Let_def split: sum.splits prod.splits if_splits)
    with c obtain mt fl sq pid payload where m: "sys_recvmsg sys (io_sent io) (io_received io) = Inr (wire_msg mt fl sq pid payload, False, sockaddr_nl_size)"
      "mt \<in> {NLMSG_ERROR, NLMSG_DONE}" "4 \<le> length payload" "length payload mod 4 = 0" "16 + length payload \<le> SOCKET_BUFFER_SIZE sys"
      unfolding control_reply_def by auto
    have "mt < 2 ^ 16" "length payload < 2 ^ 16" using m(2,5) buffer_size_le[of sys] by auto
    note one = recv_one[OF m(1) this m(4,5), of nlg "None :: unit msg_cb option" "(0, ())"]
    obtain r d' where "checked_cb (nlg_seq nlg) (nlg_portid nlg) (pick_cb None mnlg_cb_array mt)
        (parsed_msg mt fl sq pid payload (drop (16 + length payload) (nlg_buf nlg))) (0, ()) = Some (r, d')" "r \<le> 0"
      using control_ends[OF m(2,3)] by blast
    then show ?thesis unfolding one by simp
  qed
qed

text \<open>An acknowledgement: an error message with number 0 and the header of the request.\<close>

definition ack_msg :: "u32 \<Rightarrow> u32 \<Rightarrow> u8 list" where
  "ack_msg sq pid = wire_msg NLMSG_ERROR 0 sq pid (replicate 20 0)"

lemma le_num_zeros [simp]: "le_num (replicate n 0) = 0"
  by (induction n) auto

lemma recv_ack:
  fixes d :: "int \<times> 'a"
  assumes "sys_recvmsg sys (io_sent io) (io_received io) = Inr (ack_msg (nlg_seq nlg) (nlg_portid nlg), False, sockaddr_nl_size)"
    and "36 \<le> SOCKET_BUFFER_SIZE sys"
  shows "mnlg_socket_recv_run sys nlg cb d io = Some ((0, 0, snd d), nlg\<lparr> nlg_buf := received_into (ack_msg (nlg_seq nlg) (nlg_portid nlg)) (nlg_buf nlg) \<rparr>,
    io\<lparr> io_received := io_received io + 1 \<rparr>)"
proof -
  let ?m = "\<lambda>rest. parsed_msg NLMSG_ERROR 0 (nlg_seq nlg) (nlg_portid nlg) (replicate 20 0) rest"
  have e: "error_result (?m rest) d = Some (0, 0, snd d)" for rest and d :: "int \<times> 'a"
    using load_payload[of "replicate 20 0" NLMSG_ERROR 0 "nlg_seq nlg" "nlg_portid nlg" rest] by (simp add: error_result_def parsed_msg_def)
  have ok: "mnl_nlmsg_portid_ok (?m rest) (nlg_portid nlg)" "mnl_nlmsg_seq_ok (?m rest) (nlg_seq nlg)" "m_flags (?m rest) = 0" "unat (m_len (?m rest)) = 36" for rest
    by (simp_all add: parsed_msg_def mnl_nlmsg_portid_ok_def mnl_nlmsg_seq_ok_def)
  have c: "checked_cb (nlg_seq nlg) (nlg_portid nlg) (pick_cb cb mnlg_cb_array NLMSG_ERROR) (?m rest) d = Some (0, 0, snd d)" for rest and d :: "int \<times> 'a"
    by (simp add: checked_cb_def ok e pick_cb_def mnlg_cb_array_def mnl_cb_error_def mnl_nlmsg_size_def)
  show ?thesis
    by (subst recv_one[OF assms(1)[unfolded ack_msg_def]]) (use assms(2) c in \<open>simp_all add: ack_msg_def\<close>)
qed

lemma ack_acknowledges:
  assumes "\<And>ms. sys_sendto sys ms = 0" "280 \<le> SOCKET_BUFFER_SIZE sys"
    and "\<And>ms n. k < length ms \<Longrightarrow> sys_recvmsg sys ms n = Inr (ack_msg (sys_time sys) port, False, sockaddr_nl_size)"
  shows "acknowledges sys k port"
  unfolding acknowledges_def
proof (intro conjI allI impI)
  fix nlg :: mnlg_socket and io :: nl_io
  assume "k < length (io_sent io)" "nlg_seq nlg = sys_time sys" "nlg_portid nlg = port" "280 \<le> length (nlg_buf nlg)"
  then have "sys_recvmsg sys (io_sent io) (io_received io) = Inr (ack_msg (nlg_seq nlg) (nlg_portid nlg), False, sockaddr_nl_size)" using assms(3) by simp
  from recv_ack[OF this, of None "(0, ())"] show "\<exists>nlg' io'. mnlg_socket_recv_run sys nlg None (0, ()) io = Some ((0, 0, ()), nlg', io')"
    using assms(2) by simp
qed (rule assms(1))


section \<open>Opening the family\<close>

definition family_msg :: "u16 \<Rightarrow> u32 \<Rightarrow> u32 \<Rightarrow> u8 list" where
  "family_msg fid sq pid = wire_msg (unat GENL_ID_CTRL) 0 sq pid ([1, 2, 0, 0] @ attr_bytes (of_nat CTRL_ATTR_FAMILY_ID) (le_bytes 2 (unat fid)))"

text \<open>What the program meets when all goes well: nothing fails, and once \<^term>\<open>k\<close> messages are sent the two datagrams behind the first
  \<^term>\<open>n\<close> are the reply and the acknowledgement.\<close>

definition opens :: "nl_sys \<Rightarrow> u16 \<Rightarrow> u32 \<Rightarrow> nat \<Rightarrow> nat \<Rightarrow> bool" where
  "opens sys fid port k n \<longleftrightarrow> (\<forall>x. \<not> sys_fails sys x) \<and> sys_socket sys = 0 \<and> sys_bind sys = 0 \<and>
     sys_getsockname sys = Inr (sockaddr_nl_size, AF_NETLINK, port) \<and> (\<forall>ms. sys_sendto sys ms = 0) \<and> 1 \<le> sys_ctrl_attr_max sys \<and>
     (\<forall>ms. length ms = k \<longrightarrow> sys_recvmsg sys ms n = Inr (family_msg fid (sys_time sys) port, False, sockaddr_nl_size)) \<and>
     (\<forall>ms. length ms = k \<longrightarrow> sys_recvmsg sys ms (n + 1) = Inr (ack_msg (sys_time sys) port, False, sockaddr_nl_size))"

text \<open>The attributes of a message behind the generic header.\<close>

lemma parse_start:
  assumes "length genl = 4" "length bs < 2 ^ 15" "length bs mod 4 = 0"
  obtains pre where "mnl_attr_parse (parsed_msg mt fl sq pid (genl @ bs) rest) 4 cb d = attr_loop cb (pre @ bs @ rest) (length pre) (length pre + length bs) 1 d"
proof -
  define pre where "pre = le_bytes 4 (16 + length (genl @ bs)) @ le_bytes 2 mt @ le_bytes 2 (unat fl) @ le_bytes 4 (unat sq) @ le_bytes 4 (unat pid) @ genl"
  have pre: "length pre = 20" "wire_msg mt fl sq pid (genl @ bs) @ rest = pre @ bs @ rest"
    using assms(1) by (simp_all add: pre_def wire_msg_def)
  have "(16 + length (genl @ bs)) mod 4 = 0" using assms(1,3) by (simp only: length_append) presburger
  then have tail: "MNL_ALIGN (16 + length (genl @ bs)) mod 2 ^ 32 = length pre + length bs" using assms(1,2) pre(1) by simp
  have "length (genl @ bs) < 2 ^ 16" using assms(1,2) by simp
  note len = wire_len(1)[OF this]
  have p: "m_pos (parsed_msg mt fl sq pid (genl @ bs) rest) = 0" "m_buf (parsed_msg mt fl sq pid (genl @ bs) rest) = pre @ bs @ rest"
    "unat (m_len (parsed_msg mt fl sq pid (genl @ bs) rest)) = 16 + length (genl @ bs)"
    unfolding pre(2)[symmetric] using len unfolding parsed_msg_def by (simp_all only: nlmsg.simps)
  have start: "0 + MNL_NLMSG_HDRLEN + MNL_ALIGN 4 = length pre" using pre(1) by simp
  show thesis by (rule that[of pre]) (unfold mnl_attr_parse_def p start tail, simp only: add_0)
qed

lemma attrs_bytes_mod: "length (attrs_bytes as) mod 4 = 0"
  by (induction as) (auto simp: mod_add_eq[symmetric])

lemma parse_fold:
  assumes "\<And>t dat behind d. (t, dat) \<in> set as \<Longrightarrow> cb \<lparr> nla_type = t, nla_data = dat, nla_behind = behind \<rparr> d = Some (1, f (t, dat) d)"
    and "\<forall>(t, dat) \<in> set as. 4 + length dat < 2 ^ 16" "length genl = 4" "length (attrs_bytes as) < 2 ^ 15"
  shows "mnl_attr_parse (parsed_msg mt fl sq pid (genl @ attrs_bytes as) rest) 4 cb d = Some (1, fold f as d)"
proof -
  obtain pre where "mnl_attr_parse (parsed_msg mt fl sq pid (genl @ attrs_bytes as) rest) 4 cb d =
      attr_loop cb (pre @ attrs_bytes as @ rest) (length pre) (length pre + length (attrs_bytes as)) 1 d"
    using parse_start[OF assms(3,4) attrs_bytes_mod, of mt fl sq pid rest] by blast
  moreover have "attr_loop cb (pre @ attrs_bytes as @ rest) (length pre) (length pre + length (attrs_bytes as)) 1 d = Some (if as = [] then 1 else 1, fold f as d)"
    by (rule attr_loop_fold) (use assms in auto)
  ultimately show ?thesis by simp
qed

lemma family_id_cb:
  assumes "1 \<le> sys_ctrl_attr_max sys" "length genl = 4"
  shows "get_family_id_cb sys (parsed_msg mt fl sq pid (genl @ attr_bytes 1 (le_bytes 2 (unat fid))) rest) (e, d) = Some (1, e, fid)"
proof -
  define dat where "dat = le_bytes 2 (unat fid)"
  let ?a = "\<lambda>behind. \<lparr> nla_type = 1, nla_data = dat, nla_behind = behind \<rparr>"
  have "unat fid < 2 ^ 16" using unat_below[of fid] by simp
  then have n: "mnl_attr_get_num 2 (?a behind) = Some (unat fid)" for behind
    by (simp add: mnl_attr_get_num_def load_def dat_def)
  have cb: "get_family_id_attr_cb sys (?a behind) (e, d) = Some (1, e, d(CTRL_ATTR_FAMILY_ID \<mapsto> ?a behind))" for behind e d
    using assms(1) by (simp add: get_family_id_attr_cb_def mnl_attr_type_valid_def mnl_attr_get_type_def mnl_attr_validate_def mnl_attr_check_def
        mnl_attr_get_payload_len_def mnl_attr_data_type_len_def dat_def)
  have dl: "length dat = 2" by (simp add: dat_def)
  obtain pre where "mnl_attr_parse (parsed_msg mt fl sq pid (genl @ attr_bytes 1 dat) rest) 4 (get_family_id_attr_cb sys) (e, Map.empty) =
      attr_loop (get_family_id_attr_cb sys) (pre @ attr_bytes 1 dat @ rest) (length pre) (length pre + length (attr_bytes 1 dat)) 1 (e, Map.empty)"
    using parse_start[OF assms(2), of "attr_bytes 1 dat" mt fl sq pid rest "get_family_id_attr_cb sys" "(e, Map.empty)"] dl by auto
  moreover have "attr_loop (get_family_id_attr_cb sys) (pre @ attr_bytes 1 dat @ rest) (length pre) (length pre + length (attr_bytes 1 dat)) 1 (e, Map.empty) =
      Some (1, e, [CTRL_ATTR_FAMILY_ID \<mapsto> ?a (replicate 2 0 @ rest)])"
    by (subst attr_loop_step) (simp_all add: dl cb attr_loop_end)
  ultimately show ?thesis using n unfolding dat_def[symmetric] by (simp add: get_family_id_cb_def)
qed

lemma recv_family:
  assumes "opens sys fid port (length (io_sent io)) (io_received io)" "64 \<le> SOCKET_BUFFER_SIZE sys" "nlg_seq nlg = sys_time sys" "nlg_portid nlg = port"
    "length (nlg_buf nlg) = SOCKET_BUFFER_SIZE sys"
  obtains b where "mnlg_socket_recv_run sys nlg (Some (get_family_id_cb sys)) (0, 0) io =
    Some ((0, 0, fid), nlg\<lparr> nlg_buf := b \<rparr>, io\<lparr> io_received := io_received io + 2 \<rparr>)"
proof -
  define payload where "payload = [1, 2, 0, 0] @ attr_bytes 1 (le_bytes 2 (unat fid))"
  have l: "length payload = 12" by (simp add: payload_def)
  have m: "sys_recvmsg sys (io_sent io) (io_received io) = Inr (wire_msg 16 0 (nlg_seq nlg) (nlg_portid nlg) payload, False, sockaddr_nl_size)"
    using assms(1,3,4) by (simp add: opens_def family_msg_def payload_def)
  define nlg1 where "nlg1 = nlg\<lparr> nlg_buf := received_into (wire_msg 16 0 (nlg_seq nlg) (nlg_portid nlg) payload) (nlg_buf nlg) \<rparr>"
  define io1 where "io1 = io\<lparr> io_received := io_received io + 1 \<rparr>"
  have f: "get_family_id_cb sys (parsed_msg 16 0 sq pid payload rest) (0, 0) = Some (1, 0, fid)" for sq pid rest
    unfolding payload_def by (rule family_id_cb) (use assms(1) in \<open>simp_all add: opens_def\<close>)
  have ok: "mnl_nlmsg_portid_ok (parsed_msg 16 0 sq pid payload rest) pid" "mnl_nlmsg_seq_ok (parsed_msg 16 0 sq pid payload rest) sq"
    "m_flags (parsed_msg 16 0 sq pid payload rest) = 0" for sq pid rest
    by (simp_all add: parsed_msg_def mnl_nlmsg_portid_ok_def mnl_nlmsg_seq_ok_def)
  have c: "checked_cb (nlg_seq nlg) (nlg_portid nlg) (pick_cb (Some (get_family_id_cb sys)) mnlg_cb_array 16) (parsed_msg 16 0 (nlg_seq nlg) (nlg_portid nlg) payload rest) (0, 0) =
      Some (1, 0, fid)" for rest
    by (simp add: checked_cb_def ok f pick_cb_def)
  have first: "mnlg_socket_recv_run sys nlg (Some (get_family_id_cb sys)) (0, 0) io = mnlg_socket_recv_run sys nlg1 (Some (get_family_id_cb sys)) (0, fid) io1"
    by (subst recv_one[OF m]) (use assms(2) l in \<open>simp_all add: c nlg1_def io1_def\<close>)
  have "sys_recvmsg sys (io_sent io1) (io_received io1) = Inr (ack_msg (nlg_seq nlg1) (nlg_portid nlg1), False, sockaddr_nl_size)"
    using assms(1,3,4) by (simp add: opens_def nlg1_def io1_def)
  from recv_ack[OF this, of "Some (get_family_id_cb sys)" "(0, fid)"] assms(2)
  have "\<exists>b. mnlg_socket_recv_run sys nlg1 (Some (get_family_id_cb sys)) (0, fid) io1 = Some ((0, 0, fid), nlg\<lparr> nlg_buf := b \<rparr>, io\<lparr> io_received := io_received io + 2 \<rparr>)"
    by (auto simp: nlg1_def io1_def)
  then show thesis using that first by auto
qed

text \<open>The request for the family fits into the buffer.\<close>

definition fresh_socket :: "nl_sys \<Rightarrow> u32 \<Rightarrow> mnlg_socket" where
  "fresh_socket sys port = \<lparr> nlg_buf = replicate (SOCKET_BUFFER_SIZE sys) 0, nlg_id = 0, nlg_version = 0, nlg_seq = 0, nlg_portid = port \<rparr>"

lemma open_request:
  assumes "64 \<le> SOCKET_BUFFER_SIZE sys" "length nm < 24"
  obtains h h2 where
    "mnlg_msg_prepare sys (fresh_socket sys port) CTRL_CMD_GETFAMILY 5 GENL_ID_CTRL 1 = Some ((fresh_socket sys port)\<lparr> nlg_seq := sys_time sys \<rparr>, h)"
    "mnl_attr_put_strz h CTRL_ATTR_FAMILY_NAME nm = Some h2" "length (msg_buffer h2) = SOCKET_BUFFER_SIZE sys"
proof -
  obtain h where h: "mnlg_msg_prepare sys (fresh_socket sys port) CTRL_CMD_GETFAMILY 5 GENL_ID_CTRL 1 = Some ((fresh_socket sys port)\<lparr> nlg_seq := sys_time sys \<rparr>, h)"
    "msg_ok h" "msg_size h = 20" "msg_room h = SOCKET_BUFFER_SIZE sys" "length (written h) = 4"
    using prepare_ok[of "fresh_socket sys port" sys CTRL_CMD_GETFAMILY 5 GENL_ID_CTRL 1] assms(1) buffer_size_le[of sys] by (auto simp: fresh_socket_def)
  have "msg_size h + 4 + MNL_ALIGN (length (str_bytes nm @ [0 :: u8])) \<le> msg_room h"
    using h(3,4) assms align_less[of "length nm + 1"] by simp
  from attr_put_grows[OF h(2) this] obtain h2 where h2: "mnl_attr_put_strz h CTRL_ATTR_FAMILY_NAME nm = Some h2"
    "grows h (attr_bytes CTRL_ATTR_FAMILY_NAME (str_bytes nm @ [0])) h2" by (auto simp: mnl_attr_put_strz_def)
  have "length (msg_buffer h2) = SOCKET_BUFFER_SIZE sys" using sent_carries(3)[OF h(2,5) h2(2)] h(4) by simp
  then show thesis using that h(1) h2(1) by blast
qed

lemma open_ok:
  assumes "opens sys fid port (length (io_sent io) + 1) (io_received io)" "64 \<le> SOCKET_BUFFER_SIZE sys" "length nm < 24"
  obtains nlg m where "mnlg_socket_open sys nm v io = Some (Inr nlg, io\<lparr> io_sent := io_sent io @ [m], io_received := io_received io + 2 \<rparr>)"
    "nlg_portid nlg = port" "nlg_id nlg = fid"
proof -
  define nlg where "nlg = fresh_socket sys port"
  obtain h h2 where h: "mnlg_msg_prepare sys nlg CTRL_CMD_GETFAMILY 5 GENL_ID_CTRL 1 = Some (nlg\<lparr> nlg_seq := sys_time sys \<rparr>, h)"
    "mnl_attr_put_strz h CTRL_ATTR_FAMILY_NAME nm = Some h2" "length (msg_buffer h2) = SOCKET_BUFFER_SIZE sys"
    unfolding nlg_def using open_request[OF assms(2,3)] by blast
  define m where "m = take (msg_size h2) (msg_buffer h2)"
  define nlg2 where "nlg2 = nlg\<lparr> nlg_seq := sys_time sys, nlg_buf := msg_buffer h2 \<rparr>"
  define io2 where "io2 = io\<lparr> io_sent := io_sent io @ [m] \<rparr>"
  have send: "mnlg_socket_send sys (nlg\<lparr> nlg_seq := sys_time sys \<rparr>) h2 io = (0, nlg2, io2)"
    using assms(1) by (simp add: mnlg_socket_send_def mnl_socket_sendto_def m_def nlg2_def io2_def opens_def)
  have "opens sys fid port (length (io_sent io2)) (io_received io2)" using assms(1) by (simp add: io2_def)
  then obtain b' where r: "mnlg_socket_recv_run sys nlg2 (Some (get_family_id_cb sys)) (0, 0) io2 = Some ((0, 0, fid), nlg2\<lparr> nlg_buf := b' \<rparr>, io2\<lparr> io_received := io_received io2 + 2 \<rparr>)"
    using recv_family[of sys fid port io2 nlg2] assms(2) h(3) by (auto simp: nlg2_def nlg_def fresh_socket_def)
  have "mnlg_socket_open sys nm v io = Some (Inr (nlg2\<lparr> nlg_buf := b', nlg_id := fid, nlg_version := v \<rparr>), io2\<lparr> io_received := io_received io2 + 2 \<rparr>)"
    using assms(1) unfolding mnlg_socket_open_def opens_def fresh_socket_def[symmetric]
    by (simp add: mnl_socket_open_def mnl_socket_bind_def nlg_def[symmetric] h send r)
  then show thesis using that[of "nlg2\<lparr> nlg_buf := b', nlg_id := fid, nlg_version := v \<rparr>" m] by (simp add: nlg2_def nlg_def io2_def fresh_socket_def)
qed

text \<open>An opened socket has its buffer.\<close>

lemma open_buffer:
  assumes "mnlg_socket_open sys nm v io = Some (Inr nlg, io1)" "64 \<le> SOCKET_BUFFER_SIZE sys" "length nm < 24"
  shows "length (nlg_buf nlg) = SOCKET_BUFFER_SIZE sys"
proof -
  obtain port where port: "mnl_socket_bind sys = Inr port" using assms(1)
    by (auto simp: mnlg_socket_open_def split: if_splits option.splits sum.splits)
  define nlg0 where "nlg0 = fresh_socket sys port"
  obtain h h2 where h: "mnlg_msg_prepare sys nlg0 CTRL_CMD_GETFAMILY 5 GENL_ID_CTRL 1 = Some (nlg0\<lparr> nlg_seq := sys_time sys \<rparr>, h)"
    "mnl_attr_put_strz h CTRL_ATTR_FAMILY_NAME nm = Some h2" "length (msg_buffer h2) = SOCKET_BUFFER_SIZE sys"
    unfolding nlg0_def using open_request[OF assms(2,3)] by blast
  obtain e io2 where send: "mnlg_socket_send sys (nlg0\<lparr> nlg_seq := sys_time sys \<rparr>) h2 io = (e, nlg0\<lparr> nlg_seq := sys_time sys, nlg_buf := msg_buffer h2 \<rparr>, io2)"
    by (cases "mnl_socket_sendto sys h2 io") (simp add: mnlg_socket_send_def)
  have "\<exists>r errno fid nlg3 io3. mnlg_socket_recv_run sys (nlg0\<lparr> nlg_seq := sys_time sys, nlg_buf := msg_buffer h2 \<rparr>) (Some (get_family_id_cb sys)) (0, 0) io2 =
      Some ((r, errno, fid), nlg3, io3) \<and> nlg = nlg3\<lparr> nlg_id := fid, nlg_version := v \<rparr>"
    using assms(1) unfolding mnlg_socket_open_def fresh_socket_def[symmetric]
    by (simp add: port nlg0_def[symmetric] h send Let_def split: if_splits option.splits bind_splits prod.splits)
  then show ?thesis using recv_run_keeps(2)[where nlg = "nlg0\<lparr> nlg_seq := sys_time sys, nlg_buf := msg_buffer h2 \<rparr>"] h(3) by fastforce
qed


section \<open>Configuring a device\<close>

lemma set_device_exchange:
  assumes "wf_device dev" "280 \<le> SOCKET_BUFFER_SIZE sys" "mnlg_socket_open sys WG_GENL_NAME WG_GENL_VERSION io = Some (Inr nlg, io1)"
    "answers sys (length (io_sent io1))"
  shows "\<exists>r io' L. kernel_set_device sys dev io = Some (r, io') \<and> io_sent io' = io_sent io1 @ map fst L \<and> exchange dev True L \<and>
    (\<forall>x \<in> set L. length (fst x) \<le> SOCKET_BUFFER_SIZE sys) \<and>
    (acknowledges sys (length (io_sent io1)) (nlg_portid nlg) \<longrightarrow> r = 0) \<and>
    (r = 0 \<longrightarrow> L \<noteq> [] \<and> (if peers dev = [] then concat (map snd L) = [] else covers_all (peers dev, []) (concat (map snd L))))"
proof -
  have "length (nlg_buf nlg) = SOCKET_BUFFER_SIZE sys" by (rule open_buffer[OF assms(3)]) (use assms(2) in simp_all)
  note loop = set_loop[OF assms(1,2,4), of None nlg "nlg_portid nlg" io1, OF _ _ _ this]
  have p: "position dev None = (peers dev, [])" "position_ok (peers dev, [])" by (simp_all add: position_def position_ok_def)
  have "kernel_set_device sys dev io = set_device_loop sys dev None nlg io1" unfolding kernel_set_device_def assms(3) by simp
  then show ?thesis using loop p(2) unfolding p(1) by (simp split del: if_split)
qed


text \<open>A kernel that opens the family and acknowledges everything.\<close>

definition sample_nl :: nl_sys where
  "sample_nl = \<lparr> sys_pagesize = 4096, sys_time = 7, sys_fails = (\<lambda>_. False), sys_socket = 0, sys_bind = 0,
     sys_getsockname = Inr (sockaddr_nl_size, AF_NETLINK, 5), sys_sendto = (\<lambda>_. 0),
     sys_recvmsg = (\<lambda>ms n. Inr (if n = 0 \<and> length ms = 1 then family_msg 30 7 5 else ack_msg 7 5, False, sockaddr_nl_size)), sys_ctrl_attr_max = 10 \<rparr>"

definition no_io :: nl_io where
  "no_io = \<lparr> io_sent = [], io_received = 0 \<rparr>"

lemma sample_nl_opens:
  obtains nlg m where "mnlg_socket_open sample_nl WG_GENL_NAME WG_GENL_VERSION no_io = Some (Inr nlg, \<lparr> io_sent = [m], io_received = 2 \<rparr>)"
    "nlg_portid nlg = 5" "nlg_id nlg = 30"
proof -
  have "opens sample_nl 30 5 (length (io_sent no_io) + 1) (io_received no_io)" by (simp add: opens_def sample_nl_def no_io_def)
  from open_ok[OF this, of WG_GENL_NAME WG_GENL_VERSION] that show thesis
    by (auto simp: no_io_def SOCKET_BUFFER_SIZE_def mnl_ideal_socket_buffer_size_def sample_nl_def numeral_2_eq_2)
qed

lemma sample_nl_buffer: "SOCKET_BUFFER_SIZE sample_nl = 4096"
  by (simp add: SOCKET_BUFFER_SIZE_def mnl_ideal_socket_buffer_size_def sample_nl_def)

lemma sample_nl_control: "1 < length ms \<Longrightarrow> control_reply sample_nl (sys_recvmsg sample_nl ms n)"
proof -
  assume "1 < length ms"
  then have "sys_recvmsg sample_nl ms n = Inr (wire_msg NLMSG_ERROR 0 7 5 (replicate 20 0), False, sockaddr_nl_size)" by (simp add: sample_nl_def ack_msg_def)
  moreover have "16 + length (replicate 20 (0 :: u8)) \<le> SOCKET_BUFFER_SIZE sample_nl" by (simp add: sample_nl_buffer)
  ultimately show ?thesis unfolding control_reply_def by force
qed

lemma sample_nl_ack: "acknowledges sample_nl 1 5"
  by (rule ack_acknowledges) (simp_all add: sample_nl_buffer, simp_all add: sample_nl_def)

definition sample_peer :: "u8 \<Rightarrow> wgallowedip list \<Rightarrow> wgpeer" where
  "sample_peer k as = new_peer\<lparr> p_flags := set_flag WGPEER_HAS_PUBLIC_KEY 0, public_key := replicate 32 k, allowedips := as \<rparr>"

definition sample_dev :: wgdevice where
  "sample_dev = new_device\<lparr> name := ''wg0'', peers := [sample_peer 1 (map (\<lambda>i. \<lparr> ip = AF_INET (of_nat i), cidr = 32, a_flags = 0 \<rparr>) [0..<300]), sample_peer 2 []] \<rparr>"

lemma wf_sample_dev: "wf_device sample_dev"
  by (auto simp: sample_dev_def sample_peer_def wf_device_def wf_peer_def new_device_def new_peer_def list_all_iff wf_allowedip_def)


end
