(* ===== verification/Linux_Read.thy ===== *)
theory Linux_Read
  imports Linux_Replies
begin

text \<open>
  Reading a device back: the attributes \<^verbatim>\<open>kernel_set_device\<close> writes, read by the callbacks of \<^verbatim>\<open>kernel_get_device\<close> and joined by
  \<^verbatim>\<open>coalesce_peers\<close>, are the device again.
\<close>

section \<open>Lists of attributes\<close>

lemma nested_list: "attr_bytes (NLA_F_NESTED OR of_nat t) bs = nest_bytes t bs"
  by (simp add: nest_bytes_def)

lemma attrs_bytes_member: "(t, dat) \<in> set as \<Longrightarrow> 4 + length dat \<le> length (attrs_bytes as)"
proof (induction as)
  case (Cons a as)
  then show ?case using align_ge[of "length dat"] by (cases a) auto
qed simp

lemma allowedips_bytes_attrs: "allowedips_bytes as = attrs_bytes (map (\<lambda>a. (NLA_F_NESTED OR of_nat 0, enc (allowedip_attrs a))) as)"
  by (induction as) (simp_all add: allowedip_bytes_def nest_bytes_def)

definition piece_body :: "piece \<Rightarrow> (u16 \<times> u8 list) list" where
  "piece_body = (\<lambda>(p, fresh, als). map (\<lambda>(t, dat). (of_nat t, dat)) (peer_attrs p fresh) @
     (case als of None \<Rightarrow> [] | Some as \<Rightarrow> [(NLA_F_NESTED OR of_nat WGPEER_A_ALLOWEDIPS, allowedips_bytes as)]))"

lemma pieces_bytes_attrs: "pieces_bytes pcs = attrs_bytes (map (\<lambda>x. (NLA_F_NESTED OR of_nat 0, attrs_bytes (piece_body x))) pcs)"
proof (induction pcs)
  case (Cons x pcs)
  have "piece_bytes x = nest_bytes 0 (attrs_bytes (piece_body x))"
    by (cases x) (simp add: piece_bytes_def piece_body_def enc_def nest_bytes_def split: option.split)
  then show ?case using Cons by (simp add: nest_bytes_def)
qed simp

lemma attr_types: "list_all (\<lambda>t. unat ((NLA_F_NESTED OR of_nat t) AND 0x3FFF) = t \<and> unat (of_nat t AND 0x3FFF :: u16) = t) [0, 1, 2, 3, 4, 5, 6, 7, 8, 9, 10, 11, 12, 13, 14, 15]"
  by (simp add: NLA_F_NESTED_def)

lemma attr_type:
  assumes "t < 16"
  shows "unat ((NLA_F_NESTED OR of_nat t) AND 0x3FFF) = t" "unat (of_nat t AND 0x3FFF :: u16) = t"
proof -
  have "t \<in> set [0, 1, 2, 3, 4, 5, 6, 7, 8, 9, 10, 11, 12, 13, 14, 15]" using assms by (simp, arith)
  then show "unat ((NLA_F_NESTED OR of_nat t) AND 0x3FFF) = t" "unat (of_nat t AND 0x3FFF :: u16) = t" using attr_types unfolding list_all_iff by blast+
qed

lemma type_of_nested [simp]: "t < 16 \<Longrightarrow> mnl_attr_get_type \<lparr> nla_type = NLA_F_NESTED OR of_nat t, nla_data = dat, nla_behind = b \<rparr> = t"
  using attr_type by (simp add: mnl_attr_get_type_def)

lemma type_of_plain [simp]: "t < 16 \<Longrightarrow> mnl_attr_get_type \<lparr> nla_type = of_nat t, nla_data = dat, nla_behind = b \<rparr> = t"
  using attr_type by (simp add: mnl_attr_get_type_def)

lemma take_num_le:
  assumes "mnl_attr_data_type_len ty = n" "ty \<in> {MNL_TYPE_U8, MNL_TYPE_U16, MNL_TYPE_U32, MNL_TYPE_U64}"
  shows "take_num \<lparr> nla_type = t, nla_data = le_bytes n v, nla_behind = b \<rparr> ty f d = Some (1, fst d, f (v mod 256 ^ n) (snd d))"
proof -
  have "mnl_attr_validate \<lparr> nla_type = t, nla_data = le_bytes n v, nla_behind = b \<rparr> ty e = (True, e)" for e
    using assms by (auto simp: mnl_attr_validate_def mnl_attr_check_def mnl_attr_get_payload_len_def mnl_attr_data_type_len_def)
  moreover have "mnl_attr_get_num n \<lparr> nla_type = t, nla_data = le_bytes n v, nla_behind = b \<rparr> = Some (v mod 256 ^ n)"
    by (simp add: mnl_attr_get_num_def load_def)
  ultimately show ?thesis using assms(1) by (simp add: take_num_def)
qed

lemma take_u8 [simp]: "take_num \<lparr> nla_type = t, nla_data = [w], nla_behind = b \<rparr> MNL_TYPE_U8 f d = Some (1, fst d, f (unat w) (snd d))"
  using take_num_le[of MNL_TYPE_U8 1 t "unat w" b f d] unat_below[of w] by (simp add: mnl_attr_data_type_len_def)

lemmas take_nums [simp] =
  take_num_le[where ty = MNL_TYPE_U16 and n = 2, simplified mnl_attr_data_type_len_def mnl_attr_data_type.case, OF refl, simplified]
  take_num_le[where ty = MNL_TYPE_U32 and n = 4, simplified mnl_attr_data_type_len_def mnl_attr_data_type.case, OF refl, simplified]


text \<open>The attribute with nothing behind it, for callbacks that do not look behind it.\<close>

abbreviation attr :: "u16 \<Rightarrow> u8 list \<Rightarrow> u8 list \<Rightarrow> nlattr" where
  "attr t dat b \<equiv> \<lparr> nla_type = t, nla_data = dat, nla_behind = b \<rparr>"

definition accepts :: "'d attr_cb \<Rightarrow> u16 \<times> u8 list \<Rightarrow> bool" where
  "accepts cb a \<longleftrightarrow> (\<forall>b d. \<exists>d'. cb (attr (fst a) (snd a) b) d = Some (1, d') \<and> cb (attr (fst a) (snd a) []) d = Some (1, d'))"

definition taken :: "'d attr_cb \<Rightarrow> u16 \<times> u8 list \<Rightarrow> int \<times> 'd \<Rightarrow> int \<times> 'd" where
  "taken cb a d = snd (the (cb (attr (fst a) (snd a) []) d))"

lemma accepts_taken: "accepts cb (t, dat) \<Longrightarrow> cb (attr t dat b) d = Some (1, taken cb (t, dat) d)"
  unfolding accepts_def taken_def by (metis fst_conv option.sel snd_conv)

lemma parse_nested_taken:
  assumes "list_all (accepts cb) as" "length (attrs_bytes as) < 2 ^ 16"
  shows "mnl_attr_parse_nested (attr t (attrs_bytes as) b) cb d = Some (1, fold (taken cb) as d)"
proof (rule parse_nested_fold)
  show "cb (attr t dat behind) d = Some (1, taken cb (t, dat) d)" if "(t, dat) \<in> set as" for t dat behind d
    using that assms(1) accepts_taken[of cb t dat] by (auto simp: list_all_iff)
  show "\<forall>(t, dat) \<in> set as. 4 + length dat < 2 ^ 16" using attrs_bytes_member assms(2) by fastforce
qed

lemma parse_taken:
  assumes "list_all (accepts cb) as" "length (attrs_bytes as) < 2 ^ 15" "length genl = 4"
  shows "mnl_attr_parse (parsed_msg mt fl sq pid (genl @ attrs_bytes as) rest) 4 cb d = Some (1, fold (taken cb) as d)"
proof (rule parse_fold)
  show "cb (attr t dat behind) d = Some (1, taken cb (t, dat) d)" if "(t, dat) \<in> set as" for t dat behind d
    using that assms(1) accepts_taken[of cb t dat] by (auto simp: list_all_iff)
  show "\<forall>(t, dat) \<in> set as. 4 + length dat < 2 ^ 16" using attrs_bytes_member assms(2) by fastforce
qed (use assms in simp_all)


section \<open>Allowed IPs\<close>

lemma allowedip_cbs [simp]:
  "parse_allowedip_attr (attr 1 (le_bytes 2 v) b) d = Some (1, fst d, (snd d)\<lparr> ra_family := of_nat (v mod 65536) \<rparr>)"
  "length dat = 4 \<Longrightarrow> parse_allowedip_attr (attr 2 dat b) d = Some (1, fst d, (snd d)\<lparr> ra_ip := dat @ drop 4 (ra_ip (snd d)) \<rparr>)"
  "length dat = 16 \<Longrightarrow> parse_allowedip_attr (attr 2 dat b) d = Some (1, fst d, (snd d)\<lparr> ra_ip := dat \<rparr>)"
  "parse_allowedip_attr (attr 3 [w] b) d = Some (1, fst d, (snd d)\<lparr> ra_cidr := w \<rparr>)"
  "parse_allowedip_attr (attr 4 dat b) d = Some (1, d)"
  by (simp_all add: parse_allowedip_attr_def mnl_attr_get_type_def)

definition ip_attrs :: "wgallowedip \<Rightarrow> (u16 \<times> u8 list) list" where
  "ip_attrs a = map (\<lambda>(t, dat). (of_nat t, dat)) (allowedip_attrs a)"

lemma ip_attrs_accepted: "list_all (accepts parse_allowedip_attr) (ip_attrs a)"
  by (cases "ip a") (simp_all add: accepts_def ip_attrs_def allowedip_attrs_def)

lemma ip_attrs_taken:
  assumes "wf_allowedip a"
  shows "\<exists>r. fold (taken parse_allowedip_attr) (ip_attrs a) (e, new_raw) = (e, r) \<and> cidr_fits r \<and> cooked r = a\<lparr> a_flags := 0 \<rparr>"
proof (cases "ip a")
  case (AF_INET i)
  then show ?thesis using assms unat_below[of i]
    by (simp add: ip_attrs_def allowedip_attrs_def taken_def new_raw_def cidr_fits_def cooked_def family_num_def wf_allowedip_def)
next
  case (AF_INET6 i)
  then show ?thesis using assms unat_below[of i]
    by (simp add: ip_attrs_def allowedip_attrs_def taken_def new_raw_def cidr_fits_def cooked_def family_num_def wf_allowedip_def)
qed (use assms in \<open>simp add: wf_allowedip_def\<close>)

abbreviation strip :: "wgallowedip \<Rightarrow> wgallowedip" where
  "strip a \<equiv> a\<lparr> a_flags := 0 \<rparr>"

definition nested :: "u8 list \<Rightarrow> u16 \<times> u8 list" where
  "nested bs = (NLA_F_NESTED OR of_nat 0, bs)"

definition never_fails :: "nl_sys \<Rightarrow> bool" where
  "never_fails sys \<longleftrightarrow> (\<forall>x. \<not> sys_fails sys x)"

lemma read_allowedip:
  assumes "never_fails sys" "wf_allowedip a"
  shows "parse_allowedips_attr sys (attr t (enc (allowedip_attrs a)) b) d = Some (1, fst d, (snd d)\<lparr> allowedips := allowedips (snd d) @ [strip a] \<rparr>)"
proof -
  have e: "enc (allowedip_attrs a) = attrs_bytes (ip_attrs a)" by (simp add: enc_def ip_attrs_def)
  obtain r where r: "fold (taken parse_allowedip_attr) (ip_attrs a) (fst d, new_raw) = (fst d, r)" "cidr_fits r" "cooked r = strip a"
    using ip_attrs_taken[OF assms(2)] by blast
  have "length (allowedip_bytes a) \<le> 48" by (rule allowedip_bytes_le)
  then have "length (attrs_bytes (ip_attrs a)) < 2 ^ 16" unfolding allowedip_bytes_def e by (simp add: attrs_bytes_mod)
  from parse_nested_taken[OF ip_attrs_accepted this] show ?thesis
    unfolding parse_allowedips_attr_def e using assms(1) r by (simp add: never_fails_def)
qed

lemma read_allowedips:
  assumes "never_fails sys" "list_all wf_allowedip as"
  shows "list_all (accepts (parse_allowedips_attr sys)) (map (\<lambda>a. nested (enc (allowedip_attrs a))) as)"
    and "fold (taken (parse_allowedips_attr sys)) (map (\<lambda>a. nested (enc (allowedip_attrs a))) as) (e, p) = (e, p\<lparr> allowedips := allowedips p @ map strip as \<rparr>)"
  using assms(2)
proof (induction as arbitrary: p)
  case (Cons a as)
  case 1
  then show ?case using Cons read_allowedip[OF assms(1)] by (simp add: accepts_def nested_def)
next
  case (Cons a as)
  case 2
  then show ?case using Cons read_allowedip[OF assms(1)] by (simp add: taken_def nested_def)
qed simp_all


section \<open>Peers\<close>

lemma peer_cbs:
  "length dat = 32 \<Longrightarrow> parse_peer_attr sys (attr 1 dat b) d = Some (1, fst d, (snd d)\<lparr> public_key := dat, p_flags := set_flag WGPEER_HAS_PUBLIC_KEY (p_flags (snd d)) \<rparr>)"
  "length dat = 32 \<Longrightarrow> parse_peer_attr sys (attr 2 dat b) d = Some (1, fst d, (snd d)\<lparr> preshared_key := dat,
     p_flags := (if key_is_zero dat then p_flags (snd d) else set_flag WGPEER_HAS_PRESHARED_KEY (p_flags (snd d))) \<rparr>)"
  "parse_peer_attr sys (attr 3 dat b) d = Some (1, d)"
  "parse_peer_attr sys (attr 5 (le_bytes 2 v) b) d = Some (1, fst d, (snd d)\<lparr> persistent_keepalive_interval := of_nat (v mod 65536) \<rparr>)"
  "parse_peer_attr sys (attr (NLA_F_NESTED OR 9) dat b) d = mnl_attr_parse_nested (attr (NLA_F_NESTED OR 9) dat b) (parse_allowedips_attr sys) d"
  by (simp_all add: parse_peer_attr_def mnl_attr_get_type_def NLA_F_NESTED_def Let_def)

lemma peer_cb_endpoint:
  "sa \<noteq> SaUnspec \<Longrightarrow> parse_peer_attr sys (attr 4 (sockaddr_bytes sa) b) d = Some (1, fst d, (snd d)\<lparr> endpoint := sa \<rparr>)"
proof (cases sa)
  case (SaIn a p)
  then show ?thesis using unat_below[of a] unat_below[of p]
    by (simp add: parse_peer_attr_def mnl_attr_get_type_def sockaddr_bytes_def sockaddr_of_def)
next
  case (SaIn6 a p f s)
  then show ?thesis using unat_below[of a] unat_below[of p] unat_below[of f] unat_below[of s]
    by (simp add: parse_peer_attr_def mnl_attr_get_type_def sockaddr_bytes_def sockaddr_of_def)
qed simp

lemma peer_cb_allowedips:
  assumes "never_fails sys" "list_all wf_allowedip as" "length (allowedips_bytes as) < 2 ^ 16"
  shows "parse_peer_attr sys (attr (NLA_F_NESTED OR 9) (allowedips_bytes as) b) (e, p) = Some (1, e, p\<lparr> allowedips := allowedips p @ map strip as \<rparr>)"
proof -
  have a: "allowedips_bytes as = attrs_bytes (map (\<lambda>a. nested (enc (allowedip_attrs a))) as)" by (simp add: allowedips_bytes_attrs nested_def)
  show ?thesis unfolding peer_cbs using parse_nested_taken[OF read_allowedips(1)[OF assms(1,2)]] assms(3) read_allowedips(2)[OF assms(1,2)] unfolding a by simp
qed

text \<open>What is read from a piece.\<close>

definition read_head :: "wgpeer \<Rightarrow> bool \<Rightarrow> wgpeer" where
  "read_head p fresh =
     (let q = new_peer\<lparr> public_key := public_key p, p_flags := WGPEER_HAS_PUBLIC_KEY \<rparr>;
          psk = flag_test (p_flags p) WGPEER_HAS_PRESHARED_KEY
      in if \<not> fresh then q
         else q\<lparr> preshared_key := (if psk then preshared_key p else zero_key),
                p_flags := (if psk \<and> \<not> key_is_zero (preshared_key p) then set_flag WGPEER_HAS_PRESHARED_KEY WGPEER_HAS_PUBLIC_KEY else WGPEER_HAS_PUBLIC_KEY),
                endpoint := endpoint p,
                persistent_keepalive_interval := (if flag_test (p_flags p) WGPEER_HAS_PERSISTENT_KEEPALIVE_INTERVAL then persistent_keepalive_interval p else 0) \<rparr>)"

definition read_piece :: "piece \<Rightarrow> wgpeer" where
  "read_piece = (\<lambda>(p, fresh, als). (read_head p fresh)\<lparr> allowedips := (case als of None \<Rightarrow> [] | Some as \<Rightarrow> map strip as) \<rparr>)"

definition piece_ok :: "piece \<Rightarrow> bool" where
  "piece_ok = (\<lambda>(p, fresh, als). wf_peer p \<and> (case als of None \<Rightarrow> True | Some as \<Rightarrow> list_all wf_allowedip as))"

lemma allowedips_read_head [simp]: "allowedips (read_head p fresh) = []"
  by (simp add: read_head_def new_peer_def Let_def)

lemma fold_if: "fold f (if c then xs else ys) d = (if c then fold f xs d else fold f ys d)"
  by simp

lemma peer_attrs_read:
  assumes "wf_peer p"
  shows "list_all (accepts (parse_peer_attr sys)) (map (\<lambda>(t, dat). (of_nat t, dat)) (peer_attrs p fresh))"
    and "fold (taken (parse_peer_attr sys)) (map (\<lambda>(t, dat). (of_nat t, dat)) (peer_attrs p fresh)) (e, new_peer) = (e, read_head p fresh)"
proof -
  have k: "length (public_key p) = 32" "length (preshared_key p) = 32" using assms by (simp_all add: wf_peer_def)
  have u: "unat w mod 65536 = unat w" for w :: u16 using unat_below[of w] by simp
  show "list_all (accepts (parse_peer_attr sys)) (map (\<lambda>(t, dat). (of_nat t, dat)) (peer_attrs p fresh))"
    using k by (simp add: accepts_def peer_attrs_def peer_cbs peer_cb_endpoint)
  show "fold (taken (parse_peer_attr sys)) (map (\<lambda>(t, dat). (of_nat t, dat)) (peer_attrs p fresh)) (e, new_peer) = (e, read_head p fresh)"
    using k by (simp add: taken_def peer_attrs_def peer_cbs peer_cb_endpoint fold_if new_peer_def read_head_def Let_def u)
qed

lemma piece_body_read:
  assumes "never_fails sys" "piece_ok x" "length (attrs_bytes (piece_body x)) < 2 ^ 16"
  shows "list_all (accepts (parse_peer_attr sys)) (piece_body x)"
    and "fold (taken (parse_peer_attr sys)) (piece_body x) (e, new_peer) = (e, read_piece x)"
proof -
  obtain p fresh als where x: "x = (p, fresh, als)" by (cases x)
  have p: "wf_peer p" using assms(2) by (simp add: piece_ok_def x)
  have a: "parse_peer_attr sys (attr (NLA_F_NESTED OR 9) (allowedips_bytes as) b) (e, q) = Some (1, e, q\<lparr> allowedips := allowedips q @ map strip as \<rparr>)"
    if "als = Some as" for as b e q
    by (rule peer_cb_allowedips) (use that assms align_ge[of "length (allowedips_bytes as)"] in \<open>simp_all add: piece_ok_def piece_body_def x\<close>)
  show "list_all (accepts (parse_peer_attr sys)) (piece_body x)"
    using peer_attrs_read(1)[OF p] a by (cases als) (simp_all add: piece_body_def x accepts_def)
  show "fold (taken (parse_peer_attr sys)) (piece_body x) (e, new_peer) = (e, read_piece x)"
  proof (cases als)
    case None
    have "(read_head p fresh)\<lparr> allowedips := [] \<rparr> = read_head p fresh" by (simp add: read_head_def new_peer_def Let_def)
    then show ?thesis using peer_attrs_read(2)[OF p] None by (simp add: piece_body_def x read_piece_def)
  next
    case (Some as)
    then show ?thesis using peer_attrs_read(2)[OF p] a[OF Some] by (simp add: piece_body_def x read_piece_def taken_def)
  qed
qed

lemma flag_tests:
  "flag_test WGPEER_HAS_PUBLIC_KEY WGPEER_HAS_PUBLIC_KEY" "flag_test (set_flag WGPEER_HAS_PRESHARED_KEY WGPEER_HAS_PUBLIC_KEY) WGPEER_HAS_PUBLIC_KEY"
  by (simp_all add: flag_test_def WGPEER_HAS_PUBLIC_KEY_def WGPEER_HAS_PRESHARED_KEY_def flag_bit_def)

lemma flag_read_piece: "flag_test (p_flags (read_piece x)) WGPEER_HAS_PUBLIC_KEY"
  by (cases x) (simp add: read_piece_def read_head_def Let_def flag_tests)

lemma read_piece_attr:
  assumes "never_fails sys" "piece_ok x" "length (attrs_bytes (piece_body x)) < 2 ^ 16"
  shows "parse_peers_attr sys (attr t (attrs_bytes (piece_body x)) b) (e, dev) = Some (1, e, dev\<lparr> peers := peers dev @ [read_piece x] \<rparr>)"
  unfolding parse_peers_attr_def
  using parse_nested_taken[OF piece_body_read(1)[OF assms] assms(3)] piece_body_read(2)[OF assms] flag_read_piece[of x] assms(1)
  by (simp add: never_fails_def)

lemma read_pieces:
  assumes "never_fails sys" "list_all piece_ok pcs" "length (pieces_bytes pcs) < 2 ^ 16"
  shows "list_all (accepts (parse_peers_attr sys)) (map (\<lambda>x. nested (attrs_bytes (piece_body x))) pcs)"
    and "fold (taken (parse_peers_attr sys)) (map (\<lambda>x. nested (attrs_bytes (piece_body x))) pcs) (e, dev) = (e, dev\<lparr> peers := peers dev @ map read_piece pcs \<rparr>)"
  using assms(2,3)
proof (induction pcs arbitrary: dev)
  case (Cons x pcs)
  have l: "length (attrs_bytes (piece_body x)) < 2 ^ 16 \<and> length (pieces_bytes pcs) < 2 ^ 16" if "length (pieces_bytes (x # pcs)) < 2 ^ 16"
    using that align_ge[of "length (attrs_bytes (piece_body x))"] unfolding pieces_bytes_attrs by simp
  { case 1
    then show ?case using Cons.IH l read_piece_attr[OF assms(1), of x] by (simp add: accepts_def nested_def) }
  { case 2
    then show ?case using Cons.IH l read_piece_attr[OF assms(1), of x] by (simp add: taken_def nested_def) }
qed simp_all


section \<open>Messages\<close>

definition read_attrs :: "wgdevice \<Rightarrow> bool \<Rightarrow> wgdevice \<Rightarrow> wgdevice" where
  "read_attrs dev first d =
     (let d = d\<lparr> name := name dev \<rparr>
      in if \<not> first then d
         else d\<lparr> private_key := (if flag_test (d_flags dev) WGDEVICE_HAS_PRIVATE_KEY then private_key dev else private_key d),
                d_flags := (if flag_test (d_flags dev) WGDEVICE_HAS_PRIVATE_KEY then set_flag WGDEVICE_HAS_PRIVATE_KEY (d_flags d) else d_flags d),
                listen_port := (if flag_test (d_flags dev) WGDEVICE_HAS_LISTEN_PORT then listen_port dev else listen_port d),
                fwmark := (if flag_test (d_flags dev) WGDEVICE_HAS_FWMARK then fwmark dev else fwmark d) \<rparr>)"

definition read_message :: "wgdevice \<Rightarrow> bool \<Rightarrow> piece list \<Rightarrow> wgdevice \<Rightarrow> wgdevice" where
  "read_message dev first pcs d = (read_attrs dev first d)\<lparr> peers := peers d @ (if peers dev = [] then [] else map read_piece pcs) \<rparr>"

lemma device_cbs:
  "length dat = 32 \<Longrightarrow> parse_device_attr sys (attr 3 dat b) d = Some (1, fst d, (snd d)\<lparr> private_key := dat, d_flags := set_flag WGDEVICE_HAS_PRIVATE_KEY (d_flags (snd d)) \<rparr>)"
  "parse_device_attr sys (attr 5 dat b) d = Some (1, d)"
  "parse_device_attr sys (attr 6 (le_bytes 2 v) b) d = Some (1, fst d, (snd d)\<lparr> listen_port := of_nat (v mod 65536) \<rparr>)"
  "parse_device_attr sys (attr 7 (le_bytes 4 v) b) d = Some (1, fst d, (snd d)\<lparr> fwmark := of_nat (v mod 4294967296) \<rparr>)"
  "parse_device_attr sys (attr (NLA_F_NESTED OR 8) dat b) d = mnl_attr_parse_nested (attr (NLA_F_NESTED OR 8) dat b) (parse_peers_attr sys) d"
  by (simp_all add: parse_device_attr_def mnl_attr_get_type_def NLA_F_NESTED_def Let_def)

definition no_nul :: "string \<Rightarrow> bool" where
  "no_nul s \<longleftrightarrow> CHR 0x00 \<notin> set s"

lemma code_byte: "unat (of_nat (code c) :: u8) = code c"
  by (simp add: unat_of_nat take_bit_nat_def)

lemma str_bytes_nonzero: "no_nul s \<Longrightarrow> list_all (\<lambda>b. b \<noteq> 0) (str_bytes s)"
proof -
  have "c = CHR 0x00" if "(of_nat (code c) :: u8) = 0" for c
  proof -
    have "code c = code (CHR 0x00)" using code_byte[of c] that by simp
    then show ?thesis by (simp only: of_char_eq_iff)
  qed
  then show "no_nul s \<Longrightarrow> list_all (\<lambda>b. b \<noteq> 0) (str_bytes s)" by (auto simp: list_all_iff str_bytes_def no_nul_def)
qed

lemma chars_of_str_bytes: "map (\<lambda>b. char_of (unat b)) (str_bytes s) = s"
  by (induction s) (simp_all add: str_bytes_def code_byte)

lemma read_name:
  assumes "no_nul s" "length s < IFNAMSIZ"
  shows "parse_device_attr sys (attr 2 (str_bytes s @ [0]) b) d = Some (1, fst d, (snd d)\<lparr> name := s \<rparr>)"
proof -
  have v: "mnl_attr_validate (attr 2 (str_bytes s @ [0]) b) MNL_TYPE_STRING e = (True, e)" for e
    by (simp add: mnl_attr_validate_def mnl_attr_check_def mnl_attr_get_payload_len_def mnl_attr_data_type_len_def)
  have "takeWhile (\<lambda>b. b \<noteq> 0) (take 15 ((str_bytes s @ [0]) @ b)) = str_bytes s"
    using str_bytes_nonzero[OF assms(1)] assms(2) by (cases "length s = 15") (auto simp: list_all_iff take_Cons')
  then have "attr_strncpy (IFNAMSIZ - 1) (attr 2 (str_bytes s @ [0]) b) = Some s"
    by (simp add: attr_strncpy_def chars_of_str_bytes)
  then show ?thesis using v by (simp add: parse_device_attr_def mnl_attr_get_type_def Let_def)
qed

definition message_list :: "wgdevice \<Rightarrow> bool \<Rightarrow> piece list \<Rightarrow> (u16 \<times> u8 list) list" where
  "message_list dev first pcs = map (\<lambda>(t, dat). (of_nat t, dat)) (message_attrs dev first) @
     (if peers dev = [] then [] else [(NLA_F_NESTED OR 8, pieces_bytes pcs)])"

lemma message_body_list: "message_body dev first pcs = attrs_bytes (message_list dev first pcs)"
  by (simp add: message_body_def message_list_def enc_def nest_bytes_def)

lemma read_message_list:
  assumes "never_fails sys" "wf_device dev" "no_nul (name dev)" "list_all piece_ok pcs" "length (attrs_bytes (message_list dev first pcs)) < 2 ^ 15"
  shows "list_all (accepts (parse_device_attr sys)) (message_list dev first pcs)"
    and "fold (taken (parse_device_attr sys)) (message_list dev first pcs) (e, d) = (e, read_message dev first pcs d)"
proof -
  have n: "length (name dev) < IFNAMSIZ" "length (private_key dev) = 32" using assms(2) by (simp_all add: wf_device_def)
  have p: "parse_device_attr sys (attr (NLA_F_NESTED OR 8) (pieces_bytes pcs) b) (e, d) = Some (1, e, d\<lparr> peers := peers d @ map read_piece pcs \<rparr>)"
    if "peers dev \<noteq> []" for b e d
  proof -
    have l: "length (pieces_bytes pcs) < 2 ^ 16" using assms(5) that by (simp add: message_list_def)
    have eq: "pieces_bytes pcs = attrs_bytes (map (\<lambda>x. nested (attrs_bytes (piece_body x))) pcs)" by (simp add: pieces_bytes_attrs nested_def)
    show ?thesis unfolding device_cbs
      using parse_nested_taken[OF read_pieces(1)[OF assms(1,4) l]] l read_pieces(2)[OF assms(1,4) l] unfolding eq by simp
  qed
  have u: "unat w mod 65536 = unat w" "unat v mod 4294967296 = unat v" for w :: u16 and v :: u32 using unat_below[of w] unat_below[of v] by simp_all
  show "list_all (accepts (parse_device_attr sys)) (message_list dev first pcs)"
    using n(2) p by (auto simp: accepts_def message_list_def message_attrs_def device_attrs_def device_cbs(1-4) read_name[OF assms(3) n(1)])
  show "fold (taken (parse_device_attr sys)) (message_list dev first pcs) (e, d) = (e, read_message dev first pcs d)"
    using n(2) p by (simp add: taken_def message_list_def message_attrs_def device_attrs_def device_cbs(1-4) read_name[OF assms(3) n(1)]
        fold_if read_message_def read_attrs_def Let_def u)
qed

end
