(* ===== verification/Linux_Roundtrip.thy ===== *)
theory Linux_Roundtrip
  imports Linux_Read
begin

text \<open>
  The round trip over netlink: the pieces a device is sent in are joined again by \<^verbatim>\<open>coalesce_peers\<close>, and a kernel that sends back what
  \<^verbatim>\<open>kernel_set_device\<close> sent makes \<^verbatim>\<open>kernel_get_device\<close> return the device.
\<close>

section \<open>Joining the pieces\<close>

text \<open>A list of pieces that is all of the peers from a position on: a peer is fresh in its first piece, and every later piece of it carries
  allowed IPs.\<close>

inductive pieces_of :: "wgpeer list \<times> wgallowedip list \<Rightarrow> piece list \<Rightarrow> bool" where
  fin: "pieces_of ([], []) []"
| plain: "allowedips p = [] \<Longrightarrow> pieces_of (ps, []) pcs \<Longrightarrow> pieces_of (p # ps, []) ((p, True, None) # pcs)"
| whole: "allowedips p \<noteq> [] \<Longrightarrow> pieces_of (ps, []) pcs \<Longrightarrow> pieces_of (p # ps, al) ((p, al = [], Some (rest_of p al)) # pcs)"
| head: "allowedips p \<noteq> [] \<Longrightarrow> pieces_of (p # ps, allowedips p) pcs \<Longrightarrow> pieces_of (p # ps, []) ((p, True, None) # pcs)"
| part: "allowedips p \<noteq> [] \<Longrightarrow> k < length (rest_of p al) \<Longrightarrow> (al \<noteq> [] \<Longrightarrow> 0 < k) \<Longrightarrow> pieces_of (p # ps, drop k (rest_of p al)) pcs \<Longrightarrow>
    pieces_of (p # ps, al) ((p, al = [], Some (take k (rest_of p al))) # pcs)"

lemma covers_pieces:
  "covers s a s' \<Longrightarrow> position_ok s \<Longrightarrow> (snd s \<noteq> [] \<Longrightarrow> a \<noteq> [] \<Longrightarrow> gets_on a) \<Longrightarrow> pieces_of s' b \<Longrightarrow> pieces_of s (a @ b)"
proof (induction rule: covers.induct)
  case (plain p ps al pcs s)
  then have "al = []" by (auto simp: position_ok_def)
  then show ?case using plain by (auto simp: position_ok_def intro: pieces_of.plain)
next
  case (whole p ps pcs s al)
  then show ?case by (auto simp: position_ok_def intro: pieces_of.whole)
next
  case (none p ps al)
  then have "al = []" by (auto simp: gets_on_def)
  then show ?case using none by (auto simp: rest_of_def intro: pieces_of.head)
next
  case (part p k al ps)
  then have "al \<noteq> [] \<Longrightarrow> 0 < k" by (auto simp: gets_on_def)
  then show ?case using part by (auto intro: pieces_of.part)
qed simp

lemma covers_all_pieces: "covers_all s pcs \<Longrightarrow> position_ok s \<Longrightarrow> pieces_of s pcs"
proof (induction rule: covers_all.induct)
  case (last s pcs)
  then show ?case using covers_pieces[of s pcs "([], [])" "[]"] by (auto intro: pieces_of.fin)
next
  case (more s pcs s' qs)
  then show ?case using covers_pieces[of s pcs s' qs] covers_keeps by blast
qed

lemma pieces_of_hd: "pieces_of s pcs \<Longrightarrow> (if fst s = [] then pcs = [] else pcs \<noteq> [] \<and> fst (hd pcs) = hd (fst s))"
  by (induction rule: pieces_of.induct) auto

definition as_read_peer :: "wgpeer \<Rightarrow> wgpeer" where
  "as_read_peer p = (read_head p True)\<lparr> allowedips := map strip (allowedips p) \<rparr>"

lemma public_key_read [simp]: "public_key (read_piece x) = public_key (fst x)" "public_key (read_head p b) = public_key p"
  by (cases x; simp add: read_piece_def read_head_def Let_def)+

lemma coalesce_new:
  assumes "coalesce_peers False xs = Some ys" "xs \<noteq> [] \<Longrightarrow> public_key (hd xs) \<noteq> public_key r"
  shows "coalesce_peers n (r # xs) = Some (r # ys)"
  using assms by (cases xs) auto

lemma coalesce_merge:
  assumes "public_key q = public_key r" "allowedips r \<noteq> []"
  shows "coalesce_peers False (q # r # xs) = coalesce_peers False (q\<lparr> allowedips := allowedips q @ allowedips r \<rparr> # xs)"
  using assms by simp

lemma coalesce_next:
  assumes "pieces_of (ps, []) pcs" "distinct_adj (map public_key (p # ps))" "coalesce_peers False (map read_piece pcs) = Some (map as_read_peer ps)"
    "public_key r = public_key p"
  shows "coalesce_peers n (r # map read_piece pcs) = Some (r # map as_read_peer ps)"
proof (rule coalesce_new[OF assms(3)])
  assume "map read_piece pcs \<noteq> []"
  then show "public_key (hd (map read_piece pcs)) \<noteq> public_key r"
    using pieces_of_hd[OF assms(1)] assms(2,4) by (cases ps) (auto simp: hd_map)
qed

lemma coalesce_pieces:
  "pieces_of s pcs \<Longrightarrow> distinct_adj (map public_key (fst s)) \<Longrightarrow>
   (if snd s = [] then coalesce_peers False (map read_piece pcs) = Some (map as_read_peer (fst s))
    else (\<forall>q. public_key q = public_key (hd (fst s)) \<longrightarrow>
      coalesce_peers False (q # map read_piece pcs) = Some (q\<lparr> allowedips := allowedips q @ map strip (snd s) \<rparr> # map as_read_peer (tl (fst s)))))"
proof (induction rule: pieces_of.induct)
  case (plain p ps pcs)
  have "coalesce_peers n (r # map read_piece pcs) = Some (r # map as_read_peer ps)" if "public_key r = public_key p" for n r
    by (rule coalesce_next[OF plain(2)]) (use plain that in \<open>auto simp: distinct_adj_Cons\<close>)
  then show ?case using plain(1) by (simp add: as_read_peer_def read_piece_def)
next
  case (whole p ps pcs al)
  have new: "coalesce_peers n (r # map read_piece pcs) = Some (r # map as_read_peer ps)" if "public_key r = public_key p" for n r
    by (rule coalesce_next[OF whole(2)]) (use whole that in \<open>auto simp: distinct_adj_Cons\<close>)
  show ?case
  proof (cases "al = []")
    case True
    then show ?thesis using new by (simp add: as_read_peer_def read_piece_def rest_of_def)
  next
    case False
    have "coalesce_peers False (q # read_piece (p, False, Some al) # map read_piece pcs) =
        Some (q\<lparr> allowedips := allowedips q @ map strip al \<rparr> # map as_read_peer ps)" if "public_key q = public_key p" for q
      by (subst coalesce_merge) (use that False new in \<open>simp_all add: read_piece_def\<close>)
    then show ?thesis using False by (simp add: rest_of_def)
  qed
next
  case (head p ps pcs)
  then show ?case by (simp add: as_read_peer_def read_piece_def)
next
  case (part p k al ps pcs)
  let ?al = "rest_of p al"
  have ih: "coalesce_peers False (q # map read_piece pcs) = Some (q\<lparr> allowedips := allowedips q @ map strip (drop k ?al) \<rparr> # map as_read_peer ps)"
    if "public_key q = public_key p" for q
    using part that by simp
  have join: "map strip (take k ?al) @ map strip (drop k ?al) = map strip ?al" by (simp only: map_append[symmetric] append_take_drop_id)
  show ?case
  proof (cases "al = []")
    case True
    then show ?thesis using ih join by (simp add: as_read_peer_def read_piece_def rest_of_def)
  next
    case False
    then have "take k ?al \<noteq> []" using part(2,3) by auto
    then have "coalesce_peers False (q # read_piece (p, False, Some (take k ?al)) # map read_piece pcs) =
        Some (q\<lparr> allowedips := allowedips q @ map strip ?al \<rparr> # map as_read_peer ps)" if "public_key q = public_key p" for q
      by (subst coalesce_merge) (use that ih join in \<open>simp_all add: read_piece_def\<close>)
    then show ?thesis using False by (simp add: rest_of_def)
  qed
qed simp


section \<open>Messages sent back\<close>

lemma read_echo:
  assumes "carries m (message_body dev first pcs)" "length m \<le> 8192" "never_fails sys" "wf_device dev" "no_nul (name dev)" "list_all piece_ok pcs"
  shows "read_device_cb sys (parsed_msg mt fl sq pid (drop 16 m) rest) (e, d) = Some (1, e, read_message dev first pcs d)"
proof -
  obtain hdr genl where m: "m = hdr @ genl @ message_body dev first pcs" "length hdr = 16" "length genl = 4" using assms(1) by (auto simp: carries_def)
  then have b: "drop 16 m = genl @ attrs_bytes (message_list dev first pcs)" by (simp add: message_body_list)
  have l: "length (attrs_bytes (message_list dev first pcs)) < 2 ^ 15" using assms(2) m by (simp add: message_body_list)
  note r = read_message_list[OF assms(3-6) l]
  show ?thesis unfolding read_device_cb_def b using parse_taken[OF r(1) l m(3)] r(2) by simp
qed

text \<open>A kernel that answers a dump with the attributes of given messages, one datagram each, and ends it.\<close>

definition echoes :: "nl_sys \<Rightarrow> nat \<Rightarrow> u32 \<Rightarrow> nat \<Rightarrow> u8 list list \<Rightarrow> bool" where
  "echoes sys fid port n msgs \<longleftrightarrow>
     (\<forall>ms i. i < length msgs \<longrightarrow> sys_recvmsg sys ms (n + i) = Inr (wire_msg fid NLM_F_MULTI (sys_time sys) port (drop 16 (msgs ! i)), False, sockaddr_nl_size)) \<and>
     (\<forall>ms. sys_recvmsg sys ms (n + length msgs) = Inr (wire_msg NLMSG_DONE NLM_F_MULTI (sys_time sys) port (replicate 4 0), False, sockaddr_nl_size))"

lemma echoes_Cons: "echoes sys fid port n (m # msgs) \<longleftrightarrow>
  (\<forall>ms. sys_recvmsg sys ms n = Inr (wire_msg fid NLM_F_MULTI (sys_time sys) port (drop 16 m), False, sockaddr_nl_size)) \<and> echoes sys fid port (n + 1) msgs"
  unfolding echoes_def by (auto simp: nth_Cons split: nat.splits)

fun read_all :: "wgdevice \<Rightarrow> bool \<Rightarrow> (u8 list \<times> piece list) list \<Rightarrow> wgdevice \<Rightarrow> wgdevice" where
  "read_all dev first [] d = d"
| "read_all dev first ((m, pcs) # L) d = read_all dev False L (read_message dev first pcs d)"

lemma checks_pass:
  assumes "nlg_seq nlg = sys_time sys" "nlg_portid nlg = port" "pick_cb cb mnlg_cb_array mt = Some f"
  shows "checked_cb (nlg_seq nlg) (nlg_portid nlg) (pick_cb cb mnlg_cb_array mt) (parsed_msg mt NLM_F_MULTI (sys_time sys) port payload rest) d =
    f (parsed_msg mt NLM_F_MULTI (sys_time sys) port payload rest) d"
  using assms by (simp add: checked_cb_def parsed_msg_def mnl_nlmsg_portid_ok_def mnl_nlmsg_seq_ok_def NLM_F_MULTI_def NLM_F_DUMP_INTR_def)

lemma recv_done:
  assumes "echoes sys fid port (io_received io) []" "nlg_seq nlg = sys_time sys" "nlg_portid nlg = port" "280 \<le> SOCKET_BUFFER_SIZE sys"
  shows "\<exists>nlg' io'. mnlg_socket_recv_run sys nlg cb (e, d) io = Some ((0, 0, d), nlg', io')"
proof -
  have m: "sys_recvmsg sys (io_sent io) (io_received io) = Inr (wire_msg NLMSG_DONE NLM_F_MULTI (sys_time sys) port (replicate 4 0), False, sockaddr_nl_size)"
    using assms(1) by (simp add: echoes_def)
  have p: "pick_cb cb mnlg_cb_array NLMSG_DONE = Some mnlg_cb_stop" by (simp add: pick_cb_def mnlg_cb_array_def)
  have c: "mnlg_cb_stop (parsed_msg NLMSG_DONE NLM_F_MULTI sq pid (replicate 4 0) rest) (e, d) = Some (0, 0, d)" for sq pid rest
  proof -
    have "load 4 (wire_msg NLMSG_DONE NLM_F_MULTI sq pid (replicate 4 0) @ rest) 16 = Some 0" using load_payload[of "replicate 4 0"] by simp
    then show ?thesis by (simp add: mnlg_cb_stop_def parsed_msg_def error_result_def NLM_F_MULTI_def mnl_nlmsg_size_def)
  qed
  show ?thesis
    by (subst recv_one[OF m]) (use assms(4) in \<open>simp_all add: checks_pass[OF assms(2,3) p] c\<close>)
qed

lemma recv_echo:
  assumes "never_fails sys" "wf_device dev" "no_nul (name dev)" "280 \<le> SOCKET_BUFFER_SIZE sys" "16 \<le> fid" "fid < 2 ^ 16"
  shows "exchange dev first L \<Longrightarrow> list_all (\<lambda>x. length (fst x) \<le> SOCKET_BUFFER_SIZE sys \<and> list_all piece_ok (snd x)) L \<Longrightarrow>
    echoes sys fid port (io_received io) (map fst L) \<Longrightarrow> nlg_seq nlg = sys_time sys \<Longrightarrow> nlg_portid nlg = port \<Longrightarrow>
    \<exists>e' nlg' io'. mnlg_socket_recv_run sys nlg (Some (read_device_cb sys)) (e, d) io = Some ((0, e', read_all dev first L d), nlg', io')"
proof (induction L arbitrary: first nlg io e d)
  case Nil
  then show ?case using recv_done[of sys fid port io nlg] assms(4) by fastforce
next
  case (Cons x L)
  obtain m pcs where x: "x = (m, pcs)" by (cases x)
  let ?nlg = "nlg\<lparr> nlg_buf := received_into (wire_msg fid NLM_F_MULTI (sys_time sys) port (drop 16 m)) (nlg_buf nlg) \<rparr>" and ?io = "io\<lparr> io_received := io_received io + 1 \<rparr>"
  have c: "carries m (message_body dev first pcs)" "exchange dev False L" using Cons.prems(1) by (simp_all add: x)
  have l: "length m \<le> SOCKET_BUFFER_SIZE sys" "length m \<le> 8192" "20 \<le> length m" "length m mod 4 = 0"
    using Cons.prems(2) buffer_size_le[of sys] c(1) by (auto simp: x carries_def)
  have r: "sys_recvmsg sys (io_sent io) (io_received io) = Inr (wire_msg fid NLM_F_MULTI (sys_time sys) port (drop 16 m), False, sockaddr_nl_size)"
    using Cons.prems(3) by (simp add: x echoes_Cons)
  have p: "pick_cb (Some (read_device_cb sys)) mnlg_cb_array fid = Some (read_device_cb sys)" using assms(5) by (simp add: pick_cb_def)
  have ok: "list_all piece_ok pcs" using Cons.prems(2) by (simp add: x)
  have "length (drop 16 m) mod 4 = 0" using l(3,4) by simp presburger
  then have "mnlg_socket_recv_run sys nlg (Some (read_device_cb sys)) (e, d) io = mnlg_socket_recv_run sys ?nlg (Some (read_device_cb sys)) (e, read_message dev first pcs d) ?io"
    by (subst recv_one[OF r]) (use l assms(6) in \<open>simp_all add: checks_pass[OF Cons.prems(4,5) p] read_echo[OF c(1) l(2) assms(1-3) ok]\<close>)
  moreover have "echoes sys fid port (io_received ?io) (map fst L)" using Cons.prems(3) by (simp add: x echoes_Cons)
  ultimately show ?case using Cons.IH[OF c(2), of ?io ?nlg e "read_message dev first pcs d"] Cons.prems(2,4,5) by (simp add: x)
qed


section \<open>The round trip\<close>

text \<open>A device as it is read: a port and a mark have no flag of their own, the flags of allowed IPs and the commands to the kernel are not read.\<close>

definition as_read_device :: "wgdevice \<Rightarrow> wgdevice" where
  "as_read_device dev = (read_attrs dev True new_device)\<lparr> peers := map as_read_peer (peers dev) \<rparr>"

lemma read_all_later:
  "name d = name dev \<Longrightarrow> read_all dev False L d = d\<lparr> peers := peers d @ (if peers dev = [] then [] else map read_piece (concat (map snd L))) \<rparr>"
proof (induction L arbitrary: d)
  case (Cons x L)
  have "d\<lparr> name := name dev \<rparr> = d" using Cons.prems by simp
  then show ?case using Cons by (cases x) (simp add: read_message_def read_attrs_def Let_def)
qed simp

lemma read_all_first:
  assumes "L \<noteq> []"
  shows "read_all dev True L new_device = (read_attrs dev True new_device)\<lparr> peers := (if peers dev = [] then [] else map read_piece (concat (map snd L))) \<rparr>"
  using assms by (cases L) (auto simp: read_all_later read_message_def read_attrs_def Let_def new_device_def)

lemma pieces_ok: "pieces_of s pcs \<Longrightarrow> list_all wf_peer (fst s) \<Longrightarrow> list_all wf_allowedip (snd s) \<Longrightarrow> list_all piece_ok pcs"
proof (induction rule: pieces_of.induct)
  case (part p k al ps pcs)
  have "list_all wf_allowedip (rest_of p al)" using part by (simp add: rest_of_def wf_peer_def)
  then have "list_all wf_allowedip (take k (rest_of p al))" "list_all wf_allowedip (drop k (rest_of p al))"
    by (auto simp: list_all_iff dest: in_set_takeD in_set_dropD)
  then show ?case using part.IH part.prems by (simp add: piece_ok_def)
qed (auto simp: piece_ok_def rest_of_def wf_peer_def)

lemma get_device_run:
  assumes "\<not> sys_fails sys AllocDevice" "\<And>ms. sys_sendto sys ms = 0" "280 \<le> SOCKET_BUFFER_SIZE sys"
    "mnlg_socket_open sys WG_GENL_NAME WG_GENL_VERSION io = Some (Inr nlg, io1)" "length iface < IFNAMSIZ"
    and run: "\<And>nlg' io'. nlg_seq nlg' = sys_time sys \<Longrightarrow> nlg_portid nlg' = nlg_portid nlg \<Longrightarrow> io_received io' = io_received io1 \<Longrightarrow>
      \<exists>e' nlg'' io''. mnlg_socket_recv_run sys nlg' (Some (read_device_cb sys)) (0, new_device) io' = Some ((0, e', dev), nlg'', io'')"
    and "coalesce_peers False (peers dev) = Some ps"
  shows "kernel_get_device sys iface io = Some (0, Some (dev\<lparr> peers := ps \<rparr>))"
proof -
  have b: "length (nlg_buf nlg) = SOCKET_BUFFER_SIZE sys" by (rule open_buffer[OF assms(4)]) (use assms(3) in simp_all)
  obtain h where h: "mnlg_msg_prepare sys nlg WG_CMD_GET_DEVICE (NLM_F_REQUEST OR NLM_F_ACK OR NLM_F_DUMP) (nlg_id nlg) (nlg_version nlg) = Some (nlg\<lparr> nlg_seq := sys_time sys \<rparr>, h)"
    "msg_ok h" "msg_size h = 20" "msg_room h = SOCKET_BUFFER_SIZE sys"
    using prepare_ok[of nlg sys WG_CMD_GET_DEVICE "NLM_F_REQUEST OR NLM_F_ACK OR NLM_F_DUMP" "nlg_id nlg" "nlg_version nlg"] b assms(3) buffer_size_le[of sys] by auto
  have "msg_size h + 4 + MNL_ALIGN (length (str_bytes iface @ [0 :: u8])) \<le> msg_room h"
    using h(3,4) assms(3,5) align_less[of "length iface + 1"] by simp
  from attr_put_grows[OF h(2) this] obtain h2 where h2: "mnl_attr_put_strz h (of_nat WGDEVICE_A_IFNAME) iface = Some h2" by (auto simp: mnl_attr_put_strz_def)
  let ?nlg = "nlg\<lparr> nlg_seq := sys_time sys, nlg_buf := msg_buffer h2 \<rparr>" and ?io = "io1\<lparr> io_sent := io_sent io1 @ [take (msg_size h2) (msg_buffer h2)] \<rparr>"
  have send: "mnlg_socket_send sys (nlg\<lparr> nlg_seq := sys_time sys \<rparr>) h2 io1 = (0, ?nlg, ?io)"
    using assms(2) by (simp add: mnlg_socket_send_def mnl_socket_sendto_def)
  obtain e' nlg'' io'' where r: "mnlg_socket_recv_run sys ?nlg (Some (read_device_cb sys)) (0, new_device) ?io = Some ((0, e', dev), nlg'', io'')"
    using run[of ?nlg ?io] by auto
  have "get_device_loop sys iface io = Some (0, Some (dev\<lparr> peers := ps \<rparr>))"
    unfolding get_device_loop.simps[of sys iface io] assms(4) Option.bind.simps prod.case sum.case h(1) using assms(1,7) h2 send r by simp
  then show ?thesis using assms(5) by (simp add: kernel_get_device_def)
qed

text \<open>C3. What \<^verbatim>\<open>kernel_set_device\<close> writes \<^verbatim>\<open>kernel_get_device\<close> reads: when a device is configured with success, in however many messages,
  and another kernel answers a dump with the attributes of these messages and ends it, the device that is read is the one configured, with its peers
  joined again. No two neighbouring peers may have the same key, or they would be joined as well.\<close>

theorem netlink_roundtrip:
  assumes "wf_device dev" "no_nul (name dev)" "distinct_adj (map public_key (peers dev))"
    and "280 \<le> SOCKET_BUFFER_SIZE sys" "mnlg_socket_open sys WG_GENL_NAME WG_GENL_VERSION io = Some (Inr nlg, io1)"
    and "\<And>ms n. length (io_sent io1) < length ms \<Longrightarrow> control_reply sys (sys_recvmsg sys ms n)"
    and "kernel_set_device sys dev io = Some (0, io')"
    and "never_fails sys2" "\<And>ms. sys_sendto sys2 ms = 0" "SOCKET_BUFFER_SIZE sys \<le> SOCKET_BUFFER_SIZE sys2"
    and "mnlg_socket_open sys2 WG_GENL_NAME WG_GENL_VERSION io2 = Some (Inr nlg2, io3)" "16 \<le> unat (nlg_id nlg2)"
    and "echoes sys2 (unat (nlg_id nlg2)) (nlg_portid nlg2) (io_received io3) (drop (length (io_sent io1)) (io_sent io'))"
    and "length iface < IFNAMSIZ"
  shows "kernel_get_device sys2 iface io2 = Some (0, Some (as_read_device dev))"
proof -
  have "answers sys (length (io_sent io1))" using control_answers[of "length (io_sent io1)" sys] assms(6) by blast
  from set_device_exchange[OF assms(1,4,5) this] assms(7) obtain L where L: "io_sent io' = io_sent io1 @ map fst L" "exchange dev True L"
    "\<forall>x \<in> set L. length (fst x) \<le> SOCKET_BUFFER_SIZE sys" "L \<noteq> []"
    "if peers dev = [] then concat (map snd L) = [] else covers_all (peers dev, []) (concat (map snd L))" by auto
  have pcs: "pieces_of (peers dev, []) (concat (map snd L))"
  proof (cases "peers dev = []")
    case True
    then have "concat (map snd L) = []" using L(5) by (simp only: if_True)
    then show ?thesis unfolding True by (simp only: pieces_of.fin)
  next
    case False
    then show ?thesis using L(5) covers_all_pieces[of "(peers dev, [])"] by (simp add: position_ok_def)
  qed
  have "list_all piece_ok (concat (map snd L))" using pieces_ok[OF pcs] assms(1) by (simp add: wf_device_def)
  then have ok: "list_all (\<lambda>x. length (fst x) \<le> SOCKET_BUFFER_SIZE sys2 \<and> list_all piece_ok (snd x)) L"
    using L(3) assms(10) by (fastforce simp: list_all_iff)
  have e: "echoes sys2 (unat (nlg_id nlg2)) (nlg_portid nlg2) (io_received io3) (map fst L)" using assms(13) L(1) by simp
  have "kernel_get_device sys2 iface io2 = Some (0, Some ((read_all dev True L new_device)\<lparr> peers := map as_read_peer (peers dev) \<rparr>))"
  proof (rule get_device_run[OF _ assms(9) _ assms(11,14)])
    show "coalesce_peers False (peers (read_all dev True L new_device)) = Some (map as_read_peer (peers dev))"
      using coalesce_pieces[OF pcs] assms(3) unfolding read_all_first[OF L(4)] by simp
    fix nlg' :: mnlg_socket and io' :: nl_io
    assume "nlg_seq nlg' = sys_time sys2" "nlg_portid nlg' = nlg_portid nlg2" "io_received io' = io_received io3"
    then show "\<exists>e' nlg'' io''. mnlg_socket_recv_run sys2 nlg' (Some (read_device_cb sys2)) (0, new_device) io' = Some ((0, e', read_all dev True L new_device), nlg'', io'')"
      using recv_echo[OF assms(8,1,2) _ assms(12) _ L(2) ok, of "nlg_portid nlg2" io' nlg' 0 new_device] e assms(4,10) unat_below[of "nlg_id nlg2"] by simp
  qed (use assms(4,8,10) in \<open>simp_all add: never_fails_def\<close>)
  then show ?thesis unfolding read_all_first[OF L(4)] as_read_device_def by simp
qed

text \<open>The messages of the sample sent back.\<close>

definition echo_nl :: "u8 list list \<Rightarrow> nl_sys" where
  "echo_nl msgs = sample_nl\<lparr> sys_recvmsg := (\<lambda>ms n. Inr (
     if n = 0 then family_msg 30 7 5 else if n = 1 then ack_msg 7 5
     else if n < 2 + length msgs then wire_msg 30 NLM_F_MULTI 7 5 (drop 16 (msgs ! (n - 2)))
     else wire_msg NLMSG_DONE NLM_F_MULTI 7 5 (replicate 4 0), False, sockaddr_nl_size)) \<rparr>"

lemma echo_nl_opens:
  obtains nlg m where "mnlg_socket_open (echo_nl msgs) WG_GENL_NAME WG_GENL_VERSION no_io = Some (Inr nlg, \<lparr> io_sent = [m], io_received = 2 \<rparr>)"
    "nlg_portid nlg = 5" "nlg_id nlg = 30"
proof -
  have "opens (echo_nl msgs) 30 5 (length (io_sent no_io) + 1) (io_received no_io)" by (simp add: opens_def echo_nl_def sample_nl_def no_io_def)
  from open_ok[OF this, of WG_GENL_NAME WG_GENL_VERSION] that show thesis
    by (auto simp: no_io_def SOCKET_BUFFER_SIZE_def mnl_ideal_socket_buffer_size_def echo_nl_def sample_nl_def numeral_2_eq_2)
qed

lemma echo_nl_echoes: "echoes (echo_nl msgs) 30 5 2 msgs"
  by (simp add: echoes_def echo_nl_def sample_nl_def)

theorem netlink_roundtrip_witness:
  "\<exists>io'. kernel_set_device sample_nl sample_dev no_io = Some (0, io') \<and>
    kernel_get_device (echo_nl (drop 1 (io_sent io'))) ''wg0'' no_io = Some (0, Some (as_read_device sample_dev))"
proof -
  obtain nlg m where o: "mnlg_socket_open sample_nl WG_GENL_NAME WG_GENL_VERSION no_io = Some (Inr nlg, \<lparr> io_sent = [m], io_received = 2 \<rparr>)" "nlg_portid nlg = 5"
    by (rule sample_nl_opens)
  have a: "answers sample_nl 1" using control_answers[of 1 sample_nl] sample_nl_control by blast
  obtain io' where s: "kernel_set_device sample_nl sample_dev no_io = Some (0, io')"
    using set_device_exchange[OF wf_sample_dev _ o(1)] a sample_nl_ack o(2) sample_nl_buffer by auto
  obtain nlg2 m2 where o2: "mnlg_socket_open (echo_nl (drop 1 (io_sent io'))) WG_GENL_NAME WG_GENL_VERSION no_io = Some (Inr nlg2, \<lparr> io_sent = [m2], io_received = 2 \<rparr>)"
    "nlg_portid nlg2 = 5" "nlg_id nlg2 = 30" by (rule echo_nl_opens)
  have "kernel_get_device (echo_nl (drop 1 (io_sent io'))) ''wg0'' no_io = Some (0, Some (as_read_device sample_dev))"
  proof (rule netlink_roundtrip[OF wf_sample_dev _ _ _ o(1) _ s _ _ _ o2(1)])
    show "distinct_adj (map public_key (peers sample_dev))" by (simp add: sample_dev_def sample_peer_def del: upt_rec_numeral)
    show "no_nul (name sample_dev)" by (simp add: no_nul_def sample_dev_def del: upt_rec_numeral)
    show "echoes (echo_nl (drop 1 (io_sent io'))) (unat (nlg_id nlg2)) (nlg_portid nlg2) (io_received \<lparr> io_sent = [m2], io_received = 2 \<rparr>)
        (drop (length (io_sent \<lparr> io_sent = [m], io_received = 2 \<rparr>)) (io_sent io'))"
      using echo_nl_echoes o2(2,3) by simp
    show "SOCKET_BUFFER_SIZE sample_nl \<le> SOCKET_BUFFER_SIZE (echo_nl (drop 1 (io_sent io')))" "never_fails (echo_nl (drop 1 (io_sent io')))"
      "sys_sendto (echo_nl (drop 1 (io_sent io'))) ms = 0" for ms
      by (simp_all add: echo_nl_def SOCKET_BUFFER_SIZE_def never_fails_def sample_nl_def)
  qed (use sample_nl_control sample_nl_buffer o2(3) in simp_all)
  then show ?thesis using s by blast
qed

end
