(* ===== verification/Linux_Faults.thy ===== *)
theory Linux_Faults
  imports Linux_Roundtrip
begin

text \<open>
  Two faults of reading a device: an error in the list of allowed IPs is lost, and joining pieces can follow a null pointer.
\<close>

section \<open>An error that is lost\<close>

lemma attr_loop_prefix:
  "list_all (accepts cb) as \<Longrightarrow> length (attrs_bytes as) < 2 ^ 16 \<Longrightarrow> length pre + length (attrs_bytes as) \<le> tail \<Longrightarrow>
   attr_loop cb (pre @ attrs_bytes as @ rest) (length pre) tail ret d =
   attr_loop cb (pre @ attrs_bytes as @ rest) (length pre + length (attrs_bytes as)) tail (if as = [] then ret else 1) (fold (taken cb) as d)"
proof (induction as arbitrary: pre ret d)
  case (Cons a as)
  obtain t dat where a: "a = (t, dat)" by (cases a)
  have l: "4 + length dat < 2 ^ 16" "length pre + 4 + MNL_ALIGN (length dat) \<le> tail" using Cons.prems align_ge[of "length dat"] by (auto simp: a)
  have acc: "cb (attr t dat b) d = Some (1, taken cb a d)" for b using accepts_taken[of cb t dat] Cons.prems(1) by (simp add: a)
  have "attr_loop cb (pre @ attr_bytes t dat @ attrs_bytes as @ rest) (length pre) tail ret d =
      attr_loop cb ((pre @ attr_bytes t dat) @ attrs_bytes as @ rest) (length (pre @ attr_bytes t dat)) tail 1 (taken cb a d)"
    by (subst attr_loop_step[OF l]) (simp add: acc)
  also have "\<dots> = attr_loop cb ((pre @ attr_bytes t dat) @ attrs_bytes as @ rest) (length (pre @ attr_bytes t dat) + length (attrs_bytes as)) tail
      (if as = [] then 1 else 1) (fold (taken cb) as (taken cb a d))"
    by (rule Cons.IH) (use Cons.prems in \<open>simp_all add: a\<close>)
  finally show ?case by (simp add: a add.assoc)
qed simp

text \<open>A list whose attributes are accepted up to one that is not.\<close>

lemma parse_nested_stops:
  assumes "list_all (accepts cb) as" "\<And>b. cb (attr t dat b) (fold (taken cb) as d) = Some (r, d')" "r \<le> 0" "length (attrs_bytes (as @ (t, dat) # bs)) < 2 ^ 16"
  shows "mnl_attr_parse_nested (attr t0 (attrs_bytes (as @ (t, dat) # bs)) b) cb d = Some (r, d')"
proof -
  let ?m = "attrs_bytes as @ attr_bytes t dat @ attrs_bytes bs @ b"
  let ?n = "length (attrs_bytes (as @ (t, dat) # bs))"
  have len: "?n = length (attrs_bytes as) + 4 + MNL_ALIGN (length dat) + length (attrs_bytes bs)" by simp
  have l: "4 + length dat < 2 ^ 16" using assms(4) align_ge[of "length dat"] unfolding len by linarith
  have "attr_loop cb ([] @ attrs_bytes as @ attr_bytes t dat @ attrs_bytes bs @ b) (length ([] :: u8 list)) ?n 1 d =
      attr_loop cb ([] @ attrs_bytes as @ attr_bytes t dat @ attrs_bytes bs @ b) (length ([] :: u8 list) + length (attrs_bytes as)) ?n (if as = [] then 1 else 1) (fold (taken cb) as d)"
    by (rule attr_loop_prefix[OF assms(1)]) (use assms(4) in simp_all)
  also have "\<dots> = attr_loop cb ?m (length (attrs_bytes as)) ?n 1 (fold (taken cb) as d)" by simp
  also have "\<dots> = Some (r, d')"
    by (subst attr_loop_step[OF l]) (use assms(2,3) len in auto)
  finally show ?thesis by (simp add: mnl_attr_parse_nested_def)
qed

lemma bad_cidr_taken:
  assumes "ip a = AF_INET i" "32 < unat (cidr a)"
  shows "\<exists>r. fold (taken parse_allowedip_attr) (ip_attrs a) (e, new_raw) = (e, r) \<and> \<not> cidr_fits r \<and> cooked r = strip a"
  using assms unat_below[of i]
  by (simp add: ip_attrs_def allowedip_attrs_def taken_def new_raw_def cidr_fits_def cooked_def family_num_def)

lemma bad_cidr_stops:
  assumes "never_fails sys" "ip a = AF_INET i" "32 < unat (cidr a)"
  shows "parse_allowedips_attr sys (attr t (enc (allowedip_attrs a)) b) (e, p) = Some (- 1, e, p\<lparr> allowedips := allowedips p @ [strip a] \<rparr>)"
proof -
  have eq: "enc (allowedip_attrs a) = attrs_bytes (ip_attrs a)" by (simp add: enc_def ip_attrs_def)
  obtain r where r: "fold (taken parse_allowedip_attr) (ip_attrs a) (e, new_raw) = (e, r)" "\<not> cidr_fits r" "cooked r = strip a"
    using bad_cidr_taken[OF assms(2,3)] by blast
  have "length (allowedip_bytes a) \<le> 48" by (rule allowedip_bytes_le)
  then have "length (attrs_bytes (ip_attrs a)) < 2 ^ 16" unfolding allowedip_bytes_def eq by (simp add: attrs_bytes_mod)
  from parse_nested_taken[OF ip_attrs_accepted this] show ?thesis
    unfolding parse_allowedips_attr_def eq using assms(1) r by (simp add: never_fails_def)
qed

text \<open>C40. A fault: an allowed IP whose prefix is too long is an error of the attribute that lists the allowed IPs of a peer, but \<^verbatim>\<open>parse_peers\<close>
  returns early only when the nested parse returned 0 and not when it failed; the peer is accepted with the allowed IPs up to the bad one, and the
  others are lost without an error.\<close>

theorem bad_allowedip_cuts_list:
  assumes "never_fails sys" "wf_peer p" "list_all wf_allowedip as" "ip a = AF_INET i" "32 < unat (cidr a)"
    "length (attrs_bytes (piece_body (p, True, Some (as @ a # rest)))) < 2 ^ 16"
  shows "parse_peers_attr sys (attr t (attrs_bytes (piece_body (p, True, Some (as @ a # rest)))) b) (e, dev) =
    Some (MNL_CB_OK, e, dev\<lparr> peers := peers dev @ [(read_head p True)\<lparr> allowedips := map strip (as @ [a]) \<rparr>] \<rparr>)"
proof -
  let ?ips = "\<lambda>as. map (\<lambda>a. nested (enc (allowedip_attrs a))) as" and ?head = "map (\<lambda>(t, dat). (of_nat t, dat)) (peer_attrs p True) :: (u16 \<times> u8 list) list"
  let ?q = "(read_head p True)\<lparr> allowedips := map strip (as @ [a]) \<rparr>"
  have ips: "allowedips_bytes (as @ a # rest) = attrs_bytes (?ips as @ (NLA_F_NESTED OR of_nat 0, enc (allowedip_attrs a)) # ?ips rest)"
    by (simp add: allowedips_bytes_attrs nested_def del: of_nat_0)
  have body: "piece_body (p, True, Some (as @ a # rest)) = ?head @ (NLA_F_NESTED OR 9, allowedips_bytes (as @ a # rest)) # []" by (simp add: piece_body_def)
  have small: "length (allowedips_bytes (as @ a # rest)) < 2 ^ 16"
    using assms(6) align_ge[of "length (allowedips_bytes (as @ a # rest))"] unfolding body by simp
  have "mnl_attr_parse_nested (attr t0 (allowedips_bytes (as @ a # rest)) b0) (parse_allowedips_attr sys) (e, read_head p True) = Some (- 1, e, ?q)" for t0 b0
    unfolding ips
    by (rule parse_nested_stops[OF read_allowedips(1)[OF assms(1,3)]])
      (use small in \<open>simp_all add: ips read_allowedips(2)[OF assms(1,3)] bad_cidr_stops[OF assms(1,4,5)]\<close>)
  then have last: "parse_peer_attr sys (attr (NLA_F_NESTED OR 9) (allowedips_bytes (as @ a # rest)) b0) (e, read_head p True) = Some (- 1, e, ?q)" for b0
    unfolding peer_cbs .
  have "mnl_attr_parse_nested (attr t (attrs_bytes (piece_body (p, True, Some (as @ a # rest)))) b) (parse_peer_attr sys) (e, new_peer) = Some (- 1, e, ?q)"
    unfolding body
    by (rule parse_nested_stops[OF peer_attrs_read(1)[OF assms(2)]]) (use assms(6) body last in \<open>simp_all add: peer_attrs_read(2)[OF assms(2)]\<close>)
  moreover have "flag_test (p_flags ?q) WGPEER_HAS_PUBLIC_KEY" using flag_read_piece[of "(p, True, Some (as @ [a]))"] by (simp add: read_piece_def)
  ultimately show ?thesis unfolding parse_peers_attr_def using assms(1) by (simp add: never_fails_def)
qed

definition sample_ip :: "nat \<Rightarrow> u8 \<Rightarrow> wgallowedip" where
  "sample_ip i c = \<lparr> ip = AF_INET (of_nat i), cidr = c, a_flags = 0 \<rparr>"

theorem bad_allowedip_cuts_list_witness:
  "parse_peers_attr sample_nl (attr 0 (attrs_bytes (piece_body (sample_peer 1 [], True, Some ([sample_ip 1 32] @ sample_ip 2 33 # [sample_ip 3 32])))) []) (0, new_device) =
     Some (MNL_CB_OK, 0, new_device\<lparr> peers := [(read_head (sample_peer 1 []) True)\<lparr> allowedips := [sample_ip 1 32, sample_ip 2 33] \<rparr>] \<rparr>)"
proof -
  have p: "wf_peer (sample_peer 1 [])" by (simp add: wf_peer_def sample_peer_def new_peer_def)
  have i: "wf_allowedip (sample_ip 1 32)" "ip (sample_ip 2 33) = AF_INET (of_nat 2)" "32 < unat (cidr (sample_ip 2 33))" by (simp_all add: wf_allowedip_def sample_ip_def)
  have n: "never_fails sample_nl" by (simp add: never_fails_def sample_nl_def)
  have pk: "length (public_key (sample_peer 1 [])) = 32" "endpoint (sample_peer 1 []) = SaUnspec" by (simp_all add: sample_peer_def new_peer_def)
  have l: "length (attrs_bytes (piece_body (sample_peer 1 [], True, Some ([sample_ip 1 32] @ sample_ip 2 33 # [sample_ip 3 32])))) < 2 ^ 16"
    using allowedip_bytes_le[of "sample_ip 1 32"] allowedip_bytes_le[of "sample_ip 2 33"] allowedip_bytes_le[of "sample_ip 3 32"] peer_need_le[OF p, of True]
    by (simp add: piece_body_def peer_need_def enc_def mod_add_eq[symmetric])
  show ?thesis
    using bad_allowedip_cuts_list[OF n p _ i(2,3) l] i(1) by (simp add: new_device_def sample_ip_def)
qed


section \<open>A null pointer\<close>

text \<open>Joining a piece without allowed IPs leaves \<^verbatim>\<open>last_allowedip\<close> null, and a third piece of the same peer is linked behind it.\<close>

lemma coalesce_follows_null:
  assumes "public_key q = public_key p" "public_key r = public_key p" "allowedips p \<noteq> []" "allowedips q = []"
  shows "coalesce_peers False (p # q # r # ps) = None"
  using assms by simp

end
