(* ===== verification/Spec2Isabelle.thy ===== *)
theory Spec2Isabelle
  imports Encoding Config_Values Config Config_Cmd Syncconf Setconf Showconf Inet Roundtrip Highlight_Valid Highlight_Ip Highlighter Ipc Uapi Uapi_Roundtrip Terminal Show Regex Quick Quick_Options Quick_Up Quick_Main Quick_Cleanup Quick_Users Quick_Net Netlink Linux_Ipc Netlink_Facts Linux_Write Linux_Send Linux_Replies Linux_Read Linux_Roundtrip Linux_Faults
begin

text \<open>
  \<^bold>\<open>Verification of the tools of WireGuard for Android.\<close>

  The program is the native half of the WireGuard app: \<^verbatim>\<open>wg\<close>, which configures and shows tunnel interfaces, \<^verbatim>\<open>wg-quick\<close> for Android, which brings
  interfaces up and down, and the highlighter, which the app and the editors use to colour a configuration. Its sources are under
  \<^verbatim>\<open>tunnel/tools/wireguard-tools\<close>; file names below are relative to its \<^verbatim>\<open>src\<close> directory, or to \<^verbatim>\<open>contrib\<close> for the highlighter.

  \<^bold>\<open>How the parts fit together.\<close> \<^verbatim>\<open>wg setconf\<close> and its relatives read a configuration file with \<^verbatim>\<open>config.c\<close> into a \<^verbatim>\<open>struct wgdevice\<close>
  (\<^verbatim>\<open>containers.h\<close>), \<^verbatim>\<open>syncconf\<close> turns it into a difference to the running device, and \<^verbatim>\<open>ipc.c\<close> hands it to the kernel over netlink
  (\<^verbatim>\<open>ipc-linux.h\<close>, \<^verbatim>\<open>netlink.h\<close>) or to a userspace implementation over a socket (\<^verbatim>\<open>ipc-uapi.h\<close>, \<^verbatim>\<open>ipc-uapi-unix.h\<close>). \<^verbatim>\<open>wg show\<close> and
  \<^verbatim>\<open>wg showconf\<close> go the other way. Keys travel as text in base64 and hexadecimal (\<^verbatim>\<open>encoding.c\<close>). \<^verbatim>\<open>wg-quick\<close> (\<^verbatim>\<open>wg-quick/android.c\<close>)
  reads the options of the same file that \<^verbatim>\<open>wg\<close> does not know, runs shell commands and talks to the resolver service.

  \<^bold>\<open>Conventions.\<close> A struct is a record and an enum or a tagged union a datatype. C strings are HOL strings without the NUL; buffers whose ends matter
  are lists with explicit positions. Unsigned objects are words of their width, so that sums wrap; a C \<^verbatim>\<open>int\<close> whose value provably stays in range is
  an \<open>int\<close>. An operation that fails returns a sum or an option, with one value for each way to fail: an error code, a message, a null pointer that
  is followed, an access outside an array. Code that is not part of the sources is a parameter: \<^verbatim>\<open>realloc\<close> and the width of \<^verbatim>\<open>size_t\<close>, \<^verbatim>\<open>qsort\<close>, the
  resolver, \<^verbatim>\<open>inet_pton\<close> and \<^verbatim>\<open>inet_ntop\<close>, the file system, the answers of the other side of a socket, the system calls on netlink sockets, the output
  of shell commands, the clock. What a theorem needs of a parameter is a premise or a locale, and the witness behind the theorem gives an instance.

  \<^bold>\<open>Theories.\<close>

  \<^item> \<^verbatim>\<open>Prelude\<close>, \<^verbatim>\<open>CLib\<close>, \<^verbatim>\<open>Ctype\<close>, \<^verbatim>\<open>Inet\<close>, \<^verbatim>\<open>Regex\<close>: machine integers and flags, the string functions of C, \<^verbatim>\<open>ctype.h\<close>, textual
    addresses, and a matcher for the regular expressions \<^verbatim>\<open>android.c\<close> compiles.

  \<^item> \<^verbatim>\<open>Encoding_Base64\<close>, \<^verbatim>\<open>Encoding_Hex\<close>, \<^verbatim>\<open>Encoding\<close> (\<^verbatim>\<open>encoding.c\<close>): the constant-time codecs. Both meet the contract of a key codec, a locale;
    base64 meets the stronger one that only the canonical text is accepted, while hexadecimal takes digits of either case.

  \<^item> \<^verbatim>\<open>Containers\<close> (\<^verbatim>\<open>containers.h\<close>): the device with its peers and allowed IPs, its well-formedness, and its release on a heap: every node once.

  \<^item> \<^verbatim>\<open>Config_Values\<close>, \<^verbatim>\<open>Config\<close>, \<^verbatim>\<open>Config_Cmd\<close> (\<^verbatim>\<open>config.c\<close>): the parsers of values with their retries and ranges, the line reader with its
    pointers to the last peer and allowed IP, and the command line. The invariant of the reader excludes null pointers and bad prefixes.

  \<^item> \<^verbatim>\<open>Syncconf\<close>, \<^verbatim>\<open>Setconf\<close> (\<^verbatim>\<open>setconf.c\<close>, \<^verbatim>\<open>set.c\<close>): the commands that change a device; \<^verbatim>\<open>sync_conf\<close> refines replacing all peers.

  \<^item> \<^verbatim>\<open>Showconf\<close>, \<^verbatim>\<open>Roundtrip\<close> (\<^verbatim>\<open>showconf.c\<close>): the text of a device, and that \<^verbatim>\<open>setconf\<close> reads it back as the same device.

  \<^item> \<^verbatim>\<open>Highlight_Valid\<close>, \<^verbatim>\<open>Highlight_Ip\<close>, \<^verbatim>\<open>Highlighter\<close> (\<^verbatim>\<open>contrib/highlighter/highlighter.c\<close>): the validators against their specifications, and the
    state machine with its array of spans, with and without memory.

  \<^item> \<^verbatim>\<open>Ipc\<close> (\<^verbatim>\<open>ipc.c\<close>, \<^verbatim>\<open>ipc-uapi-unix.h\<close>): the list of names in its buffer, finding and opening sockets, and the choice of the interface.

  \<^item> \<^verbatim>\<open>Uapi\<close>, \<^verbatim>\<open>Uapi_Roundtrip\<close> (\<^verbatim>\<open>ipc-uapi.h\<close>): the text protocol in both directions; whatever the answer, the device read is well-formed.

  \<^item> \<^verbatim>\<open>Terminal\<close>, \<^verbatim>\<open>Show\<close> (\<^verbatim>\<open>terminal.c\<close>, \<^verbatim>\<open>show.c\<close>): the filter for escape sequences and the whole of \<^verbatim>\<open>wg show\<close>; secret keys do not influence
    the output unless they are asked for.

  \<^item> \<^verbatim>\<open>Netlink\<close>, \<^verbatim>\<open>Netlink_Facts\<close> (\<^verbatim>\<open>netlink.h\<close>): messages with nested attributes in a buffer of bytes, the walk over received bytes with callbacks, and
    the socket. An access outside the buffer, like a loop that does not end, is the value None, so that a result in Some says that there is none.

  \<^item> \<^verbatim>\<open>Linux_Ipc\<close> (\<^verbatim>\<open>ipc-linux.h\<close>) with \<^verbatim>\<open>Linux_Write\<close>, \<^verbatim>\<open>Linux_Send\<close>, \<^verbatim>\<open>Linux_Replies\<close>, \<^verbatim>\<open>Linux_Read\<close>, \<^verbatim>\<open>Linux_Roundtrip\<close>, \<^verbatim>\<open>Linux_Faults\<close>: a device is
    sent in as many messages as it takes and read from a dump. The proofs follow the bytes a message grows by, the pieces of the list of peers it
    carries, the exchange as a whole, and the way back through the callbacks and \<^verbatim>\<open>coalesce_peers\<close>.

  \<^item> \<^verbatim>\<open>Quick\<close>, \<^verbatim>\<open>Quick_Options\<close>, \<^verbatim>\<open>Quick_Up\<close>, \<^verbatim>\<open>Quick_Main\<close>, \<^verbatim>\<open>Quick_Cleanup\<close>, \<^verbatim>\<open>Quick_Users\<close>, \<^verbatim>\<open>Quick_Net\<close> (\<^verbatim>\<open>wg-quick/android.c\<close>): programs over a state
    with a trace of the commands run; parsing the options, bringing the interface up and down with the cleanup at exit, the users, the MTU and the
    name servers.

  \<^bold>\<open>What the theorems show.\<close> The properties carry the numbers C1, C2 and so on in the text before them. Round trips: configuration text, the userspace
  protocol, netlink messages, base64, the options of \<^verbatim>\<open>wg-quick\<close>, the list of names. Refinement and equivalence: \<^verbatim>\<open>syncconf\<close> against \<^verbatim>\<open>setconf\<close>, the
  highlighter's keys against the decoder, the filter of escape sequences. Invariants and safety: the configuration reader, every device that is read,
  the buffers of the list of names, of the highlighter and of netlink messages, secret keys in the output, the cleanup of \<^verbatim>\<open>wg-quick up\<close>. Termination:
  the retries of the resolver and the netlink exchange. Where the code does not do what it means to do, the theorem says what it does: the fault
  theorems of the highlighter, of \<^verbatim>\<open>wg show\<close>, of the readers and of \<^verbatim>\<open>wg-quick\<close>.

  \<^bold>\<open>Loops.\<close> Recursion is structural or has a measure, except where the code may run forever or follow a list that is not one: the retries of the
  resolver, the release of a device on a heap, the search for a free network number, the loops over received datagrams, and the loops that repeat a
  request. These are partial functions with the value None for a run without end. That they return is proved for the resolver, within its retries or,
  where these are unlimited, exactly when some attempt does not fail transiently; for the release of a device; and for sending a device, given a kernel
  that answers with control messages, where what is left falls with every message because a buffer of 280 bytes has room for a peer with one of its
  allowed IPs. The program's buffer is a page, or 8192 bytes where a page is larger. There is no fuel.

  \<^bold>\<open>Not modelled.\<close> The arithmetic of the key exchange (\<^verbatim>\<open>curve25519.c\<close> with \<^verbatim>\<open>curve25519-hacl64.h\<close> and \<^verbatim>\<open>curve25519-fiat32.h\<close>) and with it the commands that
  make keys (\<^verbatim>\<open>genkey.c\<close>, \<^verbatim>\<open>pubkey.c\<close>); the choice of the command in \<^verbatim>\<open>wg.c\<close>. The kernel interfaces of other systems (\<^verbatim>\<open>ipc-freebsd.h\<close>,
  \<^verbatim>\<open>ipc-openbsd.h\<close>, \<^verbatim>\<open>ipc-windows.h\<close>, \<^verbatim>\<open>ipc-uapi-windows.h\<close>), which Android does not build. \<^verbatim>\<open>contrib/embeddable-wg-library\<close>, a second copy of
  the netlink code behind another interface, and the other programs of \<^verbatim>\<open>contrib\<close>. The scripts of \<^verbatim>\<open>wg-quick\<close> for other systems, the tool that
  cleans libraries at build time (\<^verbatim>\<open>elf-cleaner\<close>), the bridge to the Go implementation (\<^verbatim>\<open>libwg-go\<close>), and the app itself, which is written in
  Java and Kotlin. What is printed on standard error, and freeing of memory except for a device, is left out throughout.
\<close>

end
